(* ===== verification/Prelude.thy ===== *)
theory Prelude
  imports Main "HOL-Library.Char_ord" "HOL-Library.Monad_Syntax"
begin

text \<open>
  What every component theory shares: the collections of rewrite rules, the reading and
  writing of a sequence by index (where the C++ reads without a bounds check, an access out
  of range is undefined behaviour and is the value \<open>None\<close>), the counted loops of the
  code as combinators with one rule each, the shift-left loop that four components of the
  code repeat, and 32-bit signed integers as \<open>int\<close> with the wrap-around written out.
\<close>

named_theorems vec_simps \<open>indexed access, loops and shifts on sequences\<close>
named_theorems row_simps \<open>rows, tables and databases\<close>
named_theorems lex_simps \<open>evaluation of the lexer on known prefixes\<close>
named_theorems parse_simps \<open>evaluation of the parser helpers\<close>

declare Option.bind_cong [fundef_cong]

lemma bind_Some_iff [simp]:
  "(m \<bind> f = Some y) \<longleftrightarrow> (\<exists>x. m = Some x \<and> f x = Some y)"
  by (cases m) auto

lemma bind_prod_Some [simp]: "Option.bind (Some (a, b)) (\<lambda>(x, y). f x y) = f a b"
  by simp

section \<open>Indexed access\<close>

text \<open>\<open>operator[]\<close> reads and writes without a check; out of range is undefined.\<close>

definition vec_at :: "'a list \<Rightarrow> nat \<Rightarrow> 'a option" where
  "vec_at xs i = (if i < length xs then Some (xs ! i) else None)"

definition vec_set :: "'a list \<Rightarrow> nat \<Rightarrow> 'a \<Rightarrow> 'a list option" where
  "vec_set xs i x = (if i < length xs then Some (xs[i := x]) else None)"

lemma vec_at_in [simp]: "i < length xs \<Longrightarrow> vec_at xs i = Some (xs ! i)"
  by (simp add: vec_at_def)

lemma vec_set_in [simp]: "i < length xs \<Longrightarrow> vec_set xs i x = Some (xs[i := x])"
  by (simp add: vec_set_def)

lemma vec_at_append_right [vec_simps]: "vec_at (xs @ y # ys) (length xs) = Some y"
  by (simp add: vec_at_def)

lemma vec_set_append_right [vec_simps]:
  "vec_set (xs @ y # ys) (length xs) z = Some (xs @ z # ys)"
  by (simp add: vec_set_def)

section \<open>Counted loops\<close>

text \<open>\<open>for (i = i0; i < n; ++i) s = f(i, s)\<close>, where a step may be undefined.\<close>

function for_range :: "nat \<Rightarrow> nat \<Rightarrow> (nat \<Rightarrow> 's \<Rightarrow> 's option) \<Rightarrow> 's \<Rightarrow> 's option" where
  "for_range i n f s = (if i < n then f i s \<bind> for_range (Suc i) n f else Some s)"
  by pat_completeness auto
termination
  by (relation "measure (\<lambda>(i, n, f, s). n - i)") auto

declare for_range.simps [simp del]

lemma for_range_done [simp]: "n \<le> i \<Longrightarrow> for_range i n f s = Some s"
  by (subst for_range.simps) simp

lemma for_range_step [vec_simps]:
  "i < n \<Longrightarrow> for_range i n f s = f i s \<bind> for_range (Suc i) n f"
  by (subst for_range.simps) simp

text \<open>The loop rule: an invariant that every step establishes for the next index.\<close>

lemma for_range_rule:
  assumes "P i s" and "i \<le> n"
    and step: "\<And>j t. i \<le> j \<Longrightarrow> j < n \<Longrightarrow> P j t \<Longrightarrow> \<exists>u. f j t = Some u \<and> P (Suc j) u"
  shows "\<exists>u. for_range i n f s = Some u \<and> P n u"
  using assms
proof (induction "n - i" arbitrary: i s)
  case 0
  then show ?case by simp
next
  case (Suc k)
  then have "i < n" by simp
  with Suc.prems obtain t where t: "f i s = Some t" "P (Suc i) t" by blast
  have "\<exists>u. for_range (Suc i) n f t = Some u \<and> P n u"
    using Suc.hyps(2) \<open>i < n\<close> t(2) Suc.prems(3) by (intro Suc.hyps(1)) auto
  with t(1) \<open>i < n\<close> show ?case by (simp add: for_range_step)
qed

text \<open>The same rule where the invariant determines the state.\<close>

lemma for_range_eq:
  assumes "i \<le> n" and "\<And>j. i \<le> j \<Longrightarrow> j < n \<Longrightarrow> f j (g j) = Some (g (Suc j))"
  shows "for_range i n f (g i) = Some (g n)"
proof -
  have "\<exists>u. for_range i n f (g i) = Some u \<and> u = g n"
    by (rule for_range_rule [where P = "\<lambda>j t. t = g j"]) (use assms in auto)
  then show ?thesis by simp
qed

text \<open>\<open>for (i = n - 1; i >= 0; --i) s = f(i, s)\<close>.\<close>

fun for_down :: "nat \<Rightarrow> (nat \<Rightarrow> 's \<Rightarrow> 's option) \<Rightarrow> 's \<Rightarrow> 's option" where
  "for_down 0 f s = Some s"
| "for_down (Suc m) f s = f m s \<bind> for_down m f"

lemma for_down_rule:
  assumes "P n s" and "\<And>j t. j < n \<Longrightarrow> P (Suc j) t \<Longrightarrow> \<exists>u. f j t = Some u \<and> P j u"
  shows "\<exists>u. for_down n f s = Some u \<and> P 0 u"
  using assms
proof (induction n arbitrary: s)
  case (Suc n)
  then obtain t where "f n s = Some t" "P n t" by blast
  with Suc show ?case by auto
qed simp

lemma for_down_eq:
  assumes "\<And>j. j < n \<Longrightarrow> f j (g (Suc j)) = Some (g j)"
  shows "for_down n f (g n) = Some (g 0)"
  using assms by (induction n) auto

text \<open>\<open>for (i = hi; i > lo; --i) s = f(i, s)\<close>.\<close>

function for_down_to :: "nat \<Rightarrow> nat \<Rightarrow> (nat \<Rightarrow> 's \<Rightarrow> 's option) \<Rightarrow> 's \<Rightarrow> 's option" where
  "for_down_to i lo f s = (if lo < i then f i s \<bind> for_down_to (i - 1) lo f else Some s)"
  by pat_completeness auto
termination
  by (relation "measure (\<lambda>(i, lo, f, s). i)") auto

declare for_down_to.simps [simp del]

lemma for_down_to_eq:
  assumes "lo \<le> hi" and "\<And>j. lo < j \<Longrightarrow> j \<le> hi \<Longrightarrow> f j (g j) = Some (g (j - 1))"
  shows "for_down_to hi lo f (g hi) = Some (g lo)"
  using assms
proof (induction "hi - lo" arbitrary: hi)
  case 0
  then show ?case by (subst for_down_to.simps) simp
next
  case (Suc n)
  then have "for_down_to (hi - 1) lo f (g (hi - 1)) = Some (g lo)" by (intro Suc.hyps(1)) auto
  with Suc show ?case by (subst for_down_to.simps) simp
qed

section \<open>Runs of operations\<close>

fun run_ops :: "('o \<Rightarrow> 's \<Rightarrow> 's option) \<Rightarrow> 'o list \<Rightarrow> 's \<Rightarrow> 's option" where
  "run_ops f [] s = Some s"
| "run_ops f (x # xs) s = f x s \<bind> run_ops f xs"

section \<open>Shifting a tail to the left\<close>

text \<open>
  \<open>for (j = i; j + 1 < size; ++j) v[j] = std::move(v[j + 1]); v.pop_back();\<close>
  occurs in \<open>Index::remove\<close>, \<open>Table::remove_row\<close> and (three times) in
  \<open>Database::drop_table\<close>.
\<close>

definition shift_left :: "'a list \<Rightarrow> nat \<Rightarrow> 'a list option" where
  "shift_left xs i = for_range i (length xs - 1)
     (\<lambda>j ys. do { y \<leftarrow> vec_at ys (Suc j); vec_set ys j y }) xs"

definition shift_out :: "'a list \<Rightarrow> nat \<Rightarrow> 'a list option" where
  "shift_out xs i = do { ys \<leftarrow> shift_left xs i; Some (butlast ys) }"

definition remove_nth :: "nat \<Rightarrow> 'a list \<Rightarrow> 'a list" where
  "remove_nth i xs = take i xs @ drop (Suc i) xs"

lemma remove_nth_append [simp]: "remove_nth (length xs) (xs @ y # ys) = xs @ ys"
  by (simp add: remove_nth_def)

lemma length_remove_nth [simp]: "i < length xs \<Longrightarrow> length (remove_nth i xs) = length xs - 1"
  by (simp add: remove_nth_def)

lemma map_remove_nth: "map f (remove_nth i xs) = remove_nth i (map f xs)"
  by (simp add: remove_nth_def take_map drop_map)

lemma set_remove_nth_subset: "set (remove_nth i xs) \<subseteq> set xs"
  by (auto simp: remove_nth_def dest: in_set_takeD in_set_dropD)

lemma list_all_remove_nth: "list_all P xs \<Longrightarrow> list_all P (remove_nth i xs)"
  using set_remove_nth_subset [of i xs] by (auto simp: list_all_iff)

lemma set_remove_nth:
  assumes "distinct xs" and "i < length xs"
  shows "set (remove_nth i xs) = set xs - {xs ! i}"
proof -
  let ?y = "xs ! i" and ?a = "take i xs" and ?b = "drop (Suc i) xs"
  have xs: "xs = ?a @ ?y # ?b" using assms(2) by (rule id_take_nth_drop)
  have "distinct (?a @ ?y # ?b)" using assms(1) xs by simp
  moreover have "set xs = set (?a @ ?y # ?b)" using xs by simp
  ultimately show ?thesis by (auto simp: remove_nth_def)
qed

lemma remove_nth_filter:
  assumes "distinct (map f xs)" and "i < length xs"
  shows "remove_nth i xs = filter (\<lambda>x. f x \<noteq> f (xs ! i)) xs"
proof -
  let ?y = "xs ! i" and ?a = "take i xs" and ?b = "drop (Suc i) xs"
  have xs: "xs = ?a @ ?y # ?b" using assms(2) by (rule id_take_nth_drop)
  have "distinct (map f (?a @ ?y # ?b))" using assms(1) xs by simp
  then have "filter (\<lambda>x. f x \<noteq> f ?y) ?a = ?a" "filter (\<lambda>x. f x \<noteq> f ?y) ?b = ?b"
    by (auto intro!: filter_True simp: image_iff)
  moreover have "filter (\<lambda>x. f x \<noteq> f ?y) xs = filter (\<lambda>x. f x \<noteq> f ?y) (?a @ ?y # ?b)" using xs by simp
  ultimately show ?thesis by (simp add: remove_nth_def)
qed

lemma distinct_remove_nth: "distinct xs \<Longrightarrow> distinct (remove_nth i xs)"
proof -
  assume "distinct xs"
  then have "distinct (take i xs @ drop i xs)" by simp
  moreover have "drop (Suc i) xs = drop 1 (drop i xs)" by simp
  ultimately show ?thesis
    unfolding remove_nth_def
    by (metis distinct_append distinct_drop disjoint_iff in_set_dropD)
qed

lemma shift_left_step:
  assumes "i \<le> j" and "Suc j < length xs"
  shows "vec_at (take j (remove_nth i xs) @ drop j xs) (Suc j) = Some (xs ! Suc j)
    \<and> vec_set (take j (remove_nth i xs) @ drop j xs) j (xs ! Suc j)
      = Some (take (Suc j) (remove_nth i xs) @ drop (Suc j) xs)"
proof -
  have len: "length (take j (remove_nth i xs)) = j" using assms by simp
  have nth: "remove_nth i xs ! j = xs ! Suc j"
    using assms by (simp add: remove_nth_def nth_append min_def)
  have split: "drop j xs = xs ! j # drop (Suc j) xs"
    using assms by (simp add: Cons_nth_drop_Suc)
  have take_Suc: "take (Suc j) (remove_nth i xs) = take j (remove_nth i xs) @ [xs ! Suc j]"
    using assms nth by (simp add: take_Suc_conv_app_nth)
  have "vec_at (take j (remove_nth i xs) @ drop j xs) (Suc j) = Some (xs ! Suc j)"
    using assms len by (simp add: nth_append)
  moreover have "vec_set (take j (remove_nth i xs) @ drop j xs) j (xs ! Suc j)
      = Some (take (Suc j) (remove_nth i xs) @ drop (Suc j) xs)"
    using assms len by (simp add: split take_Suc list_update_append)
  ultimately show ?thesis ..
qed

lemma shift_left_correct:
  assumes "i < length xs"
  shows "shift_left xs i = Some (remove_nth i xs @ [last xs])"
proof -
  let ?g = "\<lambda>j. take j (remove_nth i xs) @ drop j xs"
  have start: "?g i = xs"
    using assms by (simp add: remove_nth_def)
  have fin: "?g (length xs - 1) = remove_nth i xs @ [last xs]"
    using assms by (cases xs rule: rev_cases) auto
  have "for_range i (length xs - 1)
      (\<lambda>j ys. do { y \<leftarrow> vec_at ys (Suc j); vec_set ys j y }) (?g i) = Some (?g (length xs - 1))"
  proof (rule for_range_eq)
    show "i \<le> length xs - 1" using assms by simp
  next
    fix j
    assume "i \<le> j" and "j < length xs - 1"
    then show "do { y \<leftarrow> vec_at (?g j) (Suc j); vec_set (?g j) j y } = Some (?g (Suc j))"
      using shift_left_step [of i j xs] by simp
  qed
  then have "shift_left xs i = Some (?g (length xs - 1))"
    by (simp add: shift_left_def start)
  with fin show ?thesis by (simp only:)
qed

lemma shift_out_correct [simp]:
  "i < length xs \<Longrightarrow> shift_out xs i = Some (remove_nth i xs)"
  by (simp add: shift_out_def shift_left_correct)

section \<open>32-bit signed integers\<close>

text \<open>
  The C++ \<open>int\<close> is kept as an \<open>int\<close> together with the reduction to 32 bits at each
  operation that can leave the range.
\<close>

definition wrap32 :: "int \<Rightarrow> int" where
  "wrap32 x = (x + 2 ^ 31) mod 2 ^ 32 - 2 ^ 31"

definition in_int32 :: "int \<Rightarrow> bool" where
  "in_int32 x \<longleftrightarrow> - (2 ^ 31) \<le> x \<and> x < 2 ^ 31"

lemma wrap32_range [simp]: "in_int32 (wrap32 x)"
  by (simp add: in_int32_def wrap32_def)

text \<open>The result of an \<open>int\<close> operation; an overflow is undefined.\<close>

definition int_op :: "int \<Rightarrow> int option" where
  "int_op x = (if in_int32 x then Some x else None)"

lemma int_op_in [simp]: "in_int32 x \<Longrightarrow> int_op x = Some x"
  by (simp add: int_op_def)

lemma wrap32_id [simp]: "in_int32 x \<Longrightarrow> wrap32 x = x"
  by (simp add: in_int32_def wrap32_def)

end
