(* ===== verification/Core_Vector.thy ===== *)
theory Core_Vector
  imports Prelude
begin

text \<open>
  \<open>core::Vector<T>\<close> (src/core/vector.hpp). The allocation at \<open>_data\<close> is a list of slots,
  one per unit of capacity: \<open>None\<close> is raw storage, \<open>Some x\<close> a constructed element.
  Constructing over a live element, releasing an allocation that holds one (both are leaks),
  destroying raw storage and reading raw storage or past the allocation are errors, the value
  \<open>None\<close> of every operation. The byte count of an allocation, \<open>sizeof(T) * n\<close>, wraps at
  \<open>2 ^ 64\<close>; \<open>sz\<close> is \<open>sizeof(T)\<close>. The theory shows that no operation runs into an error while the
  sizes stay below the wrap, that every element is destroyed exactly once, and that a vector is
  a list with \<open>@\<close>, \<open>butlast\<close>, \<open>!\<close> and update by index: the contract \<open>sequence_container\<close>, on
  which the list-valued fields of the later theories rest.
\<close>

section \<open>The representation and its operations\<close>

record 'a vector =
  vslots :: "'a option list"
  vsize :: nat
  vcap :: nat

definition construct :: "'a option list \<Rightarrow> nat \<Rightarrow> 'a \<Rightarrow> 'a option list option" where
  "construct s i x = (if i < length s \<and> s ! i = None then Some (s[i := Some x]) else None)"

definition slot_read :: "'a option list \<Rightarrow> nat \<Rightarrow> 'a option" where
  "slot_read s i = (if i < length s then s ! i else None)"

definition slot_write :: "'a option list \<Rightarrow> nat \<Rightarrow> 'a \<Rightarrow> 'a option list option" where
  "slot_write s i x = (if i < length s \<and> s ! i \<noteq> None then Some (s[i := Some x]) else None)"

definition destroy :: "'a option list \<Rightarrow> nat \<Rightarrow> 'a option list option" where
  "destroy s i = (if i < length s \<and> s ! i \<noteq> None then Some (s[i := None]) else None)"

text \<open>
  \<open>::operator new(sizeof(T) * n)\<close>, with the product in \<open>size_t\<close>, and \<open>::operator delete\<close>, which
  runs no destructor.
\<close>

definition raw_new :: "nat \<Rightarrow> nat \<Rightarrow> 'a option list" where
  "raw_new sz n = replicate (sz * n mod 2 ^ 64 div sz) None"

definition raw_delete :: "'a option list \<Rightarrow> unit option" where
  "raw_delete s = (if list_all Option.is_none s then Some () else None)"

text \<open>\<open>Vector()\<close> and \<open>Vector(n)\<close>, with the value \<open>T()\<close> as an argument.\<close>

definition vector_new :: "'a vector" where
  "vector_new = \<lparr>vslots = [], vsize = 0, vcap = 0\<rparr>"

definition vector_fill :: "nat \<Rightarrow> nat \<Rightarrow> 'a \<Rightarrow> 'a vector option" where
  "vector_fill sz n x = do {
     s \<leftarrow> for_range 0 n (\<lambda>i s. construct s i x) (raw_new sz n);
     Some \<lparr>vslots = s, vsize = n, vcap = n\<rparr>
   }"

definition clear :: "'a vector \<Rightarrow> 'a vector option" where
  "clear v = do {
     s \<leftarrow> for_range 0 (vsize v) (\<lambda>i s. destroy s i) (vslots v);
     Some (v\<lparr>vslots := s, vsize := 0\<rparr>)
   }"

text \<open>\<open>~Vector\<close>: \<open>clear\<close>, then the allocation is released.\<close>

definition vector_delete :: "'a vector \<Rightarrow> unit option" where
  "vector_delete v = do { w \<leftarrow> clear v; raw_delete (vslots w) }"

definition vector_copy :: "nat \<Rightarrow> 'a vector \<Rightarrow> 'a vector option" where
  "vector_copy sz other = do {
     s \<leftarrow> for_range 0 (vsize other)
       (\<lambda>i s. do { x \<leftarrow> slot_read (vslots other) i; construct s i x })
       (raw_new sz (vcap other));
     Some \<lparr>vslots = s, vsize = vsize other, vcap = vcap other\<rparr>
   }"

text \<open>The move constructor: the new vector and what is left of \<open>other\<close>.\<close>

definition vector_move :: "'a vector \<Rightarrow> 'a vector \<times> 'a vector" where
  "vector_move other = (other, vector_new)"

text \<open>The assignments; \<open>same\<close> is \<open>this == &other\<close>.\<close>

definition vector_assign :: "nat \<Rightarrow> bool \<Rightarrow> 'a vector \<Rightarrow> 'a vector \<Rightarrow> 'a vector option" where
  "vector_assign sz same this other =
     (if same then Some this
      else do { w \<leftarrow> clear this; _ \<leftarrow> raw_delete (vslots w); vector_copy sz other })"

definition vector_assign_move ::
    "bool \<Rightarrow> 'a vector \<Rightarrow> 'a vector \<Rightarrow> ('a vector \<times> 'a vector) option" where
  "vector_assign_move same this other =
     (if same then Some (this, this)
      else do { w \<leftarrow> clear this; _ \<leftarrow> raw_delete (vslots w); Some (other, vector_new) })"

definition reserve :: "nat \<Rightarrow> nat \<Rightarrow> 'a vector \<Rightarrow> 'a vector option" where
  "reserve sz new_cap v =
     (if new_cap > vcap v then do {
        (old, new) \<leftarrow> for_range 0 (vsize v)
          (\<lambda>i (old, new). do {
             x \<leftarrow> slot_read old i;
             new \<leftarrow> construct new i x;
             old \<leftarrow> destroy old i;
             Some (old, new)
           }) (vslots v, raw_new sz new_cap);
        _ \<leftarrow> raw_delete old;
        Some (v\<lparr>vslots := new, vcap := new_cap\<rparr>)
      } else Some v)"

text \<open>The capacity \<open>push_back\<close> asks for when the allocation is full.\<close>

definition grown :: "'a vector \<Rightarrow> nat" where
  "grown v = (if vcap v = 0 then 8 else vcap v * 2 mod 2 ^ 64)"

definition push_back :: "nat \<Rightarrow> 'a \<Rightarrow> 'a vector \<Rightarrow> 'a vector option" where
  "push_back sz x v = do {
     v \<leftarrow> (if vsize v \<ge> vcap v then reserve sz (grown v) v else Some v);
     s \<leftarrow> construct (vslots v) (vsize v) x;
     Some (v\<lparr>vslots := s, vsize := vsize v + 1\<rparr>)
   }"

text \<open>
  \<open>v.push_back(v[i])\<close>: the argument is a reference into the vector's own allocation, which
  \<open>reserve\<close> has released when it moved the elements.
\<close>

definition push_back_own :: "nat \<Rightarrow> nat \<Rightarrow> 'a vector \<Rightarrow> 'a vector option" where
  "push_back_own sz i v = do {
     w \<leftarrow> (if vsize v \<ge> vcap v then reserve sz (grown v) v else Some v);
     x \<leftarrow> (if vsize v \<ge> vcap v \<and> vcap w > vcap v then None else slot_read (vslots v) i);
     s \<leftarrow> construct (vslots w) (vsize w) x;
     Some (w\<lparr>vslots := s, vsize := vsize w + 1\<rparr>)
   }"

definition pop_back :: "'a vector \<Rightarrow> 'a vector option" where
  "pop_back v =
     (if vsize v > 0 then do {
        s \<leftarrow> destroy (vslots v) (vsize v - 1);
        Some (v\<lparr>vslots := s, vsize := vsize v - 1\<rparr>)
      } else Some v)"

definition vector_get :: "'a vector \<Rightarrow> nat \<Rightarrow> 'a option" where
  "vector_get v i = slot_read (vslots v) i"

definition vector_put :: "'a vector \<Rightarrow> nat \<Rightarrow> 'a \<Rightarrow> 'a vector option" where
  "vector_put v i x = do { s \<leftarrow> slot_write (vslots v) i x; Some (v\<lparr>vslots := s\<rparr>) }"

definition vector_back :: "'a vector \<Rightarrow> 'a option" where
  "vector_back v = (if vsize v = 0 then None else slot_read (vslots v) (vsize v - 1))"

section \<open>Well-formed vectors\<close>

text \<open>The elements first, raw storage behind them, nothing else.\<close>

definition vector_inv :: "'a vector \<Rightarrow> bool" where
  "vector_inv v \<longleftrightarrow> length (vslots v) = vcap v \<and> vsize v \<le> vcap v
     \<and> (\<forall>i < vcap v. (vslots v ! i \<noteq> None) = (i < vsize v))"

definition elems :: "'a vector \<Rightarrow> 'a list" where
  "elems v = map the (take (vsize v) (vslots v))"

definition rep :: "'a list \<Rightarrow> nat \<Rightarrow> 'a vector" where
  "rep xs k = \<lparr>vslots = map Some xs @ replicate k None, vsize = length xs, vcap = length xs + k\<rparr>"

lemma rep_inv [simp]: "vector_inv (rep xs k)"
  by (auto simp: vector_inv_def rep_def nth_append)

lemma elems_rep [simp]: "elems (rep xs k) = xs"
  by (simp add: elems_def rep_def comp_def)

lemma vsize_rep [simp]: "vsize (rep xs k) = length xs"
  by (simp add: rep_def)

lemma vcap_rep [simp]: "vcap (rep xs k) = length xs + k"
  by (simp add: rep_def)

text \<open>The sizes whose allocation does not wrap, and the number of elements up to which growing is safe.\<close>

definition fits :: "nat \<Rightarrow> nat \<Rightarrow> bool" where
  "fits sz n \<longleftrightarrow> 0 < sz \<and> sz * n < 2 ^ 64"

definition max_elems :: "nat \<Rightarrow> nat" where
  "max_elems sz = (if 0 < sz \<and> 8 * sz < 2 ^ 64 then 2 ^ 63 div sz else 0)"

lemma raw_new_fits [simp]: "fits sz n \<Longrightarrow> raw_new sz n = replicate n None"
  by (simp add: raw_new_def fits_def)

lemma raw_delete_empty [simp]: "raw_delete (replicate n None) = Some ()"
  by (simp add: raw_delete_def list_all_length)

lemma fits_mono: "fits sz n \<Longrightarrow> m \<le> n \<Longrightarrow> fits sz m"
  by (auto simp: fits_def intro: le_less_trans [OF mult_le_mono2])

lemma max_elems_double:
  assumes "n < max_elems sz"
  shows "fits sz (n * 2)" and "n * 2 < 2 ^ 64" and "fits sz 8"
proof -
  have sz: "0 < sz" "8 * sz < 2 ^ 64" "n < 2 ^ 63 div sz" using assms by (auto simp: max_elems_def split: if_splits)
  then have "Suc n * sz \<le> 2 ^ 63" by (simp add: less_eq_div_iff_mult_less_eq Suc_le_eq [symmetric])
  then have b: "sz * (n * 2) < 2 ^ 64" using sz(1) by (simp add: algebra_simps)
  show "fits sz (n * 2)" "fits sz 8" using sz b by (simp_all add: fits_def mult.commute)
  have "n * 2 \<le> sz * (n * 2)" using sz(1) by simp
  then show "n * 2 < 2 ^ 64" using b by linarith
qed

lemma inv_repE:
  assumes "vector_inv v"
  obtains k where "v = rep (elems v) k"
proof
  let ?k = "vcap v - vsize v"
  have len: "length (elems v) = vsize v"
    using assms by (simp add: vector_inv_def elems_def)
  have "vslots v = map Some (elems v) @ replicate ?k None"
  proof (rule nth_equalityI)
    show "length (vslots v) = length (map Some (elems v) @ replicate ?k None)"
      using assms len by (simp add: vector_inv_def)
  next
    fix i
    assume "i < length (vslots v)"
    then show "vslots v ! i = (map Some (elems v) @ replicate ?k None) ! i"
      using assms len by (auto simp: vector_inv_def nth_append elems_def)
  qed
  then show "v = rep (elems v) ?k"
    using assms len by (simp add: rep_def vector_inv_def)
qed

section \<open>What the operations do to a well-formed vector\<close>

lemma construct_at [vec_simps]:
  "construct (xs @ None # ys) (length xs) x = Some (xs @ Some x # ys)"
  by (simp add: construct_def)

lemma destroy_at [vec_simps]:
  "destroy (xs @ Some x # ys) (length xs) = Some (xs @ None # ys)"
  by (simp add: destroy_def)

lemma slot_read_at [vec_simps]: "slot_read (xs @ Some x # ys) (length xs) = Some x"
  by (simp add: slot_read_def)

lemma replicate_countdown: "j < n \<Longrightarrow> replicate (m + (n - j)) x = x # replicate (m + (n - Suc j)) x"
  by (simp add: Suc_diff_Suc flip: replicate_Suc add_Suc_right)

lemma construct_prefix:
  assumes "j < n" and "n \<le> length xs"
  shows "construct (map Some (take j xs) @ replicate (m + (n - j)) None) j (xs ! j)
    = Some (map Some (take (Suc j) xs) @ replicate (m + (n - Suc j)) None)"
proof -
  have len: "length (map Some (take j xs)) = j" using assms by simp
  show ?thesis
    unfolding replicate_countdown [OF assms(1)]
    using construct_at [of "map Some (take j xs)" "replicate (m + (n - Suc j)) None" "xs ! j"]
      assms len by (simp add: take_Suc_conv_app_nth)
qed

lemma destroy_prefix:
  assumes "j < length xs"
  shows "destroy (replicate j None @ map Some (drop j xs) @ ys) j
    = Some (replicate (Suc j) None @ map Some (drop (Suc j) xs) @ ys)"
    and "slot_read (replicate j None @ map Some (drop j xs) @ ys) j = Some (xs ! j)"
proof -
  have split: "map Some (drop j xs) = Some (xs ! j) # map Some (drop (Suc j) xs)"
    using assms by (simp add: Cons_nth_drop_Suc flip: list.map)
  have "replicate j None @ None # zs = replicate (Suc j) None @ zs" for zs :: "'a option list"
    by (simp add: replicate_app_Cons_same)
  then show "destroy (replicate j None @ map Some (drop j xs) @ ys) j
    = Some (replicate (Suc j) None @ map Some (drop (Suc j) xs) @ ys)"
    using destroy_at [of "replicate j None" "xs ! j" "map Some (drop (Suc j) xs) @ ys"]
    by (simp add: split)
  show "slot_read (replicate j None @ map Some (drop j xs) @ ys) j = Some (xs ! j)"
    using slot_read_at [of "replicate j None"] by (simp add: split)
qed

lemma clear_rep [vec_simps]: "clear (rep xs k) = Some (rep [] (length xs + k))"
proof -
  let ?g = "\<lambda>j. replicate j None @ map Some (drop j xs) @ replicate k None"
  have "for_range 0 (length xs) (\<lambda>i s. destroy s i) (?g 0) = Some (?g (length xs))"
    by (rule for_range_eq) (simp_all add: destroy_prefix)
  then show ?thesis by (simp add: clear_def rep_def replicate_add)
qed

lemma vector_fill_rep [vec_simps]:
  assumes "fits sz n"
  shows "vector_fill sz n x = Some (rep (replicate n x) 0)"
proof -
  let ?g = "\<lambda>j. map Some (take j (replicate n x)) @ replicate (0 + (n - j)) None"
  have "for_range 0 n (\<lambda>i s. construct s i x) (?g 0) = Some (?g n)"
  proof (rule for_range_eq)
    fix j assume "0 \<le> j" and "j < n"
    then show "construct (?g j) j x = Some (?g (Suc j))"
      using construct_prefix [of j n "replicate n x" 0] by simp
  qed simp
  then show ?thesis using assms by (simp add: vector_fill_def rep_def)
qed

lemma vector_copy_rep [vec_simps]:
  assumes "fits sz (length xs + k)"
  shows "vector_copy sz (rep xs k) = Some (rep xs k)"
proof -
  let ?n = "length xs"
  let ?g = "\<lambda>j. map Some (take j xs) @ replicate (k + (?n - j)) None"
  have "for_range 0 ?n (\<lambda>i s. do { x \<leftarrow> slot_read (vslots (rep xs k)) i; construct s i x }) (?g 0)
      = Some (?g ?n)"
  proof (rule for_range_eq)
    fix j assume "0 \<le> j" and "j < ?n"
    then show "do { x \<leftarrow> slot_read (vslots (rep xs k)) j; construct (?g j) j x } = Some (?g (Suc j))"
      using construct_prefix [of j ?n xs k] by (simp add: rep_def slot_read_def nth_append)
  qed simp
  then show ?thesis using assms by (simp add: vector_copy_def rep_def add.commute)
qed

lemma reserve_rep [vec_simps]:
  assumes "length xs + k < c" and "fits sz c"
  shows "reserve sz c (rep xs k) = Some (rep xs (c - length xs))"
proof -
  let ?n = "length xs"
  let ?old = "\<lambda>j. replicate j None @ map Some (drop j xs) @ replicate k None"
  let ?new = "\<lambda>j. map Some (take j xs) @ replicate (c - ?n + (?n - j)) None"
  let ?f = "\<lambda>i (old, new). do { x \<leftarrow> slot_read old i; new \<leftarrow> construct new i x;
             old \<leftarrow> destroy old i; Some (old, new) }"
  have "for_range 0 ?n ?f (?old 0, ?new 0) = Some (?old ?n, ?new ?n)"
  proof (rule for_range_eq)
    fix j assume "0 \<le> j" and "j < ?n"
    then show "?f j (?old j, ?new j) = Some (?old (Suc j), ?new (Suc j))"
      using construct_prefix [of j ?n xs "c - ?n"] by (simp add: destroy_prefix)
  qed simp
  then show ?thesis using assms by (simp add: reserve_def rep_def replicate_add [symmetric])
qed

lemma reserve_small [vec_simps]: "c \<le> length xs + k \<Longrightarrow> reserve sz c (rep xs k) = Some (rep xs k)"
  by (simp add: reserve_def)

lemma raw_delete_rep [vec_simps]: "raw_delete (vslots (rep [] k)) = Some ()"
  by (simp add: rep_def)

lemma vector_delete_rep [vec_simps]: "vector_delete (rep xs k) = Some ()"
  by (simp add: vector_delete_def clear_rep raw_delete_rep)

lemma push_back_room [vec_simps]: "push_back sz x (rep xs (Suc k)) = Some (rep (xs @ [x]) k)"
  using construct_at [of "map Some xs" "replicate k None" x]
  by (simp add: push_back_def rep_def)

lemma reserve_grown:
  assumes "length xs < max_elems sz"
  shows "reserve sz (grown (rep xs 0)) (rep xs 0) = Some (rep xs (Suc (if xs = [] then 7 else length xs - 1)))"
proof (cases "xs = []")
  case True
  then show ?thesis using reserve_rep [of xs 0 8 sz] max_elems_double(3) [OF assms] by (simp add: grown_def)
next
  case False
  then have "length xs * 2 - length xs = Suc (length xs - 1)" by (cases xs) simp_all
  with False show ?thesis
    using reserve_rep [of xs 0 "length xs * 2" sz] max_elems_double(1,2) [OF assms] by (simp add: grown_def)
qed

lemma push_back_full [vec_simps]:
  assumes "length xs < max_elems sz"
  shows "push_back sz x (rep xs 0) = Some (rep (xs @ [x]) (if xs = [] then 7 else length xs - 1))"
proof -
  let ?m = "if xs = [] then 7 else length xs - 1"
  have "push_back sz x (rep xs 0) = push_back sz x (rep xs (Suc ?m))"
    unfolding push_back_def by (simp only: reserve_grown [OF assms] vsize_rep vcap_rep) simp
  then show ?thesis by (simp only: push_back_room)
qed

lemma pop_back_rep [vec_simps]: "pop_back (rep (xs @ [x]) k) = Some (rep xs (Suc k))"
  using destroy_at [of "map Some xs" x "replicate k None"] by (simp add: pop_back_def rep_def)

lemma vector_get_rep [vec_simps]: "i < length xs \<Longrightarrow> vector_get (rep xs k) i = Some (xs ! i)"
  by (simp add: vector_get_def slot_read_def rep_def nth_append)

lemma vector_put_rep [vec_simps]:
  "i < length xs \<Longrightarrow> vector_put (rep xs k) i x = Some (rep (xs[i := x]) k)"
  by (simp add: vector_put_def slot_write_def rep_def nth_append list_update_append map_update)

lemma vector_back_rep [vec_simps]: "vector_back (rep (xs @ [x]) k) = Some x"
  by (simp add: vector_back_def slot_read_def rep_def nth_append)

section \<open>The contract\<close>

locale sequence_container =
  fixes empty :: "'v"
    and push :: "'a \<Rightarrow> 'v \<Rightarrow> 'v option"
    and pop :: "'v \<Rightarrow> 'v option"
    and get :: "'v \<Rightarrow> nat \<Rightarrow> 'a option"
    and put :: "'v \<Rightarrow> nat \<Rightarrow> 'a \<Rightarrow> 'v option"
    and size_of :: "'v \<Rightarrow> nat"
    and items :: "'v \<Rightarrow> 'a list"
    and invar :: "'v \<Rightarrow> bool"
    and limit :: nat
  assumes empty_ok: "invar empty" "items empty = []"
    and size_ok: "invar v \<Longrightarrow> size_of v = length (items v)"
    and push_ok: "invar v \<Longrightarrow> length (items v) < limit \<Longrightarrow> \<exists>w. push x v = Some w \<and> invar w \<and> items w = items v @ [x]"
    and pop_ok: "invar v \<Longrightarrow> \<exists>w. pop v = Some w \<and> invar w \<and> items w = butlast (items v)"
    and get_ok: "invar v \<Longrightarrow> i < length (items v) \<Longrightarrow> get v i = Some (items v ! i)"
    and put_ok: "invar v \<Longrightarrow> i < length (items v) \<Longrightarrow>
      \<exists>w. put v i x = Some w \<and> invar w \<and> items w = (items v)[i := x]"
begin

lemma push_all:
  "invar v \<Longrightarrow> length (items v) + length xs \<le> limit \<Longrightarrow> \<exists>w. fold (\<lambda>x m. m \<bind> push x) xs (Some v) = Some w \<and> invar w \<and> items w = items v @ xs"
proof (induction xs arbitrary: v)
  case Nil
  then show ?case by simp
next
  case (Cons x xs)
  obtain u where u: "push x v = Some u" "invar u" "items u = items v @ [x]"
    using push_ok [OF Cons.prems(1), of x] Cons.prems(2) by auto
  have "length (items u) + length xs \<le> limit" using Cons.prems(2) u(3) by simp
  from Cons.IH [OF u(2) this] u show ?case by simp
qed

text \<open>The shift-left loop, run on the container, removes one element of the list.\<close>

lemma shift_loop:
  assumes "invar v" and "i < size_of v"
  shows "\<exists>w. (for_range i (size_of v - 1) (\<lambda>j u. do { y \<leftarrow> get u (Suc j); put u j y }) v \<bind> pop)
      = Some w \<and> invar w \<and> items w = remove_nth i (items v)"
proof -
  let ?n = "length (items v)" and ?xs = "items v"
  let ?f = "\<lambda>j u. do { y \<leftarrow> get u (Suc j); put u j y }"
  let ?P = "\<lambda>j u. invar u \<and> items u = take j (remove_nth i ?xs) @ drop j ?xs"
  have n: "size_of v = ?n" "i < ?n" using assms by (simp_all add: size_ok)
  have "\<exists>u. for_range i (?n - 1) ?f v = Some u \<and> ?P (?n - 1) u"
  proof (rule for_range_rule [where P = ?P])
    show "?P i v" using assms n by (simp add: remove_nth_def)
    show "i \<le> ?n - 1" using n by simp
  next
    fix j u
    assume "i \<le> j" "j < ?n - 1" "?P j u"
    moreover from this have "length (items u) = ?n" using n by simp
    ultimately show "\<exists>w. ?f j u = Some w \<and> ?P (Suc j) w"
      using shift_left_step [of i j ?xs] get_ok [of u "Suc j"] put_ok [of u j "?xs ! Suc j"]
      by (auto simp: vec_at_def vec_set_def)
  qed
  then obtain u where u: "for_range i (?n - 1) ?f v = Some u" "?P (?n - 1) u" by blast
  then have "butlast (items u) = remove_nth i ?xs"
    using n by (cases ?xs rule: rev_cases) auto
  with u pop_ok [of u] show ?thesis by (simp add: n)
qed

end

interpretation vec: sequence_container vector_new "push_back sz" pop_back vector_get vector_put vsize elems
  vector_inv "max_elems sz" for sz
proof
  fix v :: "'a vector" and x :: 'a and i
  have vn: "(vector_new :: 'a vector) = rep [] 0" by (simp add: vector_new_def rep_def)
  show "vector_inv (vector_new :: 'a vector)" "elems (vector_new :: 'a vector) = []"
    by (simp_all add: vn)
  assume "vector_inv v"
  then obtain k where v: "v = rep (elems v) k" by (rule inv_repE)
  show "vsize v = length (elems v)" by (subst v) simp
  show "length (elems v) < max_elems sz \<Longrightarrow>
      \<exists>w. push_back sz x v = Some w \<and> vector_inv w \<and> elems w = elems v @ [x]"
    by (subst v, cases k) (simp_all add: vec_simps)
  show "\<exists>w. pop_back v = Some w \<and> vector_inv w \<and> elems w = butlast (elems v)"
    by (subst v, cases "elems v" rule: rev_cases) (simp_all add: vec_simps, simp add: pop_back_def)
  show "i < length (elems v) \<Longrightarrow> vector_get v i = Some (elems v ! i)"
    by (subst v) (simp add: vec_simps)
  show "i < length (elems v) \<Longrightarrow>
      \<exists>w. vector_put v i x = Some w \<and> vector_inv w \<and> elems w = (elems v)[i := x]"
    by (subst v) (simp add: vec_simps)
qed

section \<open>Whole runs\<close>

text \<open>
  \<open>Copy_Assign\<close> is \<open>{ Vector w(v); v = w; }\<close>, \<open>Refill n x\<close> is \<open>v = Vector(n)\<close> from a temporary:
  the temporaries are destroyed.
\<close>

datatype 'a vector_op = PushBack 'a | PopBack | Clear | Reserve nat | Put nat 'a | Copy_Assign | Self_Assign | Refill nat 'a

fun vector_step :: "nat \<Rightarrow> 'a vector_op \<Rightarrow> 'a vector \<Rightarrow> 'a vector option" where
  "vector_step sz (PushBack x) v = push_back sz x v"
| "vector_step sz PopBack v = pop_back v"
| "vector_step sz Clear v = clear v"
| "vector_step sz (Reserve n) v = reserve sz n v"
| "vector_step sz (Put i x) v = vector_put v i x"
| "vector_step sz Copy_Assign v = do {
     w \<leftarrow> vector_copy sz v;
     v \<leftarrow> vector_assign sz False v w;
     _ \<leftarrow> vector_delete w;
     Some v
   }"
| "vector_step sz Self_Assign v = vector_assign sz True v v"
| "vector_step sz (Refill n x) v = do {
     w \<leftarrow> vector_fill sz n x;
     (v, w) \<leftarrow> vector_assign_move False v w;
     _ \<leftarrow> vector_delete w;
     Some v
   }"

fun list_step :: "'a vector_op \<Rightarrow> 'a list \<Rightarrow> 'a list option" where
  "list_step (PushBack x) xs = Some (xs @ [x])"
| "list_step PopBack xs = Some (butlast xs)"
| "list_step Clear xs = Some []"
| "list_step (Reserve n) xs = Some xs"
| "list_step (Put i x) xs = vec_set xs i x"
| "list_step Copy_Assign xs = Some xs"
| "list_step Self_Assign xs = Some xs"
| "list_step (Refill n x) xs = Some (replicate n x)"

text \<open>What an operation can add to the number of elements, and the capacity it names.\<close>

fun op_growth :: "'a vector_op \<Rightarrow> nat" where
  "op_growth (PushBack x) = 1"
| "op_growth (Refill n x) = n"
| "op_growth _ = 0"

fun op_capacity :: "'a vector_op \<Rightarrow> nat" where
  "op_capacity (Reserve n) = n"
| "op_capacity (Refill n x) = n"
| "op_capacity _ = 0"

text \<open>Sizes a run can reach without a wrap of \<open>sizeof(T) * capacity\<close>.\<close>

definition run_fits :: "nat \<Rightarrow> 'a vector_op list \<Rightarrow> bool" where
  "run_fits sz ps \<longleftrightarrow> 0 < sz \<and> sum_list (map op_growth ps) \<le> max_elems sz \<and> list_all (\<lambda>p. fits sz (op_capacity p)) ps"

lemma list_step_growth: "list_step p xs = Some ys \<Longrightarrow> length ys \<le> length xs + op_growth p"
  by (cases p) (auto simp: vec_set_def split: if_splits)

lemma vector_step_rep:
  assumes "fits sz (length xs + k)" and "length xs + op_growth p \<le> max_elems sz" and "fits sz (op_capacity p)"
  shows "(case list_step p xs of None \<Rightarrow> vector_step sz p (rep xs k) = None
    | Some ys \<Rightarrow> \<exists>m. vector_step sz p (rep xs k) = Some (rep ys m) \<and> fits sz (length ys + m))"
proof (cases p)
  case (PushBack x)
  show ?thesis
  proof (cases k)
    case 0
    then show ?thesis
      using PushBack assms(2) max_elems_double [of "length xs" sz] push_back_full [of xs sz x]
      by (cases xs) (auto simp: mult_2_right)
  next
    case (Suc m)
    then show ?thesis using PushBack assms(1) by (auto simp: vec_simps)
  qed
next
  case PopBack
  then show ?thesis using assms(1)
    by (cases xs rule: rev_cases) (auto simp: vec_simps, auto simp: pop_back_def)
next
  case (Reserve n)
  then show ?thesis using assms(1,3) by (cases "n \<le> length xs + k") (auto simp: vec_simps)
next
  case (Put i x)
  then show ?thesis using assms(1)
    by (cases "i < length xs")
      (auto simp: vec_simps vec_set_def vector_put_def slot_write_def rep_def nth_append
        list_update_append map_update)
next
  case Clear
  then show ?thesis using assms(1) by (auto simp: vec_simps)
next
  case Copy_Assign
  then show ?thesis using assms(1) by (auto simp: vec_simps vector_assign_def)
next
  case Self_Assign
  then show ?thesis using assms(1) by (auto simp: vector_assign_def)
next
  case (Refill n x)
  have "vector_delete vector_new = Some ()"
    using vector_delete_rep [of "[]" 0] by (simp add: vector_new_def rep_def)
  then show ?thesis using Refill assms(3) by (auto simp: vec_simps vector_assign_move_def)
qed

lemma vector_run_rep:
  assumes "fits sz (length xs + k)" and "length xs + sum_list (map op_growth ps) \<le> max_elems sz"
    and "list_all (\<lambda>p. fits sz (op_capacity p)) ps"
  shows "(case run_ops list_step ps xs of None \<Rightarrow> run_ops (vector_step sz) ps (rep xs k) = None
    | Some ys \<Rightarrow> \<exists>m. run_ops (vector_step sz) ps (rep xs k) = Some (rep ys m))"
  using assms
proof (induction ps arbitrary: xs k)
  case Nil
  then show ?case by auto
next
  case (Cons p ps)
  have step: "fits sz (length xs + k)" "length xs + op_growth p \<le> max_elems sz" "fits sz (op_capacity p)"
    using Cons.prems by simp_all
  show ?case
  proof (cases "list_step p xs")
    case None
    then show ?thesis using vector_step_rep [OF step] by simp
  next
    case (Some ys)
    then obtain m where m: "vector_step sz p (rep xs k) = Some (rep ys m)" "fits sz (length ys + m)"
      using vector_step_rep [OF step] by auto
    have "length ys + sum_list (map op_growth ps) \<le> max_elems sz"
      using list_step_growth [OF Some] Cons.prems(2) by simp
    with Some m Cons.IH [OF m(2) this] Cons.prems(3) show ?thesis by (simp split: option.splits)
  qed
qed

section \<open>Properties\<close>



text \<open>Growth: \<open>push_back\<close> appends, whether or not the allocation is full; a full one is
  doubled (8 slots the first time), so room is left after every push.\<close>

lemma push_back_grows:
  assumes "length xs < max_elems sz"
  shows "\<exists>v. push_back sz x (rep xs k) = Some v \<and> elems v = xs @ [x] \<and> vector_inv v
     \<and> vcap v = (if k > 0 then length xs + k else if xs = [] then 8 else 2 * length xs)"
  using assms by (cases k) (auto simp: vec_simps)

text \<open>Pushing an element of the vector itself: a push of a copy while there is room, but a use of
  released memory when the vector has to grow.\<close>

lemma push_back_own_room: "i < length xs \<Longrightarrow> push_back_own sz i (rep xs (Suc k)) = push_back sz (xs ! i) (rep xs (Suc k))"
  by (simp add: push_back_own_def push_back_def slot_read_def rep_def nth_append)

lemma push_back_own_dangles:
  assumes "length xs < max_elems sz"
  shows "push_back_own sz i (rep xs 0) = None"
  using reserve_grown [OF assms] by (simp add: push_back_own_def)

text \<open>A capacity whose byte count wraps leaves less room than it says: the next push writes past it.\<close>

lemma reserve_wraps: "(reserve 8 (2 ^ 61) vector_new \<bind> push_back 8 x) = None"
  by (simp add: reserve_def push_back_def vector_new_def raw_new_def raw_delete_def construct_def)

end
