(* ===== verification/C_Library.thy ===== *)
theory C_Library
  imports Prelude
begin

text \<open>
  The C standard library functions the program calls, on C strings. A C string is the
  \<open>string\<close> of its bytes before the terminating NUL; a pointer into it is the suffix it
  points at, so the terminator is the end of the list. Formatting to a buffer of \<open>n\<close> bytes
  keeps at most \<open>n - 1\<close> characters. \<open>strcmp\<close> is specified by its sign only and
  \<open>atoi\<close> is glibc's (\<open>strtol\<close>, which saturates at 64 bits, then a cast to \<open>int\<close>).
\<close>

named_theorems c_lib \<open>facts about the C library\<close>

section \<open>Characters\<close>

abbreviation NUL :: char where "NUL \<equiv> CHR 0x00"
abbreviation TAB :: char where "TAB \<equiv> CHR 0x09"
abbreviation LF :: char where "LF \<equiv> CHR 0x0A"
abbreviation CR :: char where "CR \<equiv> CHR 0x0D"
abbreviation SPACE :: char where "SPACE \<equiv> CHR 0x20"
abbreviation DQUOTE :: char where "DQUOTE \<equiv> CHR 0x22"
abbreviation SQUOTE :: char where "SQUOTE \<equiv> CHR 0x27"
abbreviation PIPE :: char where "PIPE \<equiv> CHR 0x7C"

definition c_str :: "string \<Rightarrow> string" where
  "c_str s = takeWhile (\<lambda>c. c \<noteq> NUL) s"

lemma c_str_Nil [simp]: "c_str [] = []"
  by (simp add: c_str_def)

lemma c_str_id: "NUL \<notin> set s \<Longrightarrow> c_str s = s"
  by (auto simp: c_str_def)

lemma NUL_notin_c_str [simp]: "NUL \<notin> set (c_str s)"
  by (auto simp: c_str_def dest: set_takeWhileD)

lemma c_str_idem [simp]: "c_str (c_str s) = c_str s"
  by (rule c_str_id) simp

definition is_digit :: "char \<Rightarrow> bool" where
  "is_digit c \<longleftrightarrow> CHR ''0'' \<le> c \<and> c \<le> CHR ''9''"

definition digit_val :: "char \<Rightarrow> int" where
  "digit_val c = of_char c - of_char (CHR ''0'')"

definition digit_char :: "nat \<Rightarrow> char" where
  "digit_char d = ''0123456789'' ! d"

lemma digit_char [simp]:
  assumes "d < 10"
  shows "is_digit (digit_char d)" "digit_val (digit_char d) = int d"
proof -
  from assms have "d \<in> {0, 1, 2, 3, 4, 5, 6, 7, 8, 9}" by auto
  then show "is_digit (digit_char d)" "digit_val (digit_char d) = int d"
    by (auto simp: is_digit_def digit_val_def digit_char_def)
qed

section \<open>Formatting\<close>

text \<open>\<open>%zu\<close> and \<open>%d\<close>.\<close>

fun show_nat :: "nat \<Rightarrow> string" where
  "show_nat n = (if n < 10 then [digit_char n] else show_nat (n div 10) @ [digit_char (n mod 10)])"

declare show_nat.simps [simp del]

definition show_int :: "int \<Rightarrow> string" where
  "show_int i = (if i < 0 then CHR ''-'' # show_nat (nat (- i)) else show_nat (nat i))"

lemma show_nat_nonempty [simp]: "show_nat n \<noteq> []"
  by (subst show_nat.simps) simp

lemma show_nat_digits: "c \<in> set (show_nat n) \<Longrightarrow> is_digit c"
proof (induction n rule: show_nat.induct)
  case (1 n)
  from "1.prems" show ?case
    by (subst (asm) show_nat.simps) (auto split: if_splits dest: "1.IH")
qed

definition snprintf :: "nat \<Rightarrow> string \<Rightarrow> string" where
  "snprintf n s = take (n - 1) s"

lemma snprintf_fits [c_lib]: "length s < n \<Longrightarrow> snprintf n s = s"
  by (simp add: snprintf_def)

lemma length_snprintf: "0 < n \<Longrightarrow> length (snprintf n s) < n"
  by (simp add: snprintf_def min_def) arith

text \<open>The directive \<open>'%s'\<close>, with its apostrophes.\<close>

definition squote :: "string \<Rightarrow> string" where
  "squote s = SQUOTE # s @ [SQUOTE]"

section \<open>Comparing\<close>

text \<open>
  Only the sign of \<open>strcmp\<close>'s result is specified, and only the sign is used by the code; the model
  gives -1, 0 or 1.
\<close>

fun strcmp :: "string \<Rightarrow> string \<Rightarrow> int" where
  "strcmp [] [] = 0"
| "strcmp [] (y # ys) = - 1"
| "strcmp (x # xs) [] = 1"
| "strcmp (x # xs) (y # ys) = (if x = y then strcmp xs ys else if x < y then - 1 else 1)"

lemma strcmp_eq_0 [simp]: "strcmp a b = 0 \<longleftrightarrow> a = b"
  by (induction a b rule: strcmp.induct) auto

lemma strcmp_range: "strcmp a b \<in> {- 1, 0, 1}"
  by (induction a b rule: strcmp.induct) auto

lemma strcmp_refl [simp]: "strcmp a a = 0"
  by simp

lemma strcmp_antisym: "strcmp b a = - strcmp a b"
  by (induction a b rule: strcmp.induct) auto

lemma strcmp_trans_less: "strcmp a b < 0 \<Longrightarrow> strcmp b c < 0 \<Longrightarrow> strcmp a c < 0"
proof (induction a b arbitrary: c rule: strcmp.induct)
  case (2 y ys)
  then show ?case by (cases c) auto
next
  case (4 x xs y ys)
  then show ?case by (cases c) (auto split: if_splits)
qed (auto split: if_splits)

section \<open>Reading decimal numbers\<close>

fun horner_digits :: "int \<Rightarrow> string \<Rightarrow> int" where
  "horner_digits v [] = v"
| "horner_digits v (c # cs) = (if is_digit c then horner_digits (10 * v + digit_val c) cs else v)"

definition is_space :: "char \<Rightarrow> bool" where
  "is_space c \<longleftrightarrow> c \<in> {SPACE, TAB, LF, CHR 0x0B, CHR 0x0C, CR}"

definition strtol :: "string \<Rightarrow> int" where
  "strtol s =
    (let t = dropWhile is_space s;
         v = (case t of
                [] \<Rightarrow> 0
              | c # cs \<Rightarrow> if c = CHR ''-'' then - horner_digits 0 cs
                          else if c = CHR ''+'' then horner_digits 0 cs
                          else horner_digits 0 t)
     in max (- (2 ^ 63)) (min (2 ^ 63 - 1) v))"

definition atoi :: "string \<Rightarrow> int" where
  "atoi s = wrap32 (strtol s)"

lemma atoi_in_int32 [simp]: "in_int32 (atoi s)"
  by (simp add: atoi_def)

lemma horner_digits_append:
  "(\<And>c. c \<in> set ds \<Longrightarrow> is_digit c) \<Longrightarrow> horner_digits v (ds @ r) = horner_digits (horner_digits v ds) r"
  by (induction ds arbitrary: v) auto

lemma horner_show_nat: "horner_digits 0 (show_nat n) = int n"
proof (induction n rule: show_nat.induct)
  case (1 n)
  show ?case
  proof (cases "n < 10")
    case True
    then show ?thesis by (subst show_nat.simps) simp
  next
    case False
    then have "horner_digits 0 (show_nat (n div 10)) = int (n div 10)" using "1.IH" by simp
    with False show ?thesis
      by (subst show_nat.simps)
        (simp add: horner_digits_append show_nat_digits, presburger)
  qed
qed

lemma is_digit_not_space: "is_digit c \<Longrightarrow> \<not> is_space c"
  by (cases c) (auto simp: is_digit_def is_space_def)

lemma is_digit_not_sign: "is_digit c \<Longrightarrow> c \<noteq> CHR ''-'' \<and> c \<noteq> CHR ''+''"
  by (auto simp: is_digit_def)

lemma is_digit_iff: "is_digit c \<longleftrightarrow> 48 \<le> (of_char c :: nat) \<and> (of_char c :: nat) \<le> 57"
  by (simp add: is_digit_def less_eq_char_def)

lemma digit_val_nonneg:
  assumes "is_digit c"
  shows "0 \<le> digit_val c"
proof -
  have "48 \<le> (of_char c :: nat)" using assms by (simp add: is_digit_iff)
  moreover have "digit_val c = int (of_char c) - 48" by (simp add: digit_val_def of_nat_of_char)
  ultimately show ?thesis by linarith
qed

lemma horner_digits_nonneg: "0 \<le> v \<Longrightarrow> 0 \<le> horner_digits v ds"
  by (induction v ds rule: horner_digits.induct) (auto simp: digit_val_nonneg)

text \<open>A decimal number: \<open>strtol\<close> saturates, then the cast keeps the low 32 bits.\<close>

lemma atoi_decimal:
  assumes "ds \<noteq> []" and "list_all is_digit ds"
  shows "atoi ds = (if horner_digits 0 ds < 2 ^ 63 then wrap32 (horner_digits 0 ds) else - 1)"
proof -
  obtain c cs where ds: "ds = c # cs" using assms(1) by (cases ds) auto
  then have c: "is_digit c" using assms(2) by simp
  have "strtol ds = min (2 ^ 63 - 1) (horner_digits 0 ds)"
    unfolding strtol_def ds
    using c is_digit_not_space [OF c] is_digit_not_sign [OF c] horner_digits_nonneg [of 0 "c # cs"]
    by (simp add: ds Let_def max_def min_def)
  moreover have "wrap32 (2 ^ 63 - 1) = - 1" by (simp add: wrap32_def)
  ultimately show ?thesis
  proof (cases "horner_digits 0 ds < 2 ^ 63")
    case True
    then have "min (2 ^ 63 - 1) (horner_digits 0 ds) = horner_digits 0 ds" by linarith
    then show ?thesis using True \<open>strtol ds = _\<close> by (simp add: atoi_def)
  next
    case False
    then have "min (2 ^ 63 - 1) (horner_digits 0 ds) = 2 ^ 63 - 1" by linarith
    then show ?thesis using False \<open>strtol ds = _\<close> \<open>wrap32 (2 ^ 63 - 1) = - 1\<close> by (simp only: atoi_def if_False)
  qed
qed

lemma atoi_digits:
  assumes "ds \<noteq> []" and "\<And>c. c \<in> set ds \<Longrightarrow> is_digit c"
    and "horner_digits 0 ds < 2 ^ 31" and "0 \<le> horner_digits 0 ds"
  shows "atoi ds = horner_digits 0 ds"
  using atoi_decimal [of ds] assms by (auto simp: list_all_iff in_int32_def)

theorem atoi_show_int: "in_int32 i \<Longrightarrow> atoi (show_int i) = i"
proof (cases "i < 0")
  case True
  assume i: "in_int32 i"
  have "strtol (show_int i) = i"
    using True i
    by (simp add: show_int_def strtol_def is_space_def horner_show_nat in_int32_def Let_def
        max_def min_def)
  then show ?thesis using i by (simp add: atoi_def)
next
  case False
  assume i: "in_int32 i"
  then show ?thesis
    using False atoi_digits [of "show_nat (nat i)"]
    by (simp add: show_int_def horner_show_nat show_nat_digits in_int32_def)
qed

section \<open>Searching\<close>

text \<open>The result is the suffix at the first match, \<open>None\<close> for the null pointer.\<close>

fun strstr :: "string \<Rightarrow> string \<Rightarrow> string option" where
  "strstr [] p = (if p = [] then Some [] else None)"
| "strstr (c # cs) p = (if take (length p) (c # cs) = p then Some (c # cs) else strstr cs p)"

fun strchr :: "string \<Rightarrow> char \<Rightarrow> string option" where
  "strchr [] c = None"
| "strchr (x # xs) c = (if x = c then Some (x # xs) else strchr xs c)"

lemma strchr_append [c_lib]: "c \<notin> set xs \<Longrightarrow> strchr (xs @ c # ys) c = Some (c # ys)"
  by (induction xs) auto

lemma strchr_None [c_lib]: "c \<notin> set xs \<Longrightarrow> strchr xs c = None"
  by (induction xs) auto

lemma takeWhile_neq_all [c_lib]: "c \<notin> set xs \<Longrightarrow> takeWhile (\<lambda>x. x \<noteq> c) xs = xs"
  by (induction xs) auto

lemma takeWhile_neq_append [c_lib]: "c \<notin> set xs \<Longrightarrow> takeWhile (\<lambda>x. x \<noteq> c) (xs @ c # ys) = xs"
  by (induction xs) auto

section \<open>Tokens and lines\<close>

text \<open>\<open>strtok\<close>: the next token and what the saved pointer is left at.\<close>

definition strtok :: "string \<Rightarrow> string \<Rightarrow> (string \<times> string) option" where
  "strtok delims s =
    (let t = dropWhile (\<lambda>c. c \<in> set delims) s
     in if t = [] then None
        else Some (takeWhile (\<lambda>c. c \<notin> set delims) t, tl (dropWhile (\<lambda>c. c \<notin> set delims) t)))"

text \<open>\<open>fgets\<close> into a buffer of \<open>n\<close> bytes: at most \<open>n - 1\<close> bytes, through the first newline.\<close>

fun fgets_loop :: "nat \<Rightarrow> string \<Rightarrow> string \<times> string" where
  "fgets_loop 0 s = ([], s)"
| "fgets_loop (Suc n) [] = ([], [])"
| "fgets_loop (Suc n) (c # cs) =
     (if c = LF then ([c], cs)
      else (let (l, r) = fgets_loop n cs in (c # l, r)))"

definition fgets :: "nat \<Rightarrow> string \<Rightarrow> (string \<times> string) option" where
  "fgets n s = (if s = [] then None else Some (fgets_loop (n - 1) s))"

lemma fgets_loop_line:
  "LF \<notin> set l \<Longrightarrow> length l < n \<Longrightarrow> fgets_loop n (l @ LF # r) = (l @ [LF], r)"
proof (induction l arbitrary: n)
  case Nil
  then show ?case by (cases n) auto
next
  case (Cons c l)
  then obtain m where "n = Suc m" by (cases n) auto
  with Cons show ?case by (auto split: prod.split)
qed

lemma fgets_line [c_lib]:
  "LF \<notin> set l \<Longrightarrow> length l + 1 < n \<Longrightarrow> fgets n (l @ LF # r) = Some (l @ [LF], r)"
  by (simp add: fgets_def fgets_loop_line)

lemma dropWhile_notin_append:
  "(\<And>c. c \<in> set xs \<Longrightarrow> P c) \<Longrightarrow> \<not> P d \<Longrightarrow> dropWhile P (xs @ d # ys) = d # ys"
  by (induction xs) auto

lemma takeWhile_notin_append:
  "(\<And>c. c \<in> set xs \<Longrightarrow> P c) \<Longrightarrow> \<not> P d \<Longrightarrow> takeWhile P (xs @ d # ys) = xs"
  by (induction xs) auto

lemma strtok_word [c_lib]:
  assumes "w \<noteq> []" and "set w \<inter> set delims = {}" and "d \<in> set delims"
  shows "strtok delims (w @ d # r) = Some (w, r)"
proof -
  obtain c cs where w: "w = c # cs" using assms(1) by (cases w) auto
  have "dropWhile (\<lambda>c. c \<in> set delims) (w @ d # r) = w @ d # r"
    using assms(2) by (simp add: w)
  moreover have "takeWhile (\<lambda>c. c \<notin> set delims) (w @ d # r) = w"
    using assms by (intro takeWhile_notin_append) auto
  moreover have "dropWhile (\<lambda>c. c \<notin> set delims) (w @ d # r) = d # r"
    using assms by (intro dropWhile_notin_append) auto
  ultimately show ?thesis by (simp add: strtok_def)
qed

lemma strtok_delims [c_lib]: "set s \<subseteq> set delims \<Longrightarrow> strtok delims s = None"
  by (simp add: strtok_def subset_iff Let_def)

section \<open>What a search finds\<close>

lemma strstr_Some:
  "strstr s p = Some t \<Longrightarrow> (\<exists>u. s = u @ t) \<and> take (length p) t = p"
proof (induction s p rule: strstr.induct)
  case (2 c cs p)
  then show ?case by (auto split: if_splits)
qed (auto split: if_splits)

lemma strstr_None_iff: "p \<noteq> [] \<Longrightarrow> strstr s p = None \<longleftrightarrow> (\<forall>i. take (length p) (drop i s) \<noteq> p)"
proof (induction s)
  case Nil
  then show ?case by auto
next
  case (Cons c s)
  have "(\<forall>i. take (length p) (drop i (c # s)) \<noteq> p)
      \<longleftrightarrow> take (length p) (c # s) \<noteq> p \<and> (\<forall>i. take (length p) (drop i s) \<noteq> p)"
    by (metis drop0 drop_Suc_Cons nat.exhaust)
  then show ?case using Cons by simp
qed

text \<open>A search does not find in a prefix what it does not find in the whole.\<close>

lemma strstr_take:
  assumes "strstr s p = None" and "p \<noteq> []"
  shows "strstr (take n s) p = None"
proof -
  have "take (length p) (drop i (take n s)) \<noteq> p" for i
  proof
    assume a: "take (length p) (drop i (take n s)) = p"
    then have "length p \<le> n - i" by (metis drop_take length_take min.cobounded2 min.cobounded1 order_trans)
    then have "take (length p) (drop i s) = p" using a by (simp add: drop_take min_def)
    with assms show False using strstr_None_iff by blast
  qed
  then show ?thesis using strstr_None_iff [OF assms(2)] by blast
qed

section \<open>Texts that travel unchanged\<close>

text \<open>No terminator, no line end and no quote.\<close>

definition clean :: "string \<Rightarrow> bool" where
  "clean s = list_all (\<lambda>c. c \<noteq> NUL \<and> c \<noteq> LF \<and> c \<noteq> CR \<and> c \<noteq> DQUOTE) s"

lemma clean_simps [simp]:
  "clean []" "clean (c # s) = (c \<noteq> NUL \<and> c \<noteq> LF \<and> c \<noteq> CR \<and> c \<noteq> DQUOTE \<and> clean s)" "clean (s @ t) = (clean s \<and> clean t)"
  by (simp_all add: clean_def)

lemma clean_take: "clean s \<Longrightarrow> clean (take n s)"
  by (auto simp: clean_def list_all_iff dest: in_set_takeD)

lemma clean_snprintf: "clean s \<Longrightarrow> clean (snprintf n s)"
  by (simp add: snprintf_def clean_take)

lemma clean_show_nat: "clean (show_nat n)"
  by (auto simp: clean_def list_all_iff is_digit_def dest!: show_nat_digits)

lemma clean_show_int: "clean (show_int i)"
  by (simp add: show_int_def clean_show_nat)

lemma clean_squote [simp]: "clean (squote s) = clean s"
  by (simp add: squote_def)

text \<open>A message of the size of the program's message buffers.\<close>

definition short :: "string \<Rightarrow> bool" where
  "short m \<longleftrightarrow> clean m \<and> length m < 512"

lemma short_snprintf: "clean s \<Longrightarrow> n \<le> 512 \<Longrightarrow> 0 < n \<Longrightarrow> short (snprintf n s)"
  by (simp add: short_def clean_snprintf) (simp add: snprintf_def)

lemma short_constant: "clean m \<Longrightarrow> length m < 512 \<Longrightarrow> short m"
  by (simp add: short_def)

end
