(* ===== verification/Core_String.thy ===== *)
theory Core_String
  imports C_Library
begin

text \<open>
  \<open>core::String\<close> (src/core/string.hpp): a heap buffer (or the null pointer) and a length.
  The theory models the constructors and the comparisons on the buffer's bytes and
  shows that each keeps the buffer terminated and behaves as the byte sequence it stores: the
  contract \<open>owned_text\<close>. Who owns a buffer, and when it is released, is the subject of
  String_Memory. The later theories use the byte sequence itself, a \<open>string\<close>.
\<close>

section \<open>The representation and its operations\<close>

record cpp_string =
  sdata :: "string option"
  slen :: nat

text \<open>The memory a C string occupies.\<close>

definition memory_of :: "string \<Rightarrow> string" where
  "memory_of s = c_str s @ [NUL]"

definition memcpy :: "string \<Rightarrow> nat \<Rightarrow> string option" where
  "memcpy src n = (if n \<le> length src then Some (take n src) else None)"

definition string_new :: cpp_string where
  "string_new = \<lparr>sdata = None, slen = 0\<rparr>"

text \<open>\<open>String(const char* s)\<close>; the argument is \<open>None\<close> for the null pointer.\<close>

definition string_of_cstr :: "string option \<Rightarrow> cpp_string option" where
  "string_of_cstr p =
     (case p of
        None \<Rightarrow> Some \<lparr>sdata = None, slen = 0\<rparr>
      | Some s \<Rightarrow> do {
          let n = length (c_str s);
          d \<leftarrow> memcpy (memory_of s) (n + 1);
          Some \<lparr>sdata = Some d, slen = n\<rparr>
        })"

text \<open>\<open>String(const char* s, size_t len)\<close>, reading \<open>len\<close> bytes of the memory at \<open>s\<close>.\<close>

definition string_of_buf :: "string \<Rightarrow> nat \<Rightarrow> cpp_string option" where
  "string_of_buf mem len = do { d \<leftarrow> memcpy mem len; Some \<lparr>sdata = Some (d @ [NUL]), slen = len\<rparr> }"

definition string_copy :: "cpp_string \<Rightarrow> cpp_string option" where
  "string_copy other =
     (case sdata other of
        None \<Rightarrow> Some \<lparr>sdata = None, slen = slen other\<rparr>
      | Some b \<Rightarrow> do { d \<leftarrow> memcpy b (slen other + 1); Some \<lparr>sdata = Some d, slen = slen other\<rparr> })"

definition string_c_str :: "cpp_string \<Rightarrow> string" where
  "string_c_str s = (case sdata s of None \<Rightarrow> [] | Some b \<Rightarrow> c_str b)"

definition string_empty :: "cpp_string \<Rightarrow> bool" where
  "string_empty s \<longleftrightarrow> slen s = 0"

definition string_index :: "cpp_string \<Rightarrow> nat \<Rightarrow> char option" where
  "string_index s i = (case sdata s of None \<Rightarrow> None | Some b \<Rightarrow> vec_at b i)"

definition memcmp_eq :: "string option \<Rightarrow> string option \<Rightarrow> nat \<Rightarrow> bool option" where
  "memcmp_eq a b n = do { x \<leftarrow> a; y \<leftarrow> b; x \<leftarrow> memcpy x n; y \<leftarrow> memcpy y n; Some (x = y) }"

definition string_eq :: "cpp_string \<Rightarrow> cpp_string \<Rightarrow> bool option" where
  "string_eq this other =
     (if slen this \<noteq> slen other then Some False
      else if slen this = 0 then Some True
      else memcmp_eq (sdata this) (sdata other) (slen this))"

definition string_eq_cstr :: "cpp_string \<Rightarrow> string option \<Rightarrow> bool option" where
  "string_eq_cstr this p =
     (case p of
        None \<Rightarrow> Some (slen this = 0)
      | Some s \<Rightarrow>
          (let sl = length (c_str s)
           in if slen this \<noteq> sl then Some False
              else if slen this = 0 then Some True
              else memcmp_eq (sdata this) (Some (memory_of s)) (slen this)))"

section \<open>Well-formed strings\<close>

definition string_inv :: "cpp_string \<Rightarrow> bool" where
  "string_inv s \<longleftrightarrow>
     (case sdata s of None \<Rightarrow> slen s = 0 | Some b \<Rightarrow> length b = slen s + 1 \<and> b ! slen s = NUL)"

definition string_val :: "cpp_string \<Rightarrow> string" where
  "string_val s = (case sdata s of None \<Rightarrow> [] | Some b \<Rightarrow> take (slen s) b)"

lemma string_inv_cases:
  assumes "string_inv s"
  obtains "s = string_new" | xs where "s = \<lparr>sdata = Some (xs @ [NUL]), slen = length xs\<rparr>"
proof (cases "sdata s")
  case None
  with assms show ?thesis by (intro that(1)) (simp add: string_inv_def string_new_def)
next
  case (Some b)
  with assms have b: "length b = slen s + 1" "b ! slen s = NUL"
    by (simp_all add: string_inv_def)
  then have "b = take (slen s) b @ [NUL]"
    using take_Suc_conv_app_nth [of "slen s" b] by simp
  with Some b show ?thesis by (intro that(2) [of "take (slen s) b"]) simp
qed

lemma string_val_simps [simp]:
  "string_val string_new = []" "string_inv string_new"
  "string_val \<lparr>sdata = Some (xs @ [NUL]), slen = length xs\<rparr> = xs"
  "string_inv \<lparr>sdata = Some (xs @ [NUL]), slen = length xs\<rparr>"
  by (simp_all add: string_val_def string_inv_def string_new_def)

lemma c_str_snoc_NUL: "c_str (xs @ [NUL]) = c_str xs"
  by (induction xs) (auto simp: c_str_def)

lemma string_c_str_val: "string_inv s \<Longrightarrow> string_c_str s = c_str (string_val s)"
  by (erule string_inv_cases)
    (auto simp: string_c_str_def c_str_snoc_NUL string_new_def string_val_def)

lemma string_of_cstr_Some [simp]:
  "string_of_cstr (Some s) = Some \<lparr>sdata = Some (c_str s @ [NUL]), slen = length (c_str s)\<rparr>"
  by (simp add: string_of_cstr_def memcpy_def memory_of_def Let_def)

lemma string_of_cstr_None [simp]: "string_of_cstr None = Some string_new"
  by (simp add: string_of_cstr_def string_new_def)

lemma string_of_buf_ok:
  "n \<le> length mem \<Longrightarrow> \<exists>s. string_of_buf mem n = Some s \<and> string_inv s \<and> string_val s = take n mem"
  by (simp add: string_of_buf_def memcpy_def string_inv_def string_val_def nth_append)

lemma string_copy_ok: "string_inv s \<Longrightarrow> string_copy s = Some s"
  by (erule string_inv_cases) (auto simp: string_copy_def memcpy_def string_new_def)

lemma string_eq_ok:
  assumes "string_inv a" and "string_inv b"
  shows "string_eq a b = Some (string_val a = string_val b)"
  using assms
  by (elim string_inv_cases)
    (auto simp: string_eq_def memcmp_eq_def memcpy_def string_new_def string_val_def)

lemma string_eq_cstr_ok:
  assumes "string_inv a"
  shows "string_eq_cstr a (Some s) = Some (string_val a = c_str s)"
  using assms
  by (elim string_inv_cases)
    (auto simp: string_eq_cstr_def memcmp_eq_def memcpy_def memory_of_def string_new_def
      string_val_def Let_def)

lemma string_index_ok:
  "string_inv a \<Longrightarrow> i < length (string_val a) \<Longrightarrow> string_index a i = Some (string_val a ! i)"
  by (elim string_inv_cases) (auto simp: string_index_def nth_append)

section \<open>The contract\<close>

locale owned_text =
  fixes make :: "string option \<Rightarrow> 's option"
    and dup :: "'s \<Rightarrow> 's option"
    and view :: "'s \<Rightarrow> string"
    and same :: "'s \<Rightarrow> 's \<Rightarrow> bool option"
    and same_cstr :: "'s \<Rightarrow> string option \<Rightarrow> bool option"
    and content :: "'s \<Rightarrow> string"
    and invar :: "'s \<Rightarrow> bool"
  assumes make_ok: "\<exists>s. make (Some t) = Some s \<and> invar s \<and> content s = c_str t"
    and dup_ok: "invar s \<Longrightarrow> \<exists>r. dup s = Some r \<and> invar r \<and> content r = content s"
    and view_ok: "invar s \<Longrightarrow> view s = c_str (content s)"
    and same_ok: "invar s \<Longrightarrow> invar r \<Longrightarrow> same s r = Some (content s = content r)"
    and same_cstr_ok: "invar s \<Longrightarrow> same_cstr s (Some t) = Some (content s = c_str t)"
begin

text \<open>A string that came from a C string is exactly what its \<open>c_str()\<close> shows.\<close>

lemma make_view: "make (Some t) = Some s \<Longrightarrow> view s = c_str t"
  using make_ok [of t] view_ok [of s] by auto

lemma make_same: "make (Some t) = Some s \<Longrightarrow> make (Some u) = Some v \<Longrightarrow> same s v = Some (c_str t = c_str u)"
  using make_ok [of t] make_ok [of u] same_ok [of s v] by auto

text \<open>The two comparisons agree, so \<open>name == stmt.name.c_str()\<close> compares the names.\<close>

lemma same_via_view:
  assumes "invar s" and "make (Some t) = Some v"
  shows "same_cstr s (Some (view v)) = same s v"
  using assms make_ok [of t] make_view [of t v] same_ok [of s v] same_cstr_ok [of s "view v"] by auto

lemma dup_same: "invar s \<Longrightarrow> \<exists>t. dup s = Some t \<and> same s t = Some True"
  using dup_ok [of s] same_ok [of s] by auto

end

interpretation str: owned_text string_of_cstr string_copy string_c_str string_eq string_eq_cstr
  string_val string_inv
  by unfold_locales
    (auto simp: string_copy_ok string_c_str_val string_eq_ok string_eq_cstr_ok)

section \<open>Properties\<close>



end
