(* ===== verification/Heap_Blocks.thy ===== *)
theory Heap_Blocks
  imports Prelude
begin

text \<open>
  A heap of blocks, for the theories that follow what the code allocates and releases: a map from
  addresses to live blocks. Reading, writing or deleting a block that is not live is \<open>None\<close>, and
  an address is never used twice, so a pointer to a released block stays a dangling one.
\<close>

section \<open>Allocation and release\<close>

record 'b heap =
  hp_blocks :: "nat \<rightharpoonup> 'b"
  hp_next :: nat

definition heap_ok :: "'b heap \<Rightarrow> bool" where
  "heap_ok h \<longleftrightarrow> (\<forall>a. hp_next h \<le> a \<longrightarrow> hp_blocks h a = None)"

definition hp_alloc :: "'b \<Rightarrow> 'b heap \<Rightarrow> nat \<times> 'b heap" where
  "hp_alloc b h = (hp_next h, \<lparr>hp_blocks = (hp_blocks h)(hp_next h \<mapsto> b), hp_next = Suc (hp_next h)\<rparr>)"

text \<open>\<open>delete[]\<close> (or \<open>delete\<close>) of a pointer; the null pointer is allowed.\<close>

definition hp_free :: "nat option \<Rightarrow> 'b heap \<Rightarrow> 'b heap option" where
  "hp_free p h =
     (case p of
        None \<Rightarrow> Some h
      | Some a \<Rightarrow> if hp_blocks h a = None then None else Some (h\<lparr>hp_blocks := (hp_blocks h)(a := None)\<rparr>))"

definition hp_modify :: "nat \<Rightarrow> ('b \<Rightarrow> 'b option) \<Rightarrow> 'b heap \<Rightarrow> 'b heap option" where
  "hp_modify a f h = do {
     b \<leftarrow> hp_blocks h a;
     b1 \<leftarrow> f b;
     Some (h\<lparr>hp_blocks := (hp_blocks h)(a \<mapsto> b1)\<rparr>)
   }"

section \<open>Regions of fresh blocks\<close>

text \<open>The heap \<open>h\<close> with blocks allocated after it, some of them already released.\<close>

definition region :: "'b heap \<Rightarrow> 'b option list \<Rightarrow> 'b heap" where
  "region h bs =
     \<lparr>hp_blocks = (\<lambda>x. if hp_next h \<le> x \<and> x < hp_next h + length bs then bs ! (x - hp_next h) else hp_blocks h x),
      hp_next = hp_next h + length bs\<rparr>"

named_theorems region_simps \<open>the heap operations on a region\<close>

lemma region_Nil [simp]: "region h [] = h"
  by (cases h) (auto simp: region_def fun_eq_iff)

lemma alloc_region [region_simps]: "hp_alloc b (region h bs) = (hp_next h + length bs, region h (bs @ [Some b]))"
  by (auto simp: hp_alloc_def region_def nth_append fun_eq_iff)

lemma alloc_first: "hp_alloc b h = (hp_next h, region h [Some b])"
  using alloc_region [of b h "[]"] by simp

lemma blocks_region: "a = hp_next h + length xs \<Longrightarrow> hp_blocks (region h (xs @ b # ys)) a = b"
  by (simp add: region_def)

lemma free_region:
  "a = hp_next h + length xs \<Longrightarrow> hp_free (Some a) (region h (xs @ Some b # ys)) = Some (region h (xs @ None # ys))"
  by (auto simp: hp_free_def region_def nth_append nth_Cons' fun_eq_iff)

lemma modify_region:
  "a = hp_next h + length xs \<Longrightarrow> f b = Some b1 \<Longrightarrow>
   hp_modify a f (region h (xs @ Some b # ys)) = Some (region h (xs @ Some b1 # ys))"
  by (auto simp: hp_modify_def region_def nth_append nth_Cons' fun_eq_iff)

lemma free_null [simp]: "hp_free None h = Some h"
  by (simp add: hp_free_def)

lemma region_released:
  assumes "heap_ok h" and "set bs \<subseteq> {None}"
  shows "hp_blocks (region h bs) = hp_blocks h"
proof
  fix x
  have "bs ! (x - hp_next h) = None" if "x < hp_next h + length bs" "hp_next h \<le> x"
  proof -
    have "bs ! (x - hp_next h) \<in> set bs" using that by (intro nth_mem) simp
    then show ?thesis using assms(2) by blast
  qed
  then show "hp_blocks (region h bs) x = hp_blocks h x"
    using assms(1) by (auto simp: region_def heap_ok_def)
qed

end
