(* ===== verification/String_Memory.thy ===== *)
theory String_Memory
  imports Core_String Heap_Blocks
begin

text \<open>
  The buffers of \<open>core::String\<close> (src/core/string.hpp) on the heap: an object holds the address of
  its buffer, the constructors allocate, the destructor and the assignments \<open>delete[]\<close>. A read
  of a released buffer, or a second release, is \<open>None\<close>. The theory shows that in any run over
  several objects every object owns its own buffer with the expected bytes, that no buffer
  leaks, and that the one use the code does not guard, \<open>a = a.c_str()\<close>, reads released memory.
\<close>

section \<open>Objects, pointers and reads\<close>

type_synonym chars = "string heap"

record string_obj =
  so_data :: "nat option"
  so_len :: nat

definition null_string :: string_obj where
  "null_string = \<lparr>so_data = None, so_len = 0\<rparr>"

text \<open>A \<open>const char*\<close> that is not null: into a literal, or to the start of a buffer on the heap.\<close>

datatype char_ptr = Static string | Into nat

definition ptr_bytes :: "char_ptr \<Rightarrow> chars \<Rightarrow> string option" where
  "ptr_bytes p h = (case p of Static t \<Rightarrow> Some (memory_of t) | Into a \<Rightarrow> hp_blocks h a)"

definition strlen_at :: "char_ptr \<Rightarrow> chars \<Rightarrow> nat option" where
  "strlen_at p h = do { m \<leftarrow> ptr_bytes p h; if NUL \<in> set m then Some (length (c_str m)) else None }"

definition copy_bytes :: "char_ptr \<Rightarrow> nat \<Rightarrow> chars \<Rightarrow> string option" where
  "copy_bytes p n h = do { m \<leftarrow> ptr_bytes p h; memcpy m n }"

definition string_ptr :: "string_obj \<Rightarrow> char_ptr" where
  "string_ptr s = (case so_data s of None \<Rightarrow> Static [] | Some a \<Rightarrow> Into a)"

section \<open>Constructors, destructor, assignments\<close>

definition string_new_cstr :: "char_ptr option \<Rightarrow> chars \<Rightarrow> (string_obj \<times> chars) option" where
  "string_new_cstr p h =
     (case p of
        None \<Rightarrow> Some (null_string, h)
      | Some q \<Rightarrow> do {
          n \<leftarrow> strlen_at q h;
          d \<leftarrow> copy_bytes q (n + 1) h;
          let (a, h) = hp_alloc d h;
          Some (\<lparr>so_data = Some a, so_len = n\<rparr>, h)
        })"

definition string_new_buf :: "char_ptr \<Rightarrow> nat \<Rightarrow> chars \<Rightarrow> (string_obj \<times> chars) option" where
  "string_new_buf p n h = do {
     d \<leftarrow> copy_bytes p n h;
     let (a, h) = hp_alloc (d @ [NUL]) h;
     Some (\<lparr>so_data = Some a, so_len = n\<rparr>, h)
   }"

definition string_new_copy :: "string_obj \<Rightarrow> chars \<Rightarrow> (string_obj \<times> chars) option" where
  "string_new_copy other h =
     (case so_data other of
        None \<Rightarrow> Some (\<lparr>so_data = None, so_len = so_len other\<rparr>, h)
      | Some b \<Rightarrow> do {
          d \<leftarrow> copy_bytes (Into b) (so_len other + 1) h;
          let (a, h) = hp_alloc d h;
          Some (\<lparr>so_data = Some a, so_len = so_len other\<rparr>, h)
        })"

text \<open>The move constructor: the new object and what is left of \<open>other\<close>.\<close>

definition string_new_move :: "string_obj \<Rightarrow> string_obj \<times> string_obj" where
  "string_new_move other = (other, null_string)"

definition string_delete :: "string_obj \<Rightarrow> chars \<Rightarrow> chars option" where
  "string_delete s h = hp_free (so_data s) h"

text \<open>The assignments; \<open>same\<close> is \<open>this == &other\<close>. The old buffer is released before \<open>other\<close> is read.\<close>

definition string_assign :: "bool \<Rightarrow> string_obj \<Rightarrow> string_obj \<Rightarrow> chars \<Rightarrow> (string_obj \<times> chars) option" where
  "string_assign same this other h =
     (if same then Some (this, h)
      else do { h \<leftarrow> string_delete this h; string_new_copy other h })"

definition string_assign_move ::
    "bool \<Rightarrow> string_obj \<Rightarrow> string_obj \<Rightarrow> chars \<Rightarrow> (string_obj \<times> string_obj \<times> chars) option" where
  "string_assign_move same this other h =
     (if same then Some (this, this, h)
      else do { h \<leftarrow> string_delete this h; Some (other, null_string, h) })"

definition string_assign_cstr :: "string_obj \<Rightarrow> char_ptr option \<Rightarrow> chars \<Rightarrow> (string_obj \<times> chars) option" where
  "string_assign_cstr this p h = do { h \<leftarrow> string_delete this h; string_new_cstr p h }"

section \<open>Runs over several objects\<close>

text \<open>Where the text of a constructor or an assignment comes from: \<open>CstrOf j\<close> is \<open>s[j].c_str()\<close>.\<close>

datatype char_src = Null_Ptr | Literal string | CstrOf nat

datatype string_op =
    Make char_src
  | Make_Buf char_src nat
  | Make_Copy nat
  | Make_Move nat
  | Assign nat nat
  | Assign_Move nat nat
  | Assign_Text nat char_src

fun src_ptr :: "char_src \<Rightarrow> string_obj list \<Rightarrow> char_ptr option option" where
  "src_ptr Null_Ptr os = Some None"
| "src_ptr (Literal t) os = Some (Some (Static t))"
| "src_ptr (CstrOf j) os = map_option (\<lambda>s. Some (string_ptr s)) (vec_at os j)"

fun string_step :: "string_op \<Rightarrow> string_obj list \<times> chars \<Rightarrow> (string_obj list \<times> chars) option" where
  "string_step (Make src) (os, h) = do {
     p \<leftarrow> src_ptr src os;
     (s, h) \<leftarrow> string_new_cstr p h;
     Some (os @ [s], h)
   }"
| "string_step (Make_Buf src n) (os, h) = do {
     p \<leftarrow> src_ptr src os;
     q \<leftarrow> p;
     (s, h) \<leftarrow> string_new_buf q n h;
     Some (os @ [s], h)
   }"
| "string_step (Make_Copy j) (os, h) = do {
     b \<leftarrow> vec_at os j;
     (s, h) \<leftarrow> string_new_copy b h;
     Some (os @ [s], h)
   }"
| "string_step (Make_Move j) (os, h) = do {
     b \<leftarrow> vec_at os j;
     let (s, r) = string_new_move b;
     Some (os[j := r] @ [s], h)
   }"
| "string_step (Assign i j) (os, h) = do {
     a \<leftarrow> vec_at os i;
     b \<leftarrow> vec_at os j;
     (s, h) \<leftarrow> string_assign (i = j) a b h;
     Some (os[i := s], h)
   }"
| "string_step (Assign_Move i j) (os, h) = do {
     a \<leftarrow> vec_at os i;
     b \<leftarrow> vec_at os j;
     (s, r, h) \<leftarrow> string_assign_move (i = j) a b h;
     Some (os[i := s, j := r], h)
   }"
| "string_step (Assign_Text i src) (os, h) = do {
     p \<leftarrow> src_ptr src os;
     a \<leftarrow> vec_at os i;
     (s, h) \<leftarrow> string_assign_cstr a p h;
     Some (os[i := s], h)
   }"

fun string_delete_all :: "string_obj list \<Rightarrow> chars \<Rightarrow> chars option" where
  "string_delete_all [] h = Some h"
| "string_delete_all (s # ss) h = do { h \<leftarrow> string_delete s h; string_delete_all ss h }"

text \<open>
  The same run on the texts alone. It is undefined where an object does not exist, where more
  bytes are taken than the source has, and for \<open>a = a.c_str()\<close>.
\<close>

fun src_text :: "char_src \<Rightarrow> string list \<Rightarrow> string option" where
  "src_text Null_Ptr vs = Some []"
| "src_text (Literal t) vs = Some (c_str t)"
| "src_text (CstrOf j) vs = map_option c_str (vec_at vs j)"

fun src_memory :: "char_src \<Rightarrow> string list \<Rightarrow> string option" where
  "src_memory Null_Ptr vs = None"
| "src_memory (Literal t) vs = Some (memory_of t)"
| "src_memory (CstrOf j) vs = map_option (\<lambda>v. v @ [NUL]) (vec_at vs j)"

fun text_step :: "string_op \<Rightarrow> string list \<Rightarrow> string list option" where
  "text_step (Make src) vs = do { t \<leftarrow> src_text src vs; Some (vs @ [t]) }"
| "text_step (Make_Buf src n) vs = do { m \<leftarrow> src_memory src vs; t \<leftarrow> memcpy m n; Some (vs @ [t]) }"
| "text_step (Make_Copy j) vs = do { v \<leftarrow> vec_at vs j; Some (vs @ [v]) }"
| "text_step (Make_Move j) vs = do { v \<leftarrow> vec_at vs j; Some (vs[j := []] @ [v]) }"
| "text_step (Assign i j) vs = do { v \<leftarrow> vec_at vs j; vec_set vs i v }"
| "text_step (Assign_Move i j) vs =
     do { v \<leftarrow> vec_at vs j; ws \<leftarrow> vec_set vs i v; Some (if i = j then vs else ws[j := []]) }"
| "text_step (Assign_Text i src) vs =
     (if src = CstrOf i then None else do { t \<leftarrow> src_text src vs; vec_set vs i t })"

section \<open>Ownership\<close>

definition holds :: "chars \<Rightarrow> string_obj \<Rightarrow> string \<Rightarrow> bool" where
  "holds h s v \<longleftrightarrow>
     (case so_data s of
        None \<Rightarrow> so_len s = 0 \<and> v = []
      | Some a \<Rightarrow> hp_blocks h a = Some (v @ [NUL]) \<and> so_len s = length v)"

text \<open>What an object holds is a well-formed string of Core_String.\<close>

lemma holds_string_inv:
  assumes "holds h s v"
  shows "string_inv \<lparr>sdata = Option.bind (so_data s) (hp_blocks h), slen = so_len s\<rparr>
    \<and> string_val \<lparr>sdata = Option.bind (so_data s) (hp_blocks h), slen = so_len s\<rparr> = v"
  using assms by (auto simp: holds_def string_inv_def string_val_def split: option.splits)

text \<open>\<open>B\<close> are the blocks of others: the rest of the heap is one buffer for each object that has one.\<close>

definition owns :: "string_obj list \<Rightarrow> nat \<Rightarrow> nat \<Rightarrow> bool" where
  "owns os i a \<longleftrightarrow> i < length os \<and> so_data (os ! i) = Some a"

definition owners :: "(nat \<Rightarrow> string option) \<Rightarrow> string_obj list \<Rightarrow> chars \<Rightarrow> string list \<Rightarrow> bool" where
  "owners B os h vs \<longleftrightarrow> heap_ok h \<and> list_all2 (holds h) os vs
     \<and> (\<forall>i j a. owns os i a \<longrightarrow> owns os j a \<longrightarrow> i = j)
     \<and> (\<forall>i a. owns os i a \<longrightarrow> B a = None)
     \<and> (\<forall>a. (\<nexists>i. owns os i a) \<longrightarrow> hp_blocks h a = B a)"

lemma holds_null [simp]: "holds h null_string v \<longleftrightarrow> v = []"
  by (simp add: holds_def null_string_def)

lemma so_data_null [simp]: "so_data null_string = None"
  by (simp add: null_string_def)

lemma holds_no_data: "holds h s v \<Longrightarrow> so_data s = None \<Longrightarrow> s = null_string \<and> v = []"
  by (cases s) (simp add: holds_def null_string_def)

lemma owns_update: "owns (os[i := s]) j a \<longleftrightarrow> (if j = i then i < length os \<and> so_data s = Some a else owns os j a)"
  by (auto simp: owns_def)

lemma owns_snoc [simp]: "owns (os @ [null_string]) j a \<longleftrightarrow> owns os j a"
  by (auto simp: owns_def nth_append less_Suc_eq)

lemma owns_Cons: "owns (s # os) j a \<longleftrightarrow> (case j of 0 \<Rightarrow> so_data s = Some a | Suc k \<Rightarrow> owns os k a)"
  by (auto simp: owns_def split: nat.split)

lemma holds_frame: "holds h s v \<Longrightarrow> so_data s \<noteq> Some a \<Longrightarrow> (\<And>b. b \<noteq> a \<Longrightarrow> hp_blocks h1 b = hp_blocks h b) \<Longrightarrow> holds h1 s v"
  by (auto simp: holds_def split: option.splits)

lemma ownersI:
  assumes "heap_ok h" and "list_all2 (holds h) os vs"
    and "\<And>i j a. owns os i a \<Longrightarrow> owns os j a \<Longrightarrow> i = j"
    and "\<And>i a. owns os i a \<Longrightarrow> B a = None"
    and "\<And>a. (\<And>i. \<not> owns os i a) \<Longrightarrow> hp_blocks h a = B a"
  shows "owners B os h vs"
  unfolding owners_def by (intro conjI allI impI) (use assms in blast)+

lemma owners_facts:
  assumes "owners B os h vs"
  shows owners_heap: "heap_ok h"
    and owners_texts: "list_all2 (holds h) os vs"
    and owners_length: "length os = length vs"
    and owners_nth: "i < length os \<Longrightarrow> holds h (os ! i) (vs ! i)"
    and owners_unique: "owns os i a \<Longrightarrow> owns os j a \<Longrightarrow> i = j"
    and owners_base: "owns os i a \<Longrightarrow> B a = None"
    and owners_rest: "(\<And>i. \<not> owns os i a) \<Longrightarrow> hp_blocks h a = B a"
proof -
  show texts: "list_all2 (holds h) os vs" using assms by (simp add: owners_def)
  then show "length os = length vs" by (rule list_all2_lengthD)
  show "i < length os \<Longrightarrow> holds h (os ! i) (vs ! i)" using texts by (rule list_all2_nthD)
qed (use assms in \<open>auto simp: owners_def\<close>)

lemma owners_live: "owners B os h vs \<Longrightarrow> owns os i a \<Longrightarrow> hp_blocks h a \<noteq> None"
  using owners_nth [of B os h vs i] by (auto simp: owns_def holds_def)

text \<open>Releasing, installing, adding and handing over a buffer.\<close>

lemma list_all2_holds_update:
  assumes "list_all2 (holds h) os vs" and "holds h1 s v"
    and "\<And>j. j < length os \<Longrightarrow> j \<noteq> i \<Longrightarrow> holds h1 (os ! j) (vs ! j)"
  shows "list_all2 (holds h1) (os[i := s]) (vs[i := v])"
proof (rule list_all2_all_nthI)
  show "length (os[i := s]) = length (vs[i := v])" using assms(1) by (simp add: list_all2_lengthD)
  fix j assume "j < length (os[i := s])"
  then show "holds h1 (os[i := s] ! j) (vs[i := v] ! j)"
    using assms list_all2_lengthD [OF assms(1)] by (cases "j = i") simp_all
qed

lemma release:
  assumes g: "owners B os h vs" and i: "i < length os"
  shows "\<exists>h1. string_delete (os ! i) h = Some h1 \<and> owners B (os[i := null_string]) h1 (vs[i := []])"
proof (cases "so_data (os ! i)")
  case None
  then have "os ! i = null_string" "vs ! i = []"
    using holds_no_data owners_nth [OF g i] by blast+
  then have "os[i := null_string] = os" "vs[i := []] = vs" by (metis list_update_id)+
  then show ?thesis using g None by (simp add: string_delete_def)
next
  case (Some a)
  let ?h = "h\<lparr>hp_blocks := (hp_blocks h)(a := None)\<rparr>"
  have here: "owns os i a" using Some i by (simp add: owns_def)
  have other: "holds ?h (os ! j) (vs ! j)" if "j < length os" "j \<noteq> i" for j
  proof (rule holds_frame [OF owners_nth [OF g that(1)]])
    show "so_data (os ! j) \<noteq> Some a" using owners_unique [OF g here, of j] that by (auto simp: owns_def)
  qed simp
  have "owners B (os[i := null_string]) ?h (vs[i := []])"
  proof (rule ownersI)
    show "heap_ok ?h" using owners_heap [OF g] by (simp add: heap_ok_def)
    show "list_all2 (holds ?h) (os[i := null_string]) (vs[i := []])"
      by (rule list_all2_holds_update [OF owners_texts [OF g] _ other]) simp_all
    show "j = k" if "owns (os[i := null_string]) j b" "owns (os[i := null_string]) k b" for j k b
      using that owners_unique [OF g] by (auto simp: owns_update split: if_splits)
    show "B b = None" if "owns (os[i := null_string]) j b" for j b
      using that owners_base [OF g] by (auto simp: owns_update split: if_splits)
    fix b assume none: "\<And>j. \<not> owns (os[i := null_string]) j b"
    show "hp_blocks ?h b = B b"
    proof (cases "b = a")
      case True
      then show ?thesis using owners_base [OF g here] by simp
    next
      case False
      then have "\<not> owns os j b" for j using none [of j] Some by (cases "j = i") (auto simp: owns_update owns_def)
      then show ?thesis using owners_rest [OF g] False by simp
    qed
  qed
  then show ?thesis using Some owners_live [OF g here] by (simp add: string_delete_def hp_free_def)
qed

lemma install:
  assumes g: "owners B os h vs" and i: "i < length os" "os ! i = null_string"
    and new: "hp_alloc (v @ [NUL]) h = (a, h1)"
  shows "owners B (os[i := \<lparr>so_data = Some a, so_len = length v\<rparr>]) h1 (vs[i := v])"
proof -
  let ?s = "\<lparr>so_data = Some a, so_len = length v\<rparr>"
  have a: "a = hp_next h" "hp_blocks h1 = (hp_blocks h)(a \<mapsto> v @ [NUL])" "hp_next h1 = Suc a"
    using new by (auto simp: hp_alloc_def)
  have free: "hp_blocks h a = None" using owners_heap [OF g] a(1) by (simp add: heap_ok_def)
  then have unowned: "\<not> owns os j a" for j using owners_live [OF g] by blast
  have none: "\<not> owns os i b" for b using i by (simp add: owns_def)
  have other: "holds h1 (os ! j) (vs ! j)" if "j < length os" for j
    using unowned [of j] that a(2) by (intro holds_frame [OF owners_nth [OF g that], of a]) (auto simp: owns_def)
  have own: "owns (os[i := ?s]) j b \<longleftrightarrow> (j = i \<and> b = a) \<or> owns os j b" for j b
    using i(1) none by (auto simp: owns_update)
  show ?thesis
  proof (rule ownersI)
    show "heap_ok h1" using owners_heap [OF g] a by (auto simp: heap_ok_def)
    show "list_all2 (holds h1) (os[i := ?s]) (vs[i := v])"
      by (rule list_all2_holds_update [OF owners_texts [OF g] _ other]) (simp_all add: holds_def a(2))
    show "j = k" if "owns (os[i := ?s]) j b" "owns (os[i := ?s]) k b" for j k b
      using that owners_unique [OF g] unowned unfolding own by blast
    show "B b = None" if "owns (os[i := ?s]) j b" for j b
      using that owners_base [OF g] owners_rest [OF g] unowned free unfolding own by metis
    fix b assume "\<And>j. \<not> owns (os[i := ?s]) j b"
    then have "b \<noteq> a" "\<not> owns os j b" for j unfolding own by blast+
    then show "hp_blocks h1 b = B b" using owners_rest [OF g] a(2) by simp
  qed
qed

lemma add_null: "owners B os h vs \<Longrightarrow> owners B (os @ [null_string]) h (vs @ [[]])"
  by (simp add: owners_def list_all2_appendI)

lemma hand_over:
  assumes g: "owners B os h vs" and ij: "i < length os" "j < length os" "i \<noteq> j" "os ! i = null_string"
  shows "owners B (os[i := os ! j, j := null_string]) h (vs[i := vs ! j, j := []])"
proof -
  let ?os = "os[i := os ! j, j := null_string]"
  have own: "owns ?os k a \<longleftrightarrow> (k = i \<and> owns os j a) \<or> (k \<noteq> i \<and> k \<noteq> j \<and> owns os k a)" for k a
    using ij by (auto simp: owns_def nth_list_update)
  have none: "\<not> owns os i a" for a using ij by (simp add: owns_def)
  have texts: "list_all2 (holds h) (os[i := os ! j]) (vs[i := vs ! j])"
    using list_all2_update_cong [OF owners_texts [OF g] owners_nth [OF g ij(2)]] .
  show ?thesis
  proof (rule ownersI)
    show "list_all2 (holds h) ?os (vs[i := vs ! j, j := []])"
      by (rule list_all2_update_cong [OF texts]) simp
    show "k = l" if "owns ?os k a" "owns ?os l a" for k l a
      using that owners_unique [OF g] unfolding own by blast
    show "B a = None" if "owns ?os k a" for k a
      using that owners_base [OF g] unfolding own by blast
    fix a assume no: "\<And>k. \<not> owns ?os k a"
    have "\<not> owns os k a" for k using no [of k] no [of i] none [of a] unfolding own by blast
    then show "hp_blocks h a = B a" by (rule owners_rest [OF g])
  qed (rule owners_heap [OF g])
qed

lemma drop_null:
  assumes g: "owners B (null_string # os) h ([] # vs)"
  shows "owners B os h vs"
proof -
  have own: "owns (null_string # os) i a \<longleftrightarrow> (\<exists>k. i = Suc k \<and> owns os k a)" for i a
    by (simp add: owns_Cons split: nat.split)
  show ?thesis
  proof (rule ownersI)
    show "list_all2 (holds h) os vs" using owners_texts [OF g] by simp
    show "i = j" if "owns os i a" "owns os j a" for i j a
      using owners_unique [OF g, of "Suc i" a "Suc j"] that unfolding own by simp
    show "B a = None" if "owns os i a" for i a
      using owners_base [OF g, of "Suc i" a] that unfolding own by simp
    show "hp_blocks h a = B a" if "\<And>i. \<not> owns os i a" for a
      using owners_rest [OF g, of a] that unfolding own by blast
  qed (rule owners_heap [OF g])
qed

lemma owners_distinct:
  assumes g: "owners B os h vs"
  shows "distinct (filter (\<lambda>d. d \<noteq> None) (map so_data os))"
  using assms
proof (induction os arbitrary: h vs)
  case (Cons s os)
  obtain v vs1 where vs: "vs = v # vs1" using owners_length [OF Cons.prems] by (cases vs) auto
  obtain h1 where h1: "owners B (null_string # os) h1 ([] # vs1)" using release [OF Cons.prems, of 0] vs by auto
  have "so_data s \<notin> so_data ` set os" if s: "so_data s = Some a" for a
  proof
    assume "so_data s \<in> so_data ` set os"
    then obtain j where "j < length os" "so_data (os ! j) = Some a" using s by (auto simp: in_set_conv_nth)
    then have "owns (s # os) 0 a" "owns (s # os) (Suc j) a" using s by (simp_all add: owns_def)
    then show False using owners_unique [OF Cons.prems] by blast
  qed
  then show ?case using Cons.IH [OF drop_null [OF h1]] by (cases "so_data s") auto
qed simp

section \<open>The operations keep the ownership\<close>

text \<open>What a pointer of a source reads, with the terminator.\<close>

lemma src_read:
  assumes g: "owners B os h vs" and m: "src_memory src vs = Some m"
  shows "\<exists>q. src_ptr src os = Some (Some q) \<and> ptr_bytes q h = Some m"
proof (cases src)
  case (CstrOf j)
  then have j: "j < length os" "m = vs ! j @ [NUL]"
    using m owners_length [OF g] by (auto simp: vec_at_def split: if_splits)
  have "ptr_bytes (string_ptr (os ! j)) h = Some (vs ! j @ [NUL])"
    using owners_nth [OF g j(1)]
    by (auto simp: holds_def ptr_bytes_def string_ptr_def memory_of_def c_str_def split: option.splits)
  then show ?thesis using CstrOf j by simp
qed (use m in \<open>auto simp: ptr_bytes_def\<close>)

lemma src_text_memory: "src_text src vs = Some t \<Longrightarrow> src = Null_Ptr \<and> t = [] \<or> (\<exists>m. src_memory src vs = Some m \<and> NUL \<in> set m \<and> t = c_str m)"
  by (cases src) (auto simp: memory_of_def c_str_snoc_NUL)

lemma c_str_take: "NUL \<in> set m \<Longrightarrow> take (Suc (length (c_str m))) m = c_str m @ [NUL] \<and> length (c_str m) < length m"
  by (induction m) (auto simp: c_str_def)

lemma src_ptr_update: "src \<noteq> CstrOf i \<Longrightarrow> src_ptr src (os[i := s]) = src_ptr src os"
  and src_text_update: "src \<noteq> CstrOf i \<Longrightarrow> src_text src (vs[i := v]) = src_text src vs"
  by (cases src; simp add: vec_at_def)+

lemma src_ptr_snoc: "src_memory src vs = Some m \<Longrightarrow> length os = length vs \<Longrightarrow> src_ptr src (os @ [s]) = src_ptr src os"
  and src_memory_snoc: "src_memory src vs = Some m \<Longrightarrow> src_memory src (vs @ [v]) = Some m"
  by (cases src; auto simp: vec_at_def nth_append split: if_splits)+

text \<open>Each constructor, run for an object that has no buffer.\<close>

lemma new_cstr:
  assumes g: "owners B os h vs" and i: "i < length os" "os ! i = null_string" and t: "src_text src vs = Some t"
  shows "\<exists>p s h1. src_ptr src os = Some p \<and> string_new_cstr p h = Some (s, h1) \<and> owners B (os[i := s]) h1 (vs[i := t])"
proof -
  have null: "vs ! i = []" using owners_nth [OF g i(1)] i(2) by simp
  consider "src = Null_Ptr" "t = []" | m where "src_memory src vs = Some m" "NUL \<in> set m" "t = c_str m"
    using src_text_memory [OF t] by blast
  then show ?thesis
  proof cases
    case 1
    moreover have "os[i := null_string] = os" "vs[i := []] = vs" using i(2) null by (metis list_update_id)+
    ultimately show ?thesis using g by (simp add: string_new_cstr_def)
  next
    case 2
    obtain q where q: "src_ptr src os = Some (Some q)" "ptr_bytes q h = Some m" using src_read [OF g 2(1)] by blast
    obtain a h1 where new: "hp_alloc (t @ [NUL]) h = (a, h1)" by fastforce
    have "string_new_cstr (Some q) h = Some (\<lparr>so_data = Some a, so_len = length t\<rparr>, h1)"
      using q(2) 2(2,3) c_str_take [OF 2(2)] new
      by (simp add: string_new_cstr_def strlen_at_def copy_bytes_def memcpy_def)
    then show ?thesis using install [OF g i new] q(1) by blast
  qed
qed

lemma new_buf:
  assumes g: "owners B os h vs" and i: "i < length os" "os ! i = null_string"
    and m: "src_memory src vs = Some m" and t: "memcpy m n = Some t"
  shows "\<exists>q s h1. src_ptr src os = Some (Some q) \<and> string_new_buf q n h = Some (s, h1) \<and> owners B (os[i := s]) h1 (vs[i := t])"
proof -
  obtain q where q: "src_ptr src os = Some (Some q)" "ptr_bytes q h = Some m" using src_read [OF g m] by blast
  obtain a h1 where new: "hp_alloc (t @ [NUL]) h = (a, h1)" by fastforce
  have "length t = n" using t by (auto simp: memcpy_def split: if_splits)
  then have "string_new_buf q n h = Some (\<lparr>so_data = Some a, so_len = length t\<rparr>, h1)"
    using q(2) t new by (simp add: string_new_buf_def copy_bytes_def)
  then show ?thesis using install [OF g i new] q(1) by blast
qed

lemma new_copy:
  assumes g: "owners B os h vs" and i: "i < length os" "os ! i = null_string" and j: "j < length os"
  shows "\<exists>s h1. string_new_copy (os ! j) h = Some (s, h1) \<and> owners B (os[i := s]) h1 (vs[i := vs ! j])"
proof (cases "so_data (os ! j)")
  case None
  then have "os ! j = null_string" "vs ! j = []" using holds_no_data owners_nth [OF g j] by blast+
  moreover have "vs ! i = []" using owners_nth [OF g i(1)] i(2) by simp
  ultimately have "os[i := null_string] = os" "vs[i := vs ! j] = vs" using i(2) by (metis list_update_id)+
  then show ?thesis using g \<open>os ! j = null_string\<close> by (simp add: string_new_copy_def null_string_def)
next
  case (Some b)
  obtain a h1 where new: "hp_alloc (vs ! j @ [NUL]) h = (a, h1)" by fastforce
  have "hp_blocks h b = Some (vs ! j @ [NUL])" "so_len (os ! j) = length (vs ! j)"
    using owners_nth [OF g j] Some by (simp_all add: holds_def)
  then have "string_new_copy (os ! j) h = Some (\<lparr>so_data = Some a, so_len = length (vs ! j)\<rparr>, h1)"
    using Some new by (simp add: string_new_copy_def copy_bytes_def ptr_bytes_def memcpy_def)
  then show ?thesis using install [OF g i new] by blast
qed

lemma step_assign:
  assumes g: "owners B os h vs" and i: "i < length os" and j: "j < length os"
  shows "\<exists>s h1. string_assign (i = j) (os ! i) (os ! j) h = Some (s, h1) \<and> owners B (os[i := s]) h1 (vs[i := vs ! j])"
proof (cases "i = j")
  case True
  then show ?thesis using g by (simp add: string_assign_def)
next
  case False
  obtain h1 where h1: "string_delete (os ! i) h = Some h1" "owners B (os[i := null_string]) h1 (vs[i := []])"
    using release [OF g i] by blast
  from new_copy [OF h1(2), of i j] i j False owners_length [OF g] h1(1)
  show ?thesis by (auto simp: string_assign_def)
qed

lemma step_assign_move:
  assumes g: "owners B os h vs" and i: "i < length os" and j: "j < length os"
  shows "\<exists>s r h1. string_assign_move (i = j) (os ! i) (os ! j) h = Some (s, r, h1)
    \<and> owners B (os[i := s, j := r]) h1 (if i = j then vs else vs[i := vs ! j, j := []])"
proof (cases "i = j")
  case True
  then show ?thesis using g by (simp add: string_assign_move_def)
next
  case False
  obtain h1 where h1: "string_delete (os ! i) h = Some h1" "owners B (os[i := null_string]) h1 (vs[i := []])"
    using release [OF g i] by blast
  from hand_over [OF h1(2), of i j] i j False owners_length [OF g] h1(1)
  show ?thesis by (simp add: string_assign_move_def)
qed

lemma step_assign_cstr:
  assumes g: "owners B os h vs" and i: "i < length os" and src: "src \<noteq> CstrOf i" "src_text src vs = Some t"
  shows "\<exists>p s h1. src_ptr src os = Some p \<and> string_assign_cstr (os ! i) p h = Some (s, h1) \<and> owners B (os[i := s]) h1 (vs[i := t])"
proof -
  obtain h1 where h1: "string_delete (os ! i) h = Some h1" "owners B (os[i := null_string]) h1 (vs[i := []])"
    using release [OF g i] by blast
  from new_cstr [OF h1(2), of i src t] i src h1(1)
  show ?thesis by (auto simp: string_assign_cstr_def src_ptr_update src_text_update)
qed

lemma string_step_ok:
  assumes g: "owners B os h vs" and step: "text_step p vs = Some ws"
  shows "\<exists>os1 h1. string_step p (os, h) = Some (os1, h1) \<and> owners B os1 h1 ws"
proof -
  note len = owners_length [OF g] and g1 = add_null [OF g]
  have built: "(os @ [null_string])[length os := s] = os @ [s]" "(vs @ [[]])[length os := v] = vs @ [v]" for s v
    by (simp, metis len list_update_length)
  have last: "length os < length (os @ [null_string])" "(os @ [null_string]) ! length os = null_string" by simp_all
  show ?thesis
  proof (cases p)
    case (Make src)
    then obtain t where t: "src_text src vs = Some t" "ws = vs @ [t]" using step by auto
    have "src_text src (vs @ [[]]) = Some t" "src_ptr src (os @ [null_string]) = src_ptr src os"
      using t(1) len by (cases src; auto simp: vec_at_def nth_append split: if_splits)+
    then show ?thesis using new_cstr [OF g1 last, of src t] Make t(2) unfolding built by auto
  next
    case (Make_Buf src n)
    then obtain m t where t: "src_memory src vs = Some m" "memcpy m n = Some t" "ws = vs @ [t]" using step by auto
    then show ?thesis
      using new_buf [OF g1 last src_memory_snoc [OF t(1)] t(2)] Make_Buf src_ptr_snoc [OF t(1) len]
      unfolding built by auto
  next
    case (Make_Copy j)
    then have j: "j < length os" "ws = vs @ [vs ! j]" using step len by (auto simp: vec_at_def split: if_splits)
    then show ?thesis
      using new_copy [OF g1 last, of j] Make_Copy len unfolding built by (auto simp: nth_append)
  next
    case (Make_Move j)
    then have j: "j < length os" "ws = vs[j := []] @ [vs ! j]" using step len by (auto simp: vec_at_def split: if_splits)
    from hand_over [OF g1 last(1), of j] j last(2) len show ?thesis
      using Make_Move by (auto simp: string_new_move_def nth_append list_update_append)
  next
    case (Assign i j)
    then have "i < length os" "j < length os" "ws = vs[i := vs ! j]"
      using step len by (auto simp: vec_at_def vec_set_def split: if_splits)
    then show ?thesis using step_assign [OF g, of i j] Assign by auto
  next
    case (Assign_Move i j)
    then have "i < length os" "j < length os" "ws = (if i = j then vs else vs[i := vs ! j, j := []])"
      using step len by (auto simp: vec_at_def vec_set_def split: if_splits)
    then show ?thesis using step_assign_move [OF g, of i j] Assign_Move by auto
  next
    case (Assign_Text i src)
    then obtain t where "src \<noteq> CstrOf i" "src_text src vs = Some t" "i < length os" "ws = vs[i := t]"
      using step len by (auto simp: vec_set_def split: if_splits)
    then show ?thesis using step_assign_cstr [OF g, of i src t] Assign_Text by auto
  qed
qed

lemma string_run_ok:
  "owners B os h vs \<Longrightarrow> run_ops text_step ps vs = Some ws \<Longrightarrow>
    \<exists>os1 h1. run_ops string_step ps (os, h) = Some (os1, h1) \<and> owners B os1 h1 ws"
proof (induction ps arbitrary: os h vs)
  case (Cons p ps)
  then obtain us where us: "text_step p vs = Some us" "run_ops text_step ps us = Some ws" by auto
  obtain os1 h1 where "string_step p (os, h) = Some (os1, h1)" "owners B os1 h1 us"
    using string_step_ok [OF Cons.prems(1) us(1)] by blast
  with Cons.IH [OF _ us(2)] show ?case by fastforce
qed auto

lemma delete_all_ok:
  "owners B os h vs \<Longrightarrow> \<exists>h1. string_delete_all os h = Some h1 \<and> hp_blocks h1 = B"
proof (induction os arbitrary: h vs)
  case Nil
  then show ?case using owners_rest [OF Nil] by (auto simp: owns_def fun_eq_iff)
next
  case (Cons s os)
  obtain v vs1 where vs: "vs = v # vs1" using owners_length [OF Cons.prems] by (cases vs) auto
  obtain h1 where h1: "string_delete s h = Some h1" "owners B (null_string # os) h1 ([] # vs1)"
    using release [OF Cons.prems, of 0] vs by auto
  from Cons.IH [OF drop_null [OF h1(2)]] h1(1) show ?case by auto
qed

section \<open>Properties\<close>

text \<open>C27. The buffers of strings are owned, terminated and released: take any run of constructions,
  copies, moves and assignments over several strings (self-assignment and a text from another
  string's \<open>c_str()\<close> included) that names existing objects, takes no more bytes than there are,
  and does not assign to a string its own \<open>c_str()\<close>. It reads no released memory and releases
  nothing twice, every string ends with a buffer of its own that holds the expected bytes, and
  the destructors give back exactly the blocks that were there before. The excluded assignment,
  \<open>a = a.c_str()\<close>, reads the buffer it has just released whenever the string has one.\<close>

theorem string_assignments:
  assumes "heap_ok h" and "run_ops text_step ps [] = Some vs"
  shows "\<exists>os h1 h2. run_ops string_step ps ([], h) = Some (os, h1)
    \<and> list_all2 (holds h1) os vs \<and> distinct (filter (\<lambda>d. d \<noteq> None) (map so_data os))
    \<and> string_delete_all os h1 = Some h2 \<and> hp_blocks h2 = hp_blocks h
    \<and> (\<forall>i < length os. so_data (os ! i) \<noteq> None \<longrightarrow> string_step (Assign_Text i (CstrOf i)) (os, h1) = None)"
proof -
  have "owners (hp_blocks h) [] h []" using assms(1) by (simp add: owners_def owns_def)
  then obtain os h1 where run: "run_ops string_step ps ([], h) = Some (os, h1)" "owners (hp_blocks h) os h1 vs"
    using string_run_ok assms(2) by blast
  obtain h2 where "string_delete_all os h1 = Some h2" "hp_blocks h2 = hp_blocks h"
    using delete_all_ok [OF run(2)] by blast
  moreover have "string_step (Assign_Text i (CstrOf i)) (os, h1) = None"
    if "i < length os" "so_data (os ! i) \<noteq> None" for i
    using that by (auto simp: string_ptr_def string_assign_cstr_def string_delete_def hp_free_def
        string_new_cstr_def strlen_at_def ptr_bytes_def)
  ultimately show ?thesis using run owners_texts [OF run(2)] owners_distinct [OF run(2)] by blast
qed

theorem string_assignments_witness:
  "\<exists>os h1 h2. run_ops string_step [Make (Literal ''ab''), Make_Copy 0, Assign 0 0, Assign_Text 1 (Literal ''c''), Make_Move 0]
       ([], \<lparr>hp_blocks = Map.empty, hp_next = 0\<rparr>) = Some (os, h1)
     \<and> list_all2 (holds h1) os [[], ''c'', ''ab''] \<and> string_delete_all os h1 = Some h2 \<and> hp_blocks h2 = Map.empty"
proof -
  have "run_ops text_step [Make (Literal ''ab''), Make_Copy 0, Assign 0 0, Assign_Text 1 (Literal ''c''), Make_Move 0] []
      = Some [[], ''c'', ''ab'']"
    by code_simp
  from string_assignments [OF _ this, of "\<lparr>hp_blocks = Map.empty, hp_next = 0\<rparr>"] show ?thesis
    by (auto simp: heap_ok_def)
qed

end
