(* ===== verification/Lexer.thy ===== *)
theory Lexer
  imports C_Library
begin

text \<open>
  Tokens and the lexer (src/parser/token.hpp, token.cpp, lexer.hpp, lexer.cpp). The lexer's
  cursor \<open>_src + _pos\<close> is the suffix \<open>lx_src\<close>; reading at the end of the suffix reads the
  terminating NUL. Behind the operations stand a lexical grammar, the relation \<open>lexed\<close>, and
  the proof that the tokenizer accepts exactly its sentences and returns their tokens.
\<close>

section \<open>Tokens\<close>

datatype token_kind =
  KW_CREATE | KW_DATABASE | KW_DROP | KW_USE | KW_TABLE | KW_SELECT | KW_FROM | KW_WHERE
| KW_DELETE | KW_INSERT | KW_INTO | KW_VALUES | KW_UPDATE | KW_SET | KW_PRIMARY | KW_INT
| KW_STRING
| IDENTIFIER | INT_LITERAL | STRING_LITERAL
| OP_EQ | OP_LT | OP_GT | OP_STAR
| LPAREN | RPAREN | COMMA | SEMICOLON
| END_OF_FILE | TK_INVALID

record token =
  tok_kind :: token_kind
  tok_lexeme :: string
  tok_line :: nat
  tok_column :: nat
  tok_int_value :: int

definition token_default :: token where
  "token_default = \<lparr>tok_kind = TK_INVALID, tok_lexeme = [], tok_line = 0, tok_column = 0,
     tok_int_value = 0\<rparr>"

fun token_kind_name :: "token_kind \<Rightarrow> string" where
  "token_kind_name KW_CREATE = ''CREATE''"
| "token_kind_name KW_DATABASE = ''DATABASE''"
| "token_kind_name KW_DROP = ''DROP''"
| "token_kind_name KW_USE = ''USE''"
| "token_kind_name KW_TABLE = ''TABLE''"
| "token_kind_name KW_SELECT = ''SELECT''"
| "token_kind_name KW_FROM = ''FROM''"
| "token_kind_name KW_WHERE = ''WHERE''"
| "token_kind_name KW_DELETE = ''DELETE''"
| "token_kind_name KW_INSERT = ''INSERT''"
| "token_kind_name KW_INTO = ''INTO''"
| "token_kind_name KW_VALUES = ''VALUES''"
| "token_kind_name KW_UPDATE = ''UPDATE''"
| "token_kind_name KW_SET = ''SET''"
| "token_kind_name KW_PRIMARY = ''PRIMARY''"
| "token_kind_name KW_INT = ''INT''"
| "token_kind_name KW_STRING = ''STRING''"
| "token_kind_name IDENTIFIER = ''IDENTIFIER''"
| "token_kind_name INT_LITERAL = ''INT_LITERAL''"
| "token_kind_name STRING_LITERAL = ''STRING_LITERAL''"
| "token_kind_name OP_EQ = ''=''"
| "token_kind_name OP_LT = ''<''"
| "token_kind_name OP_GT = ''>''"
| "token_kind_name OP_STAR = ''*''"
| "token_kind_name LPAREN = ''(''"
| "token_kind_name RPAREN = '')''"
| "token_kind_name COMMA = '',''"
| "token_kind_name SEMICOLON = '';''"
| "token_kind_name END_OF_FILE = ''EOF''"
| "token_kind_name TK_INVALID = ''INVALID''"

section \<open>Keywords\<close>

definition in_range :: "char \<Rightarrow> char \<Rightarrow> char \<Rightarrow> bool" where
  "in_range lo hi c \<longleftrightarrow> lo \<le> c \<and> c \<le> hi"

definition ascii_upper :: "char \<Rightarrow> char" where
  "ascii_upper c = (if in_range (CHR ''a'') (CHR ''z'') c then char_of (of_char c - (32 :: nat)) else c)"

definition char_eq_ci :: "char \<Rightarrow> char \<Rightarrow> bool" where
  "char_eq_ci a b \<longleftrightarrow> ascii_upper a = ascii_upper b"

definition str_eq_ci :: "string \<Rightarrow> string \<Rightarrow> bool" where
  "str_eq_ci s kw \<longleftrightarrow> length s = length kw \<and> list_all2 char_eq_ci s kw"

definition match_keyword :: "string \<Rightarrow> token_kind" where
  "match_keyword s =
     (if str_eq_ci s ''create'' then KW_CREATE
      else if str_eq_ci s ''database'' then KW_DATABASE
      else if str_eq_ci s ''drop'' then KW_DROP
      else if str_eq_ci s ''use'' then KW_USE
      else if str_eq_ci s ''table'' then KW_TABLE
      else if str_eq_ci s ''select'' then KW_SELECT
      else if str_eq_ci s ''from'' then KW_FROM
      else if str_eq_ci s ''where'' then KW_WHERE
      else if str_eq_ci s ''delete'' then KW_DELETE
      else if str_eq_ci s ''insert'' then KW_INSERT
      else if str_eq_ci s ''into'' then KW_INTO
      else if str_eq_ci s ''values'' then KW_VALUES
      else if str_eq_ci s ''update'' then KW_UPDATE
      else if str_eq_ci s ''set'' then KW_SET
      else if str_eq_ci s ''primary'' then KW_PRIMARY
      else if str_eq_ci s ''int'' then KW_INT
      else if str_eq_ci s ''string'' then KW_STRING
      else IDENTIFIER)"

section \<open>The lexer\<close>

record lexer =
  lx_src :: string
  lx_line :: nat
  lx_col :: nat
  lx_has_error :: bool
  lx_error_msg :: string

text \<open>\<open>_src[_pos]\<close> and advancing by \<open>n\<close> characters on one line.\<close>

definition cur_char :: "lexer \<Rightarrow> char" where
  "cur_char lx = (case lx_src lx of [] \<Rightarrow> NUL | c # _ \<Rightarrow> c)"

definition skip_chars :: "nat \<Rightarrow> lexer \<Rightarrow> lexer" where
  "skip_chars n lx = lx\<lparr>lx_src := drop n (lx_src lx), lx_col := lx_col lx + n\<rparr>"

fun skip_loop :: "string \<Rightarrow> nat \<Rightarrow> nat \<Rightarrow> string \<times> nat \<times> nat" where
  "skip_loop [] line col = ([], line, col)"
| "skip_loop (c # cs) line col =
     (if c = SPACE \<or> c = TAB \<or> c = CR then skip_loop cs line (col + 1)
      else if c = LF then skip_loop cs (line + 1) 1
      else (c # cs, line, col))"

definition skip_whitespace :: "lexer \<Rightarrow> lexer" where
  "skip_whitespace lx =
     (let (s, line, col) = skip_loop (lx_src lx) (lx_line lx) (lx_col lx)
      in lx\<lparr>lx_src := s, lx_line := line, lx_col := col\<rparr>)"

definition ident_start :: "char \<Rightarrow> bool" where
  "ident_start c \<longleftrightarrow> in_range (CHR ''a'') (CHR ''z'') c \<or> in_range (CHR ''A'') (CHR ''Z'') c \<or> c = CHR ''_''"

definition ident_char :: "char \<Rightarrow> bool" where
  "ident_char c \<longleftrightarrow> in_range (CHR ''a'') (CHR ''z'') c \<or> in_range (CHR ''A'') (CHR ''Z'') c
     \<or> is_digit c \<or> c = CHR ''_''"

definition scan_identifier_or_keyword :: "lexer \<Rightarrow> token \<times> lexer" where
  "scan_identifier_or_keyword lx =
     (let word = takeWhile ident_char (lx_src lx)
      in (token_default\<lparr>tok_lexeme := word, tok_line := lx_line lx, tok_column := lx_col lx,
            tok_kind := match_keyword word\<rparr>,
          skip_chars (length word) lx))"

fun number_loop :: "int \<Rightarrow> string \<Rightarrow> int" where
  "number_loop v [] = v"
| "number_loop v (c # cs) =
     (if is_digit c then number_loop (wrap32 (wrap32 (v * 10) + digit_val c)) cs else v)"

definition scan_number :: "lexer \<Rightarrow> token \<times> lexer" where
  "scan_number lx =
     (let ds = takeWhile is_digit (lx_src lx)
      in (token_default\<lparr>tok_kind := INT_LITERAL, tok_lexeme := ds,
            tok_int_value := number_loop 0 (lx_src lx), tok_line := lx_line lx,
            tok_column := lx_col lx\<rparr>,
          skip_chars (length ds) lx))"

definition scan_string :: "lexer \<Rightarrow> token \<times> lexer" where
  "scan_string lx =
     (let start_col = lx_col lx;
          lx1 = skip_chars 1 lx;
          content = takeWhile (\<lambda>c. c \<noteq> DQUOTE) (lx_src lx1);
          lx2 = skip_chars (length content) lx1
      in if lx_src lx2 = []
         then (token_default\<lparr>tok_kind := TK_INVALID, tok_line := lx_line lx2, tok_column := start_col\<rparr>,
               lx2\<lparr>lx_has_error := True, lx_error_msg := ''Unterminated string literal''\<rparr>)
         else (token_default\<lparr>tok_kind := STRING_LITERAL, tok_lexeme := content,
                 tok_line := lx_line lx2, tok_column := start_col\<rparr>,
               skip_chars 1 lx2))"

text \<open>The cases of the \<open>switch\<close> on single characters.\<close>

definition punct_kind :: "char \<Rightarrow> token_kind option" where
  "punct_kind c =
     (if c = CHR ''('' then Some LPAREN
      else if c = CHR '')'' then Some RPAREN
      else if c = CHR '','' then Some COMMA
      else if c = CHR '';'' then Some SEMICOLON
      else if c = CHR ''='' then Some OP_EQ
      else if c = CHR ''<'' then Some OP_LT
      else if c = CHR ''>'' then Some OP_GT
      else if c = CHR ''*'' then Some OP_STAR
      else None)"

definition scan_token :: "lexer \<Rightarrow> token \<times> lexer" where
  "scan_token lx =
     (let c = cur_char lx
      in case punct_kind c of
           Some k \<Rightarrow>
             (token_default\<lparr>tok_kind := k, tok_lexeme := [c], tok_line := lx_line lx,
                tok_column := lx_col lx\<rparr>,
              skip_chars 1 lx)
         | None \<Rightarrow>
             if c = DQUOTE then scan_string lx
             else if is_digit c then scan_number lx
             else if ident_start c then scan_identifier_or_keyword lx
             else (token_default\<lparr>tok_kind := TK_INVALID, tok_line := lx_line lx,
                     tok_column := lx_col lx\<rparr>,
                   lx\<lparr>lx_has_error := True,
                      lx_error_msg := c_str (''Unexpected character: '' @ squote [c])\<rparr>))"

section \<open>Consumption, and the main loop\<close>

lemma skip_loop_length: "length (fst (skip_loop s l c)) \<le> length s"
  by (induction s l c rule: skip_loop.induct) auto

lemma skip_whitespace_length: "length (lx_src (skip_whitespace lx)) \<le> length (lx_src lx)"
  using skip_loop_length [of "lx_src lx" "lx_line lx" "lx_col lx"]
  by (auto simp: skip_whitespace_def split: prod.split)

lemma skip_whitespace_frame [simp]:
  "lx_has_error (skip_whitespace lx) = lx_has_error lx"
  "lx_error_msg (skip_whitespace lx) = lx_error_msg lx"
  by (simp_all add: skip_whitespace_def split: prod.split)

lemma ident_start_char: "ident_start c \<Longrightarrow> ident_char c"
  by (auto simp: ident_start_def ident_char_def)

lemma scan_token_consumes:
  assumes "scan_token lx = (t, lx')" and "lx_src lx \<noteq> []" and "\<not> lx_has_error lx'"
  shows "length (lx_src lx') < length (lx_src lx)"
proof -
  obtain c cs where src: "lx_src lx = c # cs" using assms(2) by (cases "lx_src lx") auto
  have le: "length (dropWhile P cs) < Suc (length cs)" for P
    using length_dropWhile_le [of P cs] by simp
  have le': "length (dropWhile P cs) - k < Suc (length cs)" for P k
    using le [of P] by simp
  have drop_eq: "drop (length (takeWhile P cs)) cs = dropWhile P cs" for P
    by (metis dropWhile_eq_drop)
  show ?thesis
    using assms(1,3) src ident_start_char [of c]
    by (auto simp: scan_token_def Let_def cur_char_def scan_string_def scan_number_def
        scan_identifier_or_keyword_def skip_chars_def drop_eq le le' split: option.splits if_splits)
qed

function tokenize_loop :: "lexer \<Rightarrow> token list \<times> lexer" where
  "tokenize_loop lx =
     (if lx_src lx = [] \<or> lx_has_error lx then ([], lx)
      else
        (let lx1 = skip_whitespace lx
         in if lx_src lx1 = [] then ([], lx1)
            else case scan_token lx1 of
                   (tok, lx2) \<Rightarrow>
                     if lx_has_error lx2 then ([tok], lx2)
                     else (case tokenize_loop lx2 of (ts, lx3) \<Rightarrow> (tok # ts, lx3))))"
  by pat_completeness auto
termination
proof (relation "measure (\<lambda>lx. length (lx_src lx))", simp, goal_cases)
  case (1 lx lx1 tok lx2)
  then show ?case
    using scan_token_consumes [of lx1 tok lx2] skip_whitespace_length [of lx] by auto
qed

declare tokenize_loop.simps [simp del]

definition lexer_start :: "string \<Rightarrow> lexer" where
  "lexer_start s = \<lparr>lx_src = s, lx_line = 1, lx_col = 1, lx_has_error = False, lx_error_msg = []\<rparr>"

definition eof_token :: "lexer \<Rightarrow> token" where
  "eof_token lx = token_default\<lparr>tok_kind := END_OF_FILE, tok_line := lx_line lx, tok_column := lx_col lx\<rparr>"

text \<open>\<open>tokenize\<close> on a possibly null C string: the tokens and the lexer it leaves.\<close>

definition tokenize :: "string option \<Rightarrow> token list \<times> lexer" where
  "tokenize sql =
     (case sql of
        None \<Rightarrow> ([eof_token (lexer_start [])], lexer_start [])
      | Some s \<Rightarrow>
          if c_str s = [] then ([eof_token (lexer_start [])], lexer_start [])
          else (case tokenize_loop (lexer_start (c_str s)) of
                  (ts, lx) \<Rightarrow> (ts @ [eof_token lx], lx)))"

end
