(* ===== verification/Lexer_Spec.thy ===== *)
theory Lexer_Spec
  imports Lexer
begin

text \<open>
  The lexical grammar of the SQL dialect, as a relation between a text and its token list
  (kind and lexeme), and the proof that the lexer of theory \<open>Lexer\<close> computes it: the
  scanner recognises one token and leaves the rest, so the main loop accepts exactly the
  texts of the grammar. Shape facts about the token vector (which the parser's unchecked
  reads rest on) and the value of integer literals are here too.
\<close>

section \<open>The grammar\<close>

definition is_ws :: "char \<Rightarrow> bool" where
  "is_ws c \<longleftrightarrow> c = SPACE \<or> c = TAB \<or> c = CR \<or> c = LF"

definition word :: "string \<Rightarrow> bool" where
  "word s \<longleftrightarrow> s \<noteq> [] \<and> ident_start (hd s) \<and> list_all ident_char s"

definition token_ok :: "token_kind \<Rightarrow> string \<Rightarrow> bool" where
  "token_ok k l \<longleftrightarrow>
     (if k = STRING_LITERAL then DQUOTE \<notin> set l
      else if k = INT_LITERAL then l \<noteq> [] \<and> list_all is_digit l
      else if word l then match_keyword l = k
      else length l = 1 \<and> punct_kind (hd l) = Some k)"

definition token_text :: "token_kind \<Rightarrow> string \<Rightarrow> string" where
  "token_text k l = (if k = STRING_LITERAL then DQUOTE # l @ [DQUOTE] else l)"

text \<open>Maximal munch: a word must not be followed by a word character, nor digits by a digit.\<close>

definition boundary :: "token_kind \<Rightarrow> string \<Rightarrow> string \<Rightarrow> bool" where
  "boundary k l r \<longleftrightarrow>
     (k = INT_LITERAL \<longrightarrow> r = [] \<or> \<not> is_digit (hd r))
     \<and> (k \<noteq> INT_LITERAL \<and> k \<noteq> STRING_LITERAL \<and> word l \<longrightarrow> r = [] \<or> \<not> ident_char (hd r))"

inductive lexed :: "string \<Rightarrow> (token_kind \<times> string) list \<Rightarrow> bool" where
  lexed_end: "list_all is_ws w \<Longrightarrow> lexed w []"
| lexed_token: "list_all is_ws w \<Longrightarrow> token_ok k l \<Longrightarrow> boundary k l r \<Longrightarrow> lexed r ts \<Longrightarrow>
     lexed (w @ token_text k l @ r) ((k, l) # ts)"

inductive_cases lexed_ConsE: "lexed s ((k, l) # ts)"
inductive_simps lexed_Nil_iff: "lexed s []"

definition token_pair :: "token \<Rightarrow> token_kind \<times> string" where
  "token_pair t = (tok_kind t, tok_lexeme t)"

section \<open>Character classes\<close>

lemma in_range_iff: "in_range lo hi c \<longleftrightarrow> of_char lo \<le> (of_char c :: nat) \<and> (of_char c :: nat) \<le> of_char hi"
  by (simp add: in_range_def less_eq_char_def)

lemma ident_start_not_digit [lex_simps]: "ident_start c \<Longrightarrow> \<not> is_digit c"
  unfolding ident_start_def in_range_iff is_digit_iff by auto

lemma digit_ident_char [lex_simps]: "is_digit c \<Longrightarrow> ident_char c"
  by (simp add: ident_char_def)

lemma punct_not_ident: "punct_kind c = Some k \<Longrightarrow> \<not> ident_start c \<and> \<not> is_digit c \<and> c \<noteq> DQUOTE \<and> \<not> is_ws c \<and> c \<noteq> NUL"
  by (auto simp: punct_kind_def ident_start_def in_range_iff is_digit_iff is_ws_def split: if_splits)

lemma ident_start_not_punct [lex_simps]: "ident_start c \<Longrightarrow> punct_kind c = None"
  using punct_not_ident by (cases "punct_kind c") auto

lemma digit_not_punct [lex_simps]: "is_digit c \<Longrightarrow> punct_kind c = None"
  using punct_not_ident by (cases "punct_kind c") auto

lemma DQUOTE_class [lex_simps]:
  "punct_kind DQUOTE = None" "\<not> is_digit DQUOTE" "\<not> ident_start DQUOTE" "\<not> is_ws DQUOTE"
  by (auto simp: punct_kind_def ident_start_def in_range_iff is_digit_iff is_ws_def)

lemma ident_char_not_ws: "ident_char c \<Longrightarrow> \<not> is_ws c"
  by (auto simp: ident_char_def in_range_iff is_digit_iff is_ws_def)

lemma ident_start_not_DQUOTE: "ident_start c \<Longrightarrow> c \<noteq> DQUOTE"
  using DQUOTE_class by auto

lemma punct_kind_word: "punct_kind c = Some k \<Longrightarrow> k \<noteq> STRING_LITERAL \<and> k \<noteq> INT_LITERAL \<and> k \<noteq> IDENTIFIER"
  by (auto simp: punct_kind_def split: if_splits)

lemma match_keyword_kinds:
  "match_keyword s \<notin> {INT_LITERAL, STRING_LITERAL, OP_EQ, OP_LT, OP_GT, OP_STAR, LPAREN, RPAREN,
     COMMA, SEMICOLON, END_OF_FILE, TK_INVALID}"
  by (simp add: match_keyword_def)

lemma match_keyword_kinds_eq [lex_simps]:
  "match_keyword s \<noteq> INT_LITERAL" "match_keyword s \<noteq> STRING_LITERAL" "match_keyword s \<noteq> END_OF_FILE"
  using match_keyword_kinds [of s] by auto

section \<open>One token\<close>

lemma token_text_head:
  assumes "token_ok k l"
  obtains c cs where "token_text k l = c # cs" and "\<not> is_ws c"
proof -
  consider "k = STRING_LITERAL" | "k = INT_LITERAL" "l \<noteq> []" "is_digit (hd l)"
    | "word l" "k \<noteq> STRING_LITERAL" | "length l = 1" "punct_kind (hd l) = Some k"
    using assms by (cases l) (auto simp: token_ok_def split: if_splits)
  then show ?thesis
  proof cases
    case 1
    then show ?thesis using that DQUOTE_class by (auto simp: token_text_def)
  next
    case 2
    then show ?thesis
      using that [of "hd l" "tl l"] ident_char_not_ws [OF digit_ident_char] by (simp add: token_text_def)
  next
    case 3
    then show ?thesis
      using that [of "hd l" "tl l"] ident_char_not_ws [OF ident_start_char]
      by (simp add: token_text_def word_def)
  next
    case 4
    then show ?thesis
      using that [of "hd l" "tl l"] punct_not_ident punct_kind_word
      by (cases l) (auto simp: token_text_def)
  qed
qed

lemma takeWhile_boundary:
  "list_all P l \<Longrightarrow> r = [] \<or> \<not> P (hd r) \<Longrightarrow> takeWhile P (l @ r) = l"
  by (induction l) (auto simp: takeWhile_eq_Nil_iff)

lemma scan_token_closed_string:
  assumes "lx_src lx = DQUOTE # w @ DQUOTE # r" and "DQUOTE \<notin> set w"
  shows "tok_kind (fst (scan_token lx)) = STRING_LITERAL" "tok_lexeme (fst (scan_token lx)) = w"
    "lx_src (snd (scan_token lx)) = r" "lx_has_error (snd (scan_token lx)) = lx_has_error lx"
proof -
  have "takeWhile (\<lambda>c. c \<noteq> DQUOTE) (w @ DQUOTE # r) = w"
    using assms(2) by (intro takeWhile_notin_append) auto
  then show "tok_kind (fst (scan_token lx)) = STRING_LITERAL" "tok_lexeme (fst (scan_token lx)) = w"
    "lx_src (snd (scan_token lx)) = r" "lx_has_error (snd (scan_token lx)) = lx_has_error lx"
    using assms(1)
    by (simp_all add: scan_token_def cur_char_def DQUOTE_class scan_string_def skip_chars_def)
qed

lemma scan_token_open_string:
  assumes "lx_src lx = DQUOTE # cs" and "DQUOTE \<notin> set cs"
  shows "lx_has_error (snd (scan_token lx))"
    "lx_error_msg (snd (scan_token lx)) = ''Unterminated string literal''"
  using assms
  by (auto simp: scan_token_def cur_char_def DQUOTE_class scan_string_def skip_chars_def Let_def
      takeWhile_neq_all)

text \<open>The scanner recognises the text of a token and stops right behind it.\<close>

lemma scan_token_text:
  assumes "token_ok k l" and "boundary k l r" and "lx_src lx = token_text k l @ r"
  shows "\<exists>t lx'. scan_token lx = (t, lx') \<and> token_pair t = (k, l) \<and> lx_src lx' = r
    \<and> lx_has_error lx' = lx_has_error lx"
proof -
  consider (str) "k = STRING_LITERAL" "DQUOTE \<notin> set l"
    | (int) "k = INT_LITERAL" "l \<noteq> []" "list_all is_digit l"
    | (word) "k \<noteq> STRING_LITERAL" "k \<noteq> INT_LITERAL" "word l" "match_keyword l = k"
    | (punct) "k \<noteq> STRING_LITERAL" "k \<noteq> INT_LITERAL" "\<not> word l" "length l = 1" "punct_kind (hd l) = Some k"
    using assms(1) by (auto simp: token_ok_def split: if_splits)
  then show ?thesis
  proof cases
    case str
    then have "lx_src lx = DQUOTE # l @ DQUOTE # r" using assms(3) by (simp add: token_text_def)
    from scan_token_closed_string [OF this str(2)] str(1) show ?thesis
      by (cases "scan_token lx") (simp add: token_pair_def)
  next
    case int
    then obtain c cs where l: "l = c # cs" "is_digit c" by (cases l) auto
    have "takeWhile is_digit (l @ r) = l"
      using int assms(2) by (intro takeWhile_boundary) (auto simp: boundary_def)
    moreover have "c \<noteq> DQUOTE" using l DQUOTE_class by auto
    ultimately show ?thesis
      using int(1) assms(3) l
      by (simp add: scan_token_def cur_char_def token_text_def lex_simps scan_number_def
          skip_chars_def token_pair_def)
  next
    case word
    then obtain c cs where l: "l = c # cs" "ident_start c" by (cases l) (auto simp: word_def)
    have "takeWhile ident_char (l @ r) = l"
      using word assms(2) by (intro takeWhile_boundary) (auto simp: boundary_def word_def)
    then show ?thesis
      using word assms(3) l ident_start_not_DQUOTE [OF l(2)]
      by (simp add: scan_token_def cur_char_def token_text_def lex_simps
          scan_identifier_or_keyword_def skip_chars_def token_pair_def)
  next
    case punct
    then obtain c where l: "l = [c]" by (cases l) auto
    then show ?thesis
      using punct assms(3)
      by (simp add: scan_token_def cur_char_def token_text_def skip_chars_def token_pair_def)
  qed
qed

text \<open>Conversely, a token scanned without an error is the text in front of what is left.\<close>

lemma drop_takeWhile: "drop (length (takeWhile P xs)) xs = dropWhile P xs"
  by (metis dropWhile_eq_drop)

lemma dropWhile_stops: "dropWhile P xs = [] \<or> \<not> P (hd (dropWhile P xs))"
  using hd_dropWhile by blast

lemma scan_string_sound:
  assumes scan: "scan_token lx = (t, lx')" and src: "lx_src lx = DQUOTE # cs"
    and ok: "\<not> lx_has_error lx'" and pair: "token_pair t = (k, l)"
  shows "token_ok k l \<and> boundary k l (lx_src lx') \<and> lx_src lx = token_text k l @ lx_src lx'"
proof (cases "DQUOTE \<in> set cs")
  case True
  then obtain w r where cs: "cs = w @ DQUOTE # r" "DQUOTE \<notin> set w"
    by (meson split_list_first)
  then have "k = STRING_LITERAL" "l = w" "lx_src lx' = r"
    using scan pair scan_token_closed_string [of lx w r] src by (auto simp: token_pair_def)
  then show ?thesis
    using src cs by (simp add: token_ok_def token_text_def boundary_def)
next
  case False
  then show ?thesis using scan ok src scan_token_open_string [of lx cs] by simp
qed

lemma scan_number_sound:
  assumes scan: "scan_token lx = (t, lx')" and src: "lx_src lx = c # cs" "is_digit c"
    and pair: "token_pair t = (k, l)"
  shows "token_ok k l \<and> boundary k l (lx_src lx') \<and> lx_src lx = token_text k l @ lx_src lx'"
proof -
  have "k = INT_LITERAL" "l = takeWhile is_digit (c # cs)" "lx_src lx' = dropWhile is_digit (c # cs)"
    using scan pair src DQUOTE_class
    by (auto simp: scan_token_def cur_char_def lex_simps scan_number_def skip_chars_def
        token_pair_def Let_def drop_takeWhile split: if_splits)
  then show ?thesis
    using src dropWhile_stops [of is_digit cs]
    by (simp add: token_ok_def token_text_def boundary_def list_all_iff)
      (auto dest: set_takeWhileD)
qed

lemma scan_word_sound:
  assumes scan: "scan_token lx = (t, lx')" and src: "lx_src lx = c # cs" "ident_start c"
    and pair: "token_pair t = (k, l)"
  shows "token_ok k l \<and> boundary k l (lx_src lx') \<and> lx_src lx = token_text k l @ lx_src lx'"
proof -
  have kl: "k = match_keyword l" "l = takeWhile ident_char (c # cs)"
      "lx_src lx' = dropWhile ident_char (c # cs)"
    using scan pair src ident_start_not_DQUOTE [OF src(2)]
    by (auto simp: scan_token_def cur_char_def lex_simps scan_identifier_or_keyword_def
        skip_chars_def token_pair_def Let_def drop_takeWhile split: if_splits)
  moreover from this have "word l"
    using src ident_start_char [OF src(2)]
    by (auto simp: word_def list_all_iff dest: set_takeWhileD)
  ultimately show ?thesis
    using src dropWhile_stops [of ident_char "c # cs"]
    by (simp add: token_ok_def token_text_def boundary_def lex_simps)
qed

lemma scan_token_sound:
  assumes scan: "scan_token lx = (t, lx')" and ne: "lx_src lx \<noteq> []"
    and ok: "\<not> lx_has_error lx'" and pair: "token_pair t = (k, l)"
  shows "token_ok k l \<and> boundary k l (lx_src lx') \<and> lx_src lx = token_text k l @ lx_src lx'"
proof -
  obtain c cs where src: "lx_src lx = c # cs" using ne by (cases "lx_src lx") auto
  consider (punct) k' where "punct_kind c = Some k'" | (str) "c = DQUOTE" | (int) "is_digit c"
    | (word) "ident_start c"
    | (bad) "punct_kind c = None" "c \<noteq> DQUOTE" "\<not> is_digit c" "\<not> ident_start c"
    by (cases "punct_kind c") auto
  then show ?thesis
  proof cases
    case punct
    then have "k = k'" "l = [c]" "lx_src lx' = cs"
      using scan pair src by (auto simp: scan_token_def cur_char_def skip_chars_def token_pair_def)
    then show ?thesis
      using punct src punct_not_ident [OF punct] punct_kind_word [OF punct]
      by (simp add: token_ok_def token_text_def boundary_def word_def)
  next
    case str
    then show ?thesis using scan_string_sound [OF scan _ ok pair] src by blast
  next
    case int
    then show ?thesis by (rule scan_number_sound [OF scan src _ pair])
  next
    case word
    then show ?thesis by (rule scan_word_sound [OF scan src _ pair])
  next
    case bad
    then show ?thesis
      using scan ok src by (auto simp: scan_token_def cur_char_def)
  qed
qed

section \<open>The whole text\<close>

lemma skip_loop_ws:
  "list_all is_ws w \<Longrightarrow> \<exists>line' col'. skip_loop (w @ r) line col = skip_loop r line' col'"
proof (induction w arbitrary: line col)
  case (Cons c w)
  from Cons.prems have c: "is_ws c" and w: "list_all is_ws w" by simp_all
  from c consider "skip_loop ((c # w) @ r) line col = skip_loop (w @ r) line (col + 1)"
    | "skip_loop ((c # w) @ r) line col = skip_loop (w @ r) (line + 1) 1"
    by (auto simp: is_ws_def)
  then show ?case using Cons.IH [OF w] by cases (metis)+
qed auto

lemma skip_loop_stop: "s = [] \<or> \<not> is_ws (hd s) \<Longrightarrow> skip_loop s line col = (s, line, col)"
  by (cases s) (auto simp: is_ws_def)

lemma skip_loop_split:
  "skip_loop s line col = (r, l', c') \<Longrightarrow>
   (\<exists>w. list_all is_ws w \<and> s = w @ r) \<and> (r = [] \<or> \<not> is_ws (hd r))"
proof (induction s line col rule: skip_loop.induct)
  case (2 c cs line col)
  show ?case
  proof (cases "is_ws c")
    case True
    with 2 have "(\<exists>w. list_all is_ws w \<and> cs = w @ r) \<and> (r = [] \<or> \<not> is_ws (hd r))"
      by (auto simp: is_ws_def [of c])
    with True show ?thesis by (metis append_Cons list.pred_inject(2))
  next
    case False
    with "2.prems" have "r = c # cs" by (auto simp: is_ws_def split: if_splits)
    with False show ?thesis by (metis append_Nil list.sel(1) list.pred_inject(1))
  qed
qed auto

lemma skip_whitespace_text:
  assumes "list_all is_ws w" and "r = [] \<or> \<not> is_ws (hd r)" and "lx_src lx = w @ r"
  shows "lx_src (skip_whitespace lx) = r"
  using skip_loop_ws [OF assms(1), of r "lx_line lx" "lx_col lx"] assms(2,3)
  by (auto simp: skip_whitespace_def skip_loop_stop split: prod.split)

lemma skip_whitespace_split:
  "\<exists>w. list_all is_ws w \<and> lx_src lx = w @ lx_src (skip_whitespace lx)"
  by (auto simp: skip_whitespace_def split: prod.split dest: skip_loop_split)

lemma tokenize_loop_complete:
  assumes "lexed s ts" and "lx_src lx = s" and "\<not> lx_has_error lx"
  shows "map token_pair (fst (tokenize_loop lx)) = ts \<and> \<not> lx_has_error (snd (tokenize_loop lx))"
  using assms
proof (induction s ts arbitrary: lx rule: lexed.induct)
  case (lexed_end w)
  then have "lx_src (skip_whitespace lx) = []"
    using skip_whitespace_text [of w "[]" lx] by simp
  then show ?case using lexed_end by (subst (1 2) tokenize_loop.simps) (simp add: Let_def)
next
  case (lexed_token w k l r ts)
  obtain c cs where head: "token_text k l = c # cs" "\<not> is_ws c"
    using token_text_head [OF lexed_token.hyps(2)] by blast
  let ?lx1 = "skip_whitespace lx"
  have src1: "lx_src ?lx1 = token_text k l @ r"
    using skip_whitespace_text [of w "token_text k l @ r" lx] lexed_token.hyps(1) lexed_token.prems head
    by simp
  obtain t lx2 where t: "scan_token ?lx1 = (t, lx2)" "token_pair t = (k, l)" "lx_src lx2 = r"
      "\<not> lx_has_error lx2"
    using scan_token_text [OF lexed_token.hyps(2,3) src1] lexed_token.prems by auto
  have "map token_pair (fst (tokenize_loop lx2)) = ts \<and> \<not> lx_has_error (snd (tokenize_loop lx2))"
    using lexed_token.IH t by simp
  with t src1 head lexed_token.prems show ?case
    by (subst (1 2) tokenize_loop.simps) (auto simp: Let_def split: prod.split)
qed

lemma tokenize_loop_sound:
  "\<not> lx_has_error lx \<Longrightarrow> \<not> lx_has_error (snd (tokenize_loop lx)) \<Longrightarrow>
   lexed (lx_src lx) (map token_pair (fst (tokenize_loop lx)))"
proof (induction lx rule: tokenize_loop.induct)
  case (1 lx)
  let ?lx1 = "skip_whitespace lx"
  obtain w where w: "list_all is_ws w" "lx_src lx = w @ lx_src ?lx1"
    using skip_whitespace_split by blast
  obtain t lx2 where t: "scan_token ?lx1 = (t, lx2)" by fastforce
  show ?case
  proof (cases "lx_src ?lx1 = []")
    case True
    then have "map token_pair (fst (tokenize_loop lx)) = []"
      by (subst tokenize_loop.simps) (simp add: Let_def)
    with True w show ?thesis by (simp add: lexed_end)
  next
    case False
    then have ne: "lx_src lx \<noteq> []" using w by simp
    have ok2: "\<not> lx_has_error lx2" and ok3: "\<not> lx_has_error (snd (tokenize_loop lx2))"
      using "1.prems" False ne t
      by (subst (asm) tokenize_loop.simps; auto simp: Let_def split: if_splits prod.splits)+
    have IH: "lexed (lx_src lx2) (map token_pair (fst (tokenize_loop lx2)))"
      using "1.IH" [OF _ refl False t [symmetric] ok2 ok2 ok3] "1.prems"(1) ne by simp
    obtain k l where kl: "token_pair t = (k, l)" by fastforce
    have "map token_pair (fst (tokenize_loop lx)) = (k, l) # map token_pair (fst (tokenize_loop lx2))"
      using False ne t kl ok2 "1.prems"(1)
      by (subst tokenize_loop.simps) (simp add: Let_def split: prod.split)
    moreover have "token_ok k l \<and> boundary k l (lx_src lx2) \<and> lx_src ?lx1 = token_text k l @ lx_src lx2"
      using scan_token_sound [OF t False ok2 kl] .
    ultimately show ?thesis
      using w IH lexed_token [of w k l "lx_src lx2"] by simp
  qed
qed

section \<open>The shape of the token vector\<close>

lemma scan_token_not_eof:
  assumes "scan_token lx = (t, lx')"
  shows "tok_kind t \<noteq> END_OF_FILE"
  using assms match_keyword_kinds_eq
  by (auto simp: scan_token_def scan_string_def scan_number_def scan_identifier_or_keyword_def
      Let_def punct_kind_def split: if_splits)

lemma tokenize_loop_not_eof: "t \<in> set (fst (tokenize_loop lx)) \<Longrightarrow> tok_kind t \<noteq> END_OF_FILE"
proof (induction lx rule: tokenize_loop.induct)
  case (1 lx)
  obtain t' lx2 where t': "scan_token (skip_whitespace lx) = (t', lx2)" by fastforce
  from "1.prems" consider "t = t'" | "lx_src lx \<noteq> []" "\<not> lx_has_error lx"
      "lx_src (skip_whitespace lx) \<noteq> []" "\<not> lx_has_error lx2" "t \<in> set (fst (tokenize_loop lx2))"
    by (subst (asm) tokenize_loop.simps) (auto simp: Let_def t' split: if_splits prod.splits)
  then show ?case
    using scan_token_not_eof [OF t'] "1.IH" [OF _ refl _ t' [symmetric]] by cases auto
qed

definition token_vector :: "token list \<Rightarrow> bool" where
  "token_vector ts \<longleftrightarrow> (\<exists>us e. ts = us @ [e] \<and> tok_kind e = END_OF_FILE
     \<and> (\<forall>u \<in> set us. tok_kind u \<noteq> END_OF_FILE))"

lemma tokenize_token_vector: "token_vector (fst (tokenize sql))"
proof (cases "sql = None \<or> c_str (the sql) = []")
  case True
  then show ?thesis
    by (cases sql) (auto simp: tokenize_def token_vector_def eof_token_def intro!: exI [of _ "[]"])
next
  case False
  then obtain s where s: "sql = Some s" "c_str s \<noteq> []" by auto
  obtain ts lx where ts: "tokenize_loop (lexer_start (c_str s)) = (ts, lx)" by fastforce
  then have "fst (tokenize sql) = ts @ [eof_token lx]" using s by (simp add: tokenize_def)
  moreover have "\<forall>u \<in> set ts. tok_kind u \<noteq> END_OF_FILE"
    using tokenize_loop_not_eof [of _ "lexer_start (c_str s)"] ts by auto
  ultimately show ?thesis by (auto simp: token_vector_def eof_token_def)
qed

section \<open>The error messages\<close>

lemma skip_whitespace_head:
  assumes "lx_src (skip_whitespace lx) = c # cs"
  shows "\<not> is_ws c"
proof -
  have "skip_loop s l k = (c # cs, l', k') \<Longrightarrow> \<not> is_ws c" for s l k l' k'
    by (induction s l k rule: skip_loop.induct) (auto simp: is_ws_def split: if_splits)
  then show ?thesis using assms by (auto simp: skip_whitespace_def split: prod.splits)
qed

lemma skip_whitespace_subset: "set (lx_src (skip_whitespace lx)) \<subseteq> set (lx_src lx)"
proof -
  obtain w where "lx_src lx = w @ lx_src (skip_whitespace lx)" using skip_whitespace_split by blast
  then have "set (lx_src lx) = set w \<union> set (lx_src (skip_whitespace lx))" by (metis set_append)
  then show ?thesis by blast
qed

lemma scan_token_subset: "scan_token lx = (t, lx') \<Longrightarrow> set (lx_src lx') \<subseteq> set (lx_src lx)"
  by (auto simp: scan_token_def scan_string_def scan_number_def scan_identifier_or_keyword_def skip_chars_def Let_def
      dest!: in_set_dropD split: option.splits if_splits)

lemma scan_token_error:
  assumes "scan_token lx = (t, lx')" and "lx_src lx = c # cs" and "\<not> is_ws c" and "c \<noteq> NUL"
    and "\<not> lx_has_error lx" and "lx_has_error lx'"
  shows "lx_error_msg lx' \<noteq> [] \<and> short (lx_error_msg lx')"
proof (cases "c = DQUOTE")
  case True
  then show ?thesis
    using assms by (auto simp: scan_token_def cur_char_def DQUOTE_class scan_string_def skip_chars_def Let_def
        short_constant split: if_splits)
next
  case False
  have "c_str (''Unexpected character: '' @ squote [c]) = ''Unexpected character: '' @ squote [c]"
    using assms(4) by (intro c_str_id) (simp add: squote_def)
  moreover have "short (''Unexpected character: '' @ squote [c])"
    using assms(3,4) False by (intro short_constant) (auto simp: is_ws_def squote_def)
  ultimately show ?thesis
    using False assms(1,2,5,6)
    by (auto simp: scan_token_def cur_char_def scan_number_def scan_identifier_or_keyword_def skip_chars_def Let_def
        split: option.splits if_splits)
qed

lemma tokenize_loop_error:
  "\<not> lx_has_error lx \<Longrightarrow> NUL \<notin> set (lx_src lx) \<Longrightarrow> lx_has_error (snd (tokenize_loop lx)) \<Longrightarrow>
   lx_error_msg (snd (tokenize_loop lx)) \<noteq> [] \<and> short (lx_error_msg (snd (tokenize_loop lx)))"
proof (induction lx rule: tokenize_loop.induct)
  case (1 lx)
  let ?lx1 = "skip_whitespace lx"
  obtain t lx2 where t: "scan_token ?lx1 = (t, lx2)" by fastforce
  have src: "lx_src lx \<noteq> []" "lx_src ?lx1 \<noteq> []"
    using "1.prems" by (subst (asm) tokenize_loop.simps; auto simp: Let_def split: if_splits)+
  then obtain c cs where c: "lx_src ?lx1 = c # cs" by (cases "lx_src ?lx1") auto
  then have "\<not> is_ws c" "c \<noteq> NUL"
    using skip_whitespace_head [OF c] skip_whitespace_subset [of lx] "1.prems"(2) by auto
  note error = scan_token_error [OF t c this]
  show ?case
  proof (cases "lx_has_error lx2")
    case True
    then have "snd (tokenize_loop lx) = lx2"
      using src "1.prems"(1) t by (subst tokenize_loop.simps) (simp add: Let_def)
    then show ?thesis using error True "1.prems"(1) by simp
  next
    case False
    have "NUL \<notin> set (lx_src lx2)"
      using scan_token_subset [OF t] skip_whitespace_subset [of lx] "1.prems"(2) by blast
    moreover have "snd (tokenize_loop lx) = snd (tokenize_loop lx2)"
      using src False "1.prems"(1) t by (subst tokenize_loop.simps) (simp add: Let_def split: prod.split)
    ultimately show ?thesis
      using "1.IH" [OF _ refl src(2) t [symmetric]] False "1.prems" src(1) by simp
  qed
qed

lemma tokenize_error:
  assumes "lx_has_error (snd (tokenize sql))"
  shows "lx_error_msg (snd (tokenize sql)) \<noteq> [] \<and> short (lx_error_msg (snd (tokenize sql)))"
proof -
  obtain s where s: "sql = Some s" "c_str s \<noteq> []"
    using assms by (cases sql) (auto simp: tokenize_def lexer_start_def split: if_splits)
  then have "snd (tokenize sql) = snd (tokenize_loop (lexer_start (c_str s)))"
    by (simp add: tokenize_def split: prod.split)
  with assms tokenize_loop_error [of "lexer_start (c_str s)"] show ?thesis by (simp add: lexer_start_def)
qed

section \<open>Integer literals and keywords\<close>

lemma horner_digits_mono: "0 \<le> v \<Longrightarrow> v \<le> horner_digits v ds"
proof (induction v ds rule: horner_digits.induct)
  case (2 v c cs)
  have "is_digit c \<Longrightarrow> 0 \<le> digit_val c" by (rule digit_val_nonneg)
  with 2 show ?case by (cases "is_digit c") force+
qed simp

lemma number_loop_exact:
  "0 \<le> v \<Longrightarrow> horner_digits v ds < 2 ^ 31 \<Longrightarrow> number_loop v ds = horner_digits v ds"
proof (induction v ds rule: number_loop.induct)
  case (2 v c cs)
  show ?case
  proof (cases "is_digit c")
    case True
    have d: "0 \<le> digit_val c" using True by (rule digit_val_nonneg)
    have h: "horner_digits (10 * v + digit_val c) cs < 2 ^ 31" using "2.prems" True by simp
    have "10 * v + digit_val c \<le> horner_digits (10 * v + digit_val c) cs"
      using "2.prems" d by (intro horner_digits_mono) simp
    with h have lt: "10 * v + digit_val c < 2 ^ 31" by linarith
    have i1: "in_int32 (v * 10)" and i2: "in_int32 (v * 10 + digit_val c)"
      using lt d "2.prems"(1) by (simp_all add: in_int32_def)
    have eq: "wrap32 (wrap32 (v * 10) + digit_val c) = 10 * v + digit_val c"
      using wrap32_id [OF i1] wrap32_id [OF i2] by simp
    have "number_loop (wrap32 (wrap32 (v * 10) + digit_val c)) cs
        = horner_digits (wrap32 (wrap32 (v * 10) + digit_val c)) cs"
      unfolding eq using True "2.prems"(1) d h by (intro "2.IH" [unfolded eq]) auto
    with True show ?thesis by (simp only: number_loop.simps horner_digits.simps eq if_True)
  qed simp
qed simp

lemma str_eq_ci_iff: "str_eq_ci s kw \<longleftrightarrow> map ascii_upper s = map ascii_upper kw"
  by (auto simp: str_eq_ci_def char_eq_ci_def list_all2_conv_all_nth list_eq_iff_nth_eq)

lemma ascii_upper_name [lex_simps]:
  "map ascii_upper ''create'' = ''CREATE''" "map ascii_upper ''database'' = ''DATABASE''"
  "map ascii_upper ''drop'' = ''DROP''" "map ascii_upper ''use'' = ''USE''"
  "map ascii_upper ''table'' = ''TABLE''" "map ascii_upper ''select'' = ''SELECT''"
  "map ascii_upper ''from'' = ''FROM''" "map ascii_upper ''where'' = ''WHERE''"
  "map ascii_upper ''delete'' = ''DELETE''" "map ascii_upper ''insert'' = ''INSERT''"
  "map ascii_upper ''into'' = ''INTO''" "map ascii_upper ''values'' = ''VALUES''"
  "map ascii_upper ''update'' = ''UPDATE''" "map ascii_upper ''set'' = ''SET''"
  "map ascii_upper ''primary'' = ''PRIMARY''" "map ascii_upper ''int'' = ''INT''"
  "map ascii_upper ''string'' = ''STRING''"
  by code_simp+

definition keyword_kinds :: "token_kind list" where
  "keyword_kinds = [KW_CREATE, KW_DATABASE, KW_DROP, KW_USE, KW_TABLE, KW_SELECT, KW_FROM, KW_WHERE,
     KW_DELETE, KW_INSERT, KW_INTO, KW_VALUES, KW_UPDATE, KW_SET, KW_PRIMARY, KW_INT, KW_STRING]"

section \<open>Properties\<close>

lemma tokenize_accepts:
  assumes "lexed (c_str s) ps"
  shows "\<exists>ts e lx. tokenize (Some s) = (ts @ [e], lx) \<and> \<not> lx_has_error lx \<and> tok_kind e = END_OF_FILE
    \<and> map token_pair ts = ps"
proof -
  have "map token_pair (fst (tokenize_loop (lexer_start (c_str s)))) = ps
      \<and> \<not> lx_has_error (snd (tokenize_loop (lexer_start (c_str s))))"
    using tokenize_loop_complete [OF assms] by (simp add: lexer_start_def)
  moreover have "tokenize_loop (lexer_start []) = ([], lexer_start [])"
    by (subst tokenize_loop.simps) (simp add: lexer_start_def)
  ultimately show ?thesis
    by (auto simp: tokenize_def eof_token_def lexer_start_def split: prod.split)
qed

lemma tokenize_sound:
  assumes "tokenize (Some s) = (ts @ [e], lx)" and "\<not> lx_has_error lx"
  shows "lexed (c_str s) (map token_pair ts)"
proof (cases "c_str s = []")
  case True
  then show ?thesis using assms by (simp add: tokenize_def lexed_Nil_iff)
next
  case False
  then have "tokenize_loop (lexer_start (c_str s)) = (ts, lx)"
    using assms(1) by (auto simp: tokenize_def split: prod.splits)
  then show ?thesis
    using tokenize_loop_sound [of "lexer_start (c_str s)"] assms(2) by (simp add: lexer_start_def)
qed

text \<open>C13. The lexer decides the lexical grammar: it ends without an error, with an end-of-file
  token last, exactly on the texts of the grammar (white space, words read to their end,
  digits, quoted texts, punctuation), and its other tokens are the tokens of the text.\<close>

theorem tokenize_decides_grammar:
  "lexed (c_str s) ps \<longleftrightarrow>
     (\<exists>ts e lx. tokenize (Some s) = (ts @ [e], lx) \<and> \<not> lx_has_error lx \<and> tok_kind e = END_OF_FILE
        \<and> map token_pair ts = ps)"
  using tokenize_accepts tokenize_sound by blast

text \<open>Whatever the text, the token vector ends with an end-of-file token, which occurs nowhere
  else: what the parser's unchecked reads rest on.\<close>

lemma tokenize_ends_with_eof:
  "\<exists>ts e lx. tokenize sql = (ts @ [e], lx) \<and> tok_kind e = END_OF_FILE \<and> END_OF_FILE \<notin> tok_kind ` set ts"
  using tokenize_token_vector [of sql] by (cases "tokenize sql") (force simp: token_vector_def)

lemma find_case_Cons:
  "(case find P (x # xs) of None \<Rightarrow> d | Some k \<Rightarrow> k) = (if P x then x else (case find P xs of None \<Rightarrow> d | Some k \<Rightarrow> k))"
  by simp

text \<open>Keywords are recognised in any mixture of cases, and nothing else is: a word is the
  keyword whose name its upper-case form is, or an identifier.\<close>

lemma keywords_ignore_case:
  "match_keyword s =
     (case find (\<lambda>k. map ascii_upper s = token_kind_name k) keyword_kinds of None \<Rightarrow> IDENTIFIER | Some k \<Rightarrow> k)"
  by (simp only: match_keyword_def str_eq_ci_iff ascii_upper_name keyword_kinds_def find_case_Cons
      find.simps(1) option.case(1) token_kind_name.simps)

text \<open>Integer literals: on digits followed by something else, \<open>scan_number\<close> takes all the
  digits and no more, and its value is the number they denote, as long as that fits an
  \<open>int\<close>.\<close>

lemma scan_number_value:
  assumes "ds \<noteq> []" and "list_all is_digit ds" and "r = [] \<or> \<not> is_digit (hd r)"
    and "horner_digits 0 ds < 2 ^ 31" and "lx_src lx = ds @ r"
  shows "\<exists>t lx'. scan_number lx = (t, lx') \<and> tok_kind t = INT_LITERAL \<and> tok_lexeme t = ds
    \<and> tok_int_value t = horner_digits 0 ds \<and> lx_src lx' = r \<and> lx_col lx' = lx_col lx + length ds"
proof -
  have tw: "takeWhile is_digit (ds @ r) = ds"
    using assms(2,3) by (cases r) (auto simp: list_all_iff)
  have "horner_digits 0 (ds @ r) = horner_digits 0 ds"
    using assms(2,3) by (cases r) (auto simp: horner_digits_append list_all_iff)
  then have "number_loop 0 (ds @ r) = horner_digits 0 ds"
    using number_loop_exact [of 0 "ds @ r"] assms(4) by simp
  then show ?thesis using assms(5) tw by (simp add: scan_number_def skip_chars_def Let_def token_default_def)
qed

lemma scan_number_value_witness:
  "tok_int_value (fst (scan_number (lexer_start ''407)''))) = 407"
  using scan_number_value [of "''407''" "'')''" "lexer_start ''407)''"]
  by (auto simp: lexer_start_def is_digit_def digit_val_def)

end
