(* ===== verification/Ast.thy ===== *)
theory Ast
  imports C_Library
begin

text \<open>
  The abstract syntax (src/parser/ast.hpp, ast.cpp). \<open>SQLStatement\<close> holds one structure per
  statement kind of which exactly the one selected by \<open>kind\<close> is valid: a datatype with one
  constructor per kind. \<open>error_msg\<close> belongs to the kind INVALID.
\<close>

record column_def =
  cd_name :: string
  cd_type :: string
  cd_is_primary :: bool

definition column_def_empty :: column_def where
  "column_def_empty = \<lparr>cd_name = [], cd_type = [], cd_is_primary = False\<rparr>"

record where_clause =
  wc_column :: string
  wc_op :: string
  wc_const_value :: string
  wc_is_int_literal :: bool

definition where_empty :: where_clause where
  "where_empty = \<lparr>wc_column = [], wc_op = [], wc_const_value = [], wc_is_int_literal = False\<rparr>"

record create_table_stmt =
  ct_table_name :: string
  ct_columns :: "column_def list"

text \<open>\<open>has_where\<close> and \<open>where\<close> are one optional clause.\<close>

record select_stmt =
  sel_column_name :: string
  sel_table_name :: string
  sel_where :: "where_clause option"

record delete_stmt =
  del_table_name :: string
  del_where :: "where_clause option"

record insert_stmt =
  ins_table_name :: string
  ins_values :: "string list"
  ins_is_int :: "bool list"

record update_stmt =
  upd_table_name :: string
  upd_set_column :: string
  upd_set_value :: string
  upd_set_is_int :: bool
  upd_where :: "where_clause option"

datatype sql_statement =
  CREATE_DATABASE string
| DROP_DATABASE string
| USE string
| CREATE_TABLE create_table_stmt
| DROP_TABLE string
| SELECT select_stmt
| DELETE delete_stmt
| INSERT insert_stmt
| UPDATE update_stmt
| INVALID string

fun stmt_kind_name :: "sql_statement \<Rightarrow> string" where
  "stmt_kind_name (CREATE_DATABASE n) = ''CREATE DATABASE''"
| "stmt_kind_name (DROP_DATABASE n) = ''DROP DATABASE''"
| "stmt_kind_name (USE n) = ''USE''"
| "stmt_kind_name (CREATE_TABLE s) = ''CREATE TABLE''"
| "stmt_kind_name (DROP_TABLE n) = ''DROP TABLE''"
| "stmt_kind_name (SELECT s) = ''SELECT''"
| "stmt_kind_name (DELETE s) = ''DELETE''"
| "stmt_kind_name (INSERT s) = ''INSERT''"
| "stmt_kind_name (UPDATE s) = ''UPDATE''"
| "stmt_kind_name (INVALID e) = ''INVALID''"

fun is_invalid :: "sql_statement \<Rightarrow> bool" where
  "is_invalid (INVALID e) = True"
| "is_invalid _ = False"

text \<open>
  What the executor relies on: the two parallel vectors of an INSERT have one length, and a
  USE or DROP DATABASE names a database.
\<close>

fun stmt_wf :: "sql_statement \<Rightarrow> bool" where
  "stmt_wf (INSERT s) = (length (ins_values s) = length (ins_is_int s))"
| "stmt_wf (DROP_DATABASE n) = (n \<noteq> [])"
| "stmt_wf (USE n) = (n \<noteq> [])"
| "stmt_wf _ = True"

text \<open>The literals of a statement. The parser takes a missing literal for the empty text.\<close>

definition where_literals :: "where_clause option \<Rightarrow> (string \<times> bool) list" where
  "where_literals w = (case w of None \<Rightarrow> [] | Some wc \<Rightarrow> [(wc_const_value wc, wc_is_int_literal wc)])"

fun stmt_literals :: "sql_statement \<Rightarrow> (string \<times> bool) list" where
  "stmt_literals (SELECT s) = where_literals (sel_where s)"
| "stmt_literals (DELETE s) = where_literals (del_where s)"
| "stmt_literals (INSERT s) = zip (ins_values s) (ins_is_int s)"
| "stmt_literals (UPDATE s) = (upd_set_value s, upd_set_is_int s) # where_literals (upd_where s)"
| "stmt_literals _ = []"

lemma where_literals_simps [simp]:
  "where_literals None = []" "where_literals (Some wc) = [(wc_const_value wc, wc_is_int_literal wc)]"
  by (simp_all add: where_literals_def)

end
