(* ===== verification/Parser.thy ===== *)
theory Parser
  imports Lexer_Spec Ast
begin

text \<open>
  The recursive-descent parser (src/parser/parser.hpp, parser.cpp). Its cursor
  \<open>(*_tokens)[_pos]\<close> is the suffix of the token vector at \<open>_pos\<close>; \<open>peek\<close> and \<open>advance\<close>
  do not check the bound in the source, so at the empty suffix they are undefined (\<open>None\<close>).
  A sub-parser maps a suffix to its result and the suffix it leaves. An early
  \<open>return make_error(...)\<close> is the statement INVALID.
\<close>

type_synonym 'a parser = "token list \<Rightarrow> ('a \<times> token list) option"

section \<open>Helpers\<close>

definition peek :: "token list \<Rightarrow> token option" where
  "peek ts = vec_at ts 0"

definition advance :: "token parser" where
  "advance ts = do { t \<leftarrow> vec_at ts 0; Some (t, drop 1 ts) }"

definition is_at_end :: "token list \<Rightarrow> bool option" where
  "is_at_end ts = do { t \<leftarrow> peek ts; Some (tok_kind t = END_OF_FILE) }"

definition check :: "token_kind \<Rightarrow> token list \<Rightarrow> bool option" where
  "check k ts = do {
     e \<leftarrow> is_at_end ts;
     if e then Some False else do { t \<leftarrow> peek ts; Some (tok_kind t = k) }
   }"

text \<open>\<open>expect\<close> (never called in the program).\<close>

definition expect :: "token_kind \<Rightarrow> token parser" where
  "expect k ts = do {
     b \<leftarrow> check k ts;
     if b then advance ts else do { _ \<leftarrow> peek ts; Some (token_default, ts) }
   }"

definition error_text :: "string \<Rightarrow> token \<Rightarrow> string" where
  "error_text msg t = snprintf 512 (''Line '' @ show_nat (tok_line t) @ '':'' @ show_nat (tok_column t)
     @ '': '' @ msg)"

definition make_error :: "string \<Rightarrow> sql_statement parser" where
  "make_error msg ts = do { t \<leftarrow> peek ts; Some (INVALID (error_text msg t), ts) }"

text \<open>
  The two idioms of every statement parser:
  \<open>if (!check(k)) return make_error(msg); advance();\<close> and
  \<open>if (check(SEMICOLON)) advance();\<close>.
\<close>

definition require :: "token_kind \<Rightarrow> string \<Rightarrow> (token \<Rightarrow> sql_statement parser) \<Rightarrow> sql_statement parser" where
  "require k msg cont ts = do {
     b \<leftarrow> check k ts;
     if \<not> b then make_error msg ts else do { (t, ts) \<leftarrow> advance ts; cont t ts }
   }"

definition finish :: "sql_statement \<Rightarrow> sql_statement parser" where
  "finish stmt ts = do {
     b \<leftarrow> check SEMICOLON ts;
     if b then do { (_, ts) \<leftarrow> advance ts; Some (stmt, ts) } else Some (stmt, ts)
   }"

section \<open>Values, WHERE clauses and column definitions\<close>

text \<open>The literal and the \<open>is_int\<close> flag. Where no literal follows nothing is consumed.\<close>

definition parse_value_string :: "(string \<times> bool) parser" where
  "parse_value_string ts = do {
     b \<leftarrow> check INT_LITERAL ts;
     if b then do { (t, ts) \<leftarrow> advance ts; Some ((tok_lexeme t, True), ts) }
     else do {
       b \<leftarrow> check STRING_LITERAL ts;
       if b then do { (t, ts) \<leftarrow> advance ts; Some ((tok_lexeme t, False), ts) }
       else Some (([], False), ts)
     }
   }"

definition parse_where_clause :: "where_clause parser" where
  "parse_where_clause ts = do {
     (_, ts) \<leftarrow> advance ts;
     b \<leftarrow> check IDENTIFIER ts;
     if \<not> b then Some (where_empty, ts)
     else do {
       (col_tok, ts) \<leftarrow> advance ts;
       eq \<leftarrow> check OP_EQ ts;
       lt \<leftarrow> check OP_LT ts;
       gt \<leftarrow> check OP_GT ts;
       if \<not> eq \<and> \<not> lt \<and> \<not> gt then Some (where_empty, ts)
       else do {
         (op_tok, ts) \<leftarrow> advance ts;
         ((v, is_int), ts) \<leftarrow> parse_value_string ts;
         Some (\<lparr>wc_column = tok_lexeme col_tok, wc_op = tok_lexeme op_tok, wc_const_value = v,
                wc_is_int_literal = is_int\<rparr>, ts)
       }
     }
   }"

text \<open>The common end of SELECT, DELETE and UPDATE.\<close>

definition where_tail :: "(where_clause option \<Rightarrow> sql_statement) \<Rightarrow> sql_statement parser" where
  "where_tail mk ts = do {
     b \<leftarrow> check KW_WHERE ts;
     if b then do {
       (wc, ts) \<leftarrow> parse_where_clause ts;
       if wc_column wc \<noteq> [] then finish (mk (Some wc)) ts
       else Some (INVALID ''Error parsing WHERE clause'', ts)
     }
     else finish (mk None) ts
   }"

definition parse_column_def :: "column_def parser" where
  "parse_column_def ts = do {
     b \<leftarrow> check IDENTIFIER ts;
     if \<not> b then Some (column_def_empty, ts)
     else do {
       (name_tok, ts) \<leftarrow> advance ts;
       i \<leftarrow> check KW_INT ts;
       s \<leftarrow> check KW_STRING ts;
       if \<not> i \<and> \<not> s then Some (column_def_empty, ts)
       else do {
         (type_tok, ts) \<leftarrow> advance ts;
         p \<leftarrow> check KW_PRIMARY ts;
         if p then do {
           (_, ts) \<leftarrow> advance ts;
           Some (\<lparr>cd_name = tok_lexeme name_tok, cd_type = tok_lexeme type_tok, cd_is_primary = True\<rparr>, ts)
         }
         else Some (\<lparr>cd_name = tok_lexeme name_tok, cd_type = tok_lexeme type_tok, cd_is_primary = False\<rparr>, ts)
       }
     }
   }"

section \<open>The two list loops\<close>

lemma peek_Cons [parse_simps]: "peek (t # ts) = Some t" and peek_Nil [parse_simps]: "peek [] = None"
  by (simp_all add: peek_def vec_at_def)

lemma advance_Cons [parse_simps]: "advance (t # ts) = Some (t, ts)"
  and advance_Nil [parse_simps]: "advance [] = None"
  by (simp_all add: advance_def vec_at_def)

lemma check_Cons [parse_simps]: "check k (t # ts) = Some (tok_kind t = k \<and> k \<noteq> END_OF_FILE)"
  and check_Nil [parse_simps]: "check k [] = None"
  by (auto simp: check_def is_at_end_def parse_simps)

lemma make_error_Cons [parse_simps]: "make_error msg (t # ts) = Some (INVALID (error_text msg t), t # ts)"
  by (simp add: make_error_def parse_simps)

lemma require_Cons [parse_simps]:
  "k \<noteq> END_OF_FILE \<Longrightarrow> require k msg cont (t # ts) =
     (if tok_kind t = k then cont t ts else Some (INVALID (error_text msg t), t # ts))"
  by (simp add: require_def parse_simps)

lemma finish_Cons [parse_simps]:
  "finish stmt (t # ts) = Some (stmt, if tok_kind t = SEMICOLON then ts else t # ts)"
  by (simp add: finish_def parse_simps)

lemma parse_value_string_shrinks:
  "parse_value_string ts = Some (x, ts') \<Longrightarrow> length ts' \<le> length ts"
  by (cases ts) (auto simp: parse_value_string_def parse_simps split: if_splits)

lemma parse_column_def_shrinks:
  "parse_column_def ts = Some (x, ts') \<Longrightarrow> length ts' \<le> length ts"
  by (cases ts; cases "tl ts"; cases "tl (tl ts)")
    (auto simp: parse_column_def_def parse_simps split: if_splits)

text \<open>The loops return the early error on the left.\<close>

function parse_columns :: "column_def list \<Rightarrow> (sql_statement + column_def list) parser" where
  "parse_columns acc ts = do {
     (col, ts) \<leftarrow> parse_column_def ts;
     if cd_name col = [] then do {
       (e, ts) \<leftarrow> make_error ''Expected column name in CREATE TABLE'' ts; Some (Inl e, ts)
     }
     else do {
       r \<leftarrow> check RPAREN ts;
       if r then do { (_, ts) \<leftarrow> advance ts; Some (Inr (acc @ [col]), ts) }
       else do {
         c \<leftarrow> check COMMA ts;
         if c then do { (_, ts) \<leftarrow> advance ts; parse_columns (acc @ [col]) ts }
         else do {
           (e, ts) \<leftarrow> make_error (''Expected '' @ squote '','' @ '' or '' @ squote '')'' @ '' in column list'') ts;
           Some (Inl e, ts)
         }
       }
     }
   }"
  by pat_completeness auto
termination
proof (relation "measure (\<lambda>(acc, ts). length ts)", simp, goal_cases)
  case (1 acc ts p col ts1 r c q t ts2)
  then have "length ts2 < length ts1"
    by (cases ts1) (auto simp: parse_simps)
  then show ?case using 1 parse_column_def_shrinks [of ts col ts1] by simp
qed

function parse_values :: "(string \<times> bool) list \<Rightarrow> (sql_statement + (string \<times> bool) list) parser" where
  "parse_values acc ts = do {
     (v, ts) \<leftarrow> parse_value_string ts;
     r \<leftarrow> check RPAREN ts;
     if r then do { (_, ts) \<leftarrow> advance ts; Some (Inr (acc @ [v]), ts) }
     else do {
       c \<leftarrow> check COMMA ts;
       if c then do { (_, ts) \<leftarrow> advance ts; parse_values (acc @ [v]) ts }
       else do {
         (e, ts) \<leftarrow> make_error (''Expected '' @ squote '','' @ '' or '' @ squote '')'' @ '' in VALUES list'') ts;
         Some (Inl e, ts)
       }
     }
   }"
  by pat_completeness auto
termination
proof (relation "measure (\<lambda>(acc, ts). length ts)", simp, goal_cases)
  case (1 acc ts p v ts1 r c q t ts2)
  then have "length ts2 < length ts1"
    by (cases ts1) (auto simp: parse_simps)
  then show ?case using 1 parse_value_string_shrinks [of ts v ts1] by simp
qed

declare parse_columns.simps [simp del] parse_values.simps [simp del]

section \<open>Statements\<close>

text \<open>What follows the opening parenthesis, and the \<open>=\<close> of an UPDATE.\<close>

definition create_table_body :: "string \<Rightarrow> sql_statement parser" where
  "create_table_body name ts = do {
     e \<leftarrow> check RPAREN ts;
     if e then make_error ''Expected at least one column definition in CREATE TABLE'' ts
     else do {
       (res, ts) \<leftarrow> parse_columns [] ts;
       case res of
         Inl err \<Rightarrow> Some (err, ts)
       | Inr cols \<Rightarrow>
           if length (filter cd_is_primary cols) > 1
           then make_error ''Only one primary key column is allowed per table'' ts
           else finish (CREATE_TABLE \<lparr>ct_table_name = name, ct_columns = cols\<rparr>) ts
     }
   }"

definition insert_body :: "string \<Rightarrow> sql_statement parser" where
  "insert_body name ts = do {
     e \<leftarrow> check RPAREN ts;
     if e then make_error ''Expected at least one value in INSERT VALUES'' ts
     else do {
       (res, ts) \<leftarrow> parse_values [] ts;
       case res of
         Inl err \<Rightarrow> Some (err, ts)
       | Inr vs \<Rightarrow> finish (INSERT \<lparr>ins_table_name = name, ins_values = map fst vs,
           ins_is_int = map snd vs\<rparr>) ts
     }
   }"

definition update_body :: "string \<Rightarrow> string \<Rightarrow> sql_statement parser" where
  "update_body name col ts = do {
     ((v, is_int), ts) \<leftarrow> parse_value_string ts;
     where_tail (\<lambda>w. UPDATE \<lparr>upd_table_name = name, upd_set_column = col,
       upd_set_value = v, upd_set_is_int = is_int, upd_where = w\<rparr>) ts
   }"

definition parse_create :: "sql_statement parser" where
  "parse_create ts = do {
     (_, ts) \<leftarrow> advance ts;
     d \<leftarrow> check KW_DATABASE ts;
     t \<leftarrow> check KW_TABLE ts;
     if \<not> d \<and> \<not> t
     then make_error (''Expected '' @ squote ''DATABASE'' @ '' or '' @ squote ''TABLE'' @ '' after '' @ squote ''CREATE'') ts
     else if d then do {
       (_, ts) \<leftarrow> advance ts;
       require IDENTIFIER (''Expected database name after '' @ squote ''CREATE DATABASE'')
         (\<lambda>name_tok. finish (CREATE_DATABASE (tok_lexeme name_tok))) ts
     }
     else do {
       (_, ts) \<leftarrow> advance ts;
       require IDENTIFIER (''Expected table name after '' @ squote ''CREATE TABLE'') (\<lambda>table_tok.
       require LPAREN (''Expected '' @ squote ''('' @ '' after table name in CREATE TABLE'') (\<lambda>_.
       create_table_body (tok_lexeme table_tok))) ts
     }
   }"

definition parse_drop :: "sql_statement parser" where
  "parse_drop ts = do {
     (_, ts) \<leftarrow> advance ts;
     d \<leftarrow> check KW_DATABASE ts;
     t \<leftarrow> check KW_TABLE ts;
     if \<not> d \<and> \<not> t
     then make_error (''Expected '' @ squote ''DATABASE'' @ '' or '' @ squote ''TABLE'' @ '' after '' @ squote ''DROP'') ts
     else if d then do {
       (_, ts) \<leftarrow> advance ts;
       require IDENTIFIER (''Expected database name after '' @ squote ''DROP DATABASE'')
         (\<lambda>name_tok. finish (DROP_DATABASE (tok_lexeme name_tok))) ts
     }
     else do {
       (_, ts) \<leftarrow> advance ts;
       require IDENTIFIER (''Expected table name after '' @ squote ''DROP TABLE'')
         (\<lambda>table_tok. finish (DROP_TABLE (tok_lexeme table_tok))) ts
     }
   }"

definition parse_use :: "sql_statement parser" where
  "parse_use ts = do {
     (_, ts) \<leftarrow> advance ts;
     require IDENTIFIER (''Expected database name after '' @ squote ''USE'')
       (\<lambda>name_tok. finish (USE (tok_lexeme name_tok))) ts
   }"

definition parse_select :: "sql_statement parser" where
  "parse_select ts = do {
     (_, ts) \<leftarrow> advance ts;
     i \<leftarrow> check IDENTIFIER ts;
     s \<leftarrow> check OP_STAR ts;
     if \<not> i \<and> \<not> s then make_error (''Expected column name or '' @ squote ''*'' @ '' after SELECT'') ts
     else do {
       (col_tok, ts) \<leftarrow> advance ts;
       require KW_FROM (''Expected '' @ squote ''FROM'' @ '' after column in SELECT'') (\<lambda>_.
       require IDENTIFIER (''Expected table name after '' @ squote ''FROM'') (\<lambda>table_tok.
       where_tail (\<lambda>w. SELECT \<lparr>sel_column_name = tok_lexeme col_tok,
         sel_table_name = tok_lexeme table_tok, sel_where = w\<rparr>))) ts
     }
   }"

definition parse_delete :: "sql_statement parser" where
  "parse_delete ts = do {
     (_, ts) \<leftarrow> advance ts;
     require KW_FROM (''Expected '' @ squote ''FROM'' @ '' after '' @ squote ''DELETE'') (\<lambda>_.
     require IDENTIFIER (''Expected table name after '' @ squote ''DELETE FROM'') (\<lambda>table_tok.
     where_tail (\<lambda>w. DELETE \<lparr>del_table_name = tok_lexeme table_tok, del_where = w\<rparr>))) ts
   }"

definition parse_insert :: "sql_statement parser" where
  "parse_insert ts = do {
     (_, ts) \<leftarrow> advance ts;
     require KW_INTO (''Expected '' @ squote ''INTO'' @ '' after '' @ squote ''INSERT'') (\<lambda>_.
     require IDENTIFIER (''Expected table name after '' @ squote ''INSERT INTO'') (\<lambda>table_tok.
     require KW_VALUES (''Expected '' @ squote ''VALUES'' @ '' after table name in INSERT'') (\<lambda>_.
     require LPAREN (''Expected '' @ squote ''('' @ '' after '' @ squote ''VALUES'') (\<lambda>_.
     insert_body (tok_lexeme table_tok))))) ts
   }"

definition parse_update :: "sql_statement parser" where
  "parse_update ts = do {
     (_, ts) \<leftarrow> advance ts;
     require IDENTIFIER (''Expected table name after '' @ squote ''UPDATE'') (\<lambda>table_tok.
     require KW_SET (''Expected '' @ squote ''SET'' @ '' after table name in UPDATE'') (\<lambda>_.
     require IDENTIFIER (''Expected column name after '' @ squote ''SET'') (\<lambda>col_tok.
     require OP_EQ (''Expected '' @ squote ''='' @ '' after column name in SET clause'') (\<lambda>_.
     update_body (tok_lexeme table_tok) (tok_lexeme col_tok))))) ts
   }"

definition parse_statement :: "sql_statement parser" where
  "parse_statement ts = do {
     e \<leftarrow> is_at_end ts;
     if e then make_error ''Empty input, expected an SQL statement'' ts
     else do {
       t \<leftarrow> peek ts;
       case tok_kind t of
         KW_CREATE \<Rightarrow> parse_create ts
       | KW_DROP \<Rightarrow> parse_drop ts
       | KW_USE \<Rightarrow> parse_use ts
       | KW_SELECT \<Rightarrow> parse_select ts
       | KW_DELETE \<Rightarrow> parse_delete ts
       | KW_INSERT \<Rightarrow> parse_insert ts
       | KW_UPDATE \<Rightarrow> parse_update ts
       | _ \<Rightarrow> make_error ''Unexpected token, expected a SQL statement keyword'' ts
     }
   }"

text \<open>\<open>Parser::parse(const Vector<Token>&)\<close> and \<open>Parser::parse(const char*)\<close>.\<close>

definition parse_tokens :: "token list \<Rightarrow> sql_statement option" where
  "parse_tokens ts = map_option fst (parse_statement ts)"

definition parse_sql :: "string option \<Rightarrow> sql_statement option" where
  "parse_sql sql =
     (case tokenize sql of
        (ts, lx) \<Rightarrow> if lx_has_error lx then Some (INVALID (lx_error_msg lx)) else parse_tokens ts)"

end
