(* ===== verification/Parser_Props.thy ===== *)
theory Parser_Props
  imports Parser
begin

text \<open>
  The parser on the token vectors of the lexer: no read past the vector, the form of every
  statement it returns (\<open>stmt_ok\<close>, and \<open>stmt_form\<close> where the text may be known to hold no text
  literal), the messages of its errors, and the canonical token sequence of a statement
  (\<open>stmt_tokens\<close>) from which it returns that statement, whatever the letter case of the
  keywords and whatever follows.
\<close>

section \<open>Well-formed statements\<close>

definition ident :: "string \<Rightarrow> bool" where
  "ident n \<longleftrightarrow> word n \<and> match_keyword n = IDENTIFIER"

definition literal_ok :: "string \<Rightarrow> bool \<Rightarrow> bool" where
  "literal_ok v is_int \<longleftrightarrow>
     (if is_int then v \<noteq> [] \<and> list_all is_digit v else DQUOTE \<notin> set v \<and> NUL \<notin> set v)"

definition type_ok :: "string \<Rightarrow> bool" where
  "type_ok t \<longleftrightarrow> word t \<and> match_keyword t \<in> {KW_INT, KW_STRING}"

definition column_ok :: "column_def \<Rightarrow> bool" where
  "column_ok c \<longleftrightarrow> ident (cd_name c) \<and> type_ok (cd_type c)"

definition where_ok :: "where_clause \<Rightarrow> bool" where
  "where_ok w \<longleftrightarrow> ident (wc_column w) \<and> wc_op w \<in> {''='', ''<'', ''>''}
     \<and> literal_ok (wc_const_value w) (wc_is_int_literal w)"

fun stmt_ok :: "sql_statement \<Rightarrow> bool" where
  "stmt_ok (CREATE_DATABASE n) = ident n"
| "stmt_ok (DROP_DATABASE n) = ident n"
| "stmt_ok (USE n) = ident n"
| "stmt_ok (CREATE_TABLE s) = (ident (ct_table_name s) \<and> ct_columns s \<noteq> []
     \<and> list_all column_ok (ct_columns s) \<and> length (filter cd_is_primary (ct_columns s)) \<le> 1)"
| "stmt_ok (DROP_TABLE n) = ident n"
| "stmt_ok (SELECT s) = ((ident (sel_column_name s) \<or> sel_column_name s = ''*'')
     \<and> ident (sel_table_name s) \<and> pred_option where_ok (sel_where s))"
| "stmt_ok (DELETE s) = (ident (del_table_name s) \<and> pred_option where_ok (del_where s))"
| "stmt_ok (INSERT s) = (ident (ins_table_name s) \<and> ins_values s \<noteq> []
     \<and> list_all2 literal_ok (ins_values s) (ins_is_int s))"
| "stmt_ok (UPDATE s) = (ident (upd_table_name s) \<and> ident (upd_set_column s)
     \<and> literal_ok (upd_set_value s) (upd_set_is_int s) \<and> pred_option where_ok (upd_where s))"
| "stmt_ok (INVALID e) = False"

text \<open>A literal, where \<open>tx\<close> says whether the text the statement comes from may hold text literals.\<close>

definition literal_form :: "bool \<Rightarrow> string \<Rightarrow> bool \<Rightarrow> bool" where
  "literal_form tx v is_int \<longleftrightarrow> literal_ok v is_int \<and> (tx \<or> is_int \<or> v = [])"

definition where_form :: "bool \<Rightarrow> where_clause \<Rightarrow> bool" where
  "where_form tx w \<longleftrightarrow> where_ok w \<and> literal_form tx (wc_const_value w) (wc_is_int_literal w)"

definition stmt_form :: "bool \<Rightarrow> sql_statement \<Rightarrow> bool" where
  "stmt_form tx st \<longleftrightarrow> stmt_ok st \<and> (\<forall>(v, b) \<in> set (stmt_literals st). literal_form tx v b)"

text \<open>What the parser returns: a message of its own, never empty, or a statement of the form.\<close>

definition is_error :: "sql_statement \<Rightarrow> bool" where
  "is_error st \<longleftrightarrow> (\<exists>e. st = INVALID e \<and> e \<noteq> [] \<and> short e)"

definition stmt_result :: "bool \<Rightarrow> sql_statement \<Rightarrow> bool" where
  "stmt_result tx st \<longleftrightarrow> is_error st \<or> stmt_form tx st"

lemma is_error_INVALID [simp]: "is_error (INVALID e) \<longleftrightarrow> e \<noteq> [] \<and> short e"
  by (simp add: is_error_def)

lemma pred_where_form:
  "pred_option (where_form tx) w
   \<longleftrightarrow> pred_option where_ok w \<and> (\<forall>(v, b) \<in> set (where_literals w). literal_form tx v b)"
  by (cases w) (auto simp: where_form_def)

lemma list_all2_literals:
  "list_all2 literal_ok vs bs \<and> (\<forall>(v, b) \<in> set (zip vs bs). literal_form tx v b) \<longleftrightarrow> list_all2 (literal_form tx) vs bs"
  by (auto simp: list_all2_iff literal_form_def)

text \<open>The form of each kind of statement.\<close>

lemma stmt_form_simps [simp]:
  "stmt_form tx (CREATE_DATABASE n) = ident n"
  "stmt_form tx (DROP_DATABASE n) = ident n"
  "stmt_form tx (USE n) = ident n"
  "stmt_form tx (CREATE_TABLE c) = stmt_ok (CREATE_TABLE c)"
  "stmt_form tx (DROP_TABLE n) = ident n"
  "stmt_form tx (SELECT s) = ((ident (sel_column_name s) \<or> sel_column_name s = ''*'')
     \<and> ident (sel_table_name s) \<and> pred_option (where_form tx) (sel_where s))"
  "stmt_form tx (DELETE d) = (ident (del_table_name d) \<and> pred_option (where_form tx) (del_where d))"
  "stmt_form tx (INSERT i) = (ident (ins_table_name i) \<and> ins_values i \<noteq> []
     \<and> list_all2 (literal_form tx) (ins_values i) (ins_is_int i))"
  "stmt_form tx (UPDATE u) = (ident (upd_table_name u) \<and> ident (upd_set_column u)
     \<and> literal_form tx (upd_set_value u) (upd_set_is_int u) \<and> pred_option (where_form tx) (upd_where u))"
  "stmt_form tx (INVALID e) = False"
  by (auto simp: stmt_form_def pred_where_form list_all2_literals [symmetric])
    (auto simp: literal_form_def)

lemma word_nonempty: "word n \<Longrightarrow> n \<noteq> []"
  by (simp add: word_def)

lemma ident_nonempty: "ident n \<Longrightarrow> n \<noteq> []"
  by (simp add: ident_def word_nonempty)

lemma stmt_ok_wf: "stmt_ok st \<Longrightarrow> stmt_wf st"
  by (cases st) (auto simp: ident_nonempty list_all2_lengthD)

section \<open>Good token vectors\<close>

definition good_tokens :: "bool \<Rightarrow> token list \<Rightarrow> bool" where
  "good_tokens tx ts \<longleftrightarrow> token_vector ts \<and>
     (\<forall>t \<in> set ts. tok_kind t \<noteq> END_OF_FILE \<longrightarrow>
        token_ok (tok_kind t) (tok_lexeme t) \<and> NUL \<notin> set (tok_lexeme t)
          \<and> (tok_kind t = STRING_LITERAL \<longrightarrow> tx))"

lemma good_tokens_Cons:
  assumes "good_tokens tx (t # ts)" and "tok_kind t \<noteq> END_OF_FILE"
  shows "good_tokens tx ts" and "token_ok (tok_kind t) (tok_lexeme t)" and "NUL \<notin> set (tok_lexeme t)"
    and "tok_kind t = STRING_LITERAL \<Longrightarrow> tx"
proof -
  from assms obtain us e where us: "t # ts = us @ [e]" "tok_kind e = END_OF_FILE"
      "\<forall>u \<in> set us. tok_kind u \<noteq> END_OF_FILE"
    by (auto simp: good_tokens_def token_vector_def)
  with assms(2) obtain vs where "us = t # vs" by (cases us) auto
  with us have "token_vector ts" by (auto simp: token_vector_def)
  with assms show "good_tokens tx ts" by (auto simp: good_tokens_def)
  from assms show "token_ok (tok_kind t) (tok_lexeme t)" "NUL \<notin> set (tok_lexeme t)"
    and "tok_kind t = STRING_LITERAL \<Longrightarrow> tx"
    by (auto simp: good_tokens_def)
qed

lemma good_tokens_ex:
  assumes "good_tokens tx ts"
  obtains t r where "ts = t # r" and "r = [] \<Longrightarrow> tok_kind t = END_OF_FILE"
proof (cases ts)
  case Nil
  with assms show ?thesis by (simp add: good_tokens_def token_vector_def)
next
  case (Cons t r)
  have "tok_kind t = END_OF_FILE" if "r = []"
    using assms that Cons by (auto simp: good_tokens_def token_vector_def)
  with Cons show ?thesis by (rule that)
qed

lemma lexed_pairs_ok:
  "lexed s ps \<Longrightarrow> NUL \<notin> set s \<Longrightarrow> (k, l) \<in> set ps \<Longrightarrow> token_ok k l \<and> NUL \<notin> set l"
  by (induction s ps rule: lexed.induct) (auto simp: token_text_def split: if_splits)

lemma lexed_no_texts: "lexed s ps \<Longrightarrow> DQUOTE \<notin> set s \<Longrightarrow> (k, l) \<in> set ps \<Longrightarrow> k \<noteq> STRING_LITERAL"
  by (induction s ps rule: lexed.induct) (auto simp: token_text_def split: if_splits)

text \<open>A source text without quotes has no text literals.\<close>

definition texts_in :: "string option \<Rightarrow> bool" where
  "texts_in sql \<longleftrightarrow> (case sql of None \<Rightarrow> False | Some s \<Rightarrow> DQUOTE \<in> set s)"

lemma set_c_str: "set (c_str s) \<subseteq> set s"
  by (auto simp: c_str_def dest: set_takeWhileD)

lemma tokenize_good:
  assumes "\<not> lx_has_error (snd (tokenize sql))" and "texts_in sql \<Longrightarrow> tx"
  shows "good_tokens tx (fst (tokenize sql))"
proof (cases "sql = None \<or> c_str (the sql) = []")
  case True
  then have "fst (tokenize sql) = [eof_token (lexer_start [])]"
    by (cases sql) (auto simp: tokenize_def)
  with tokenize_token_vector [of sql] show ?thesis by (simp add: good_tokens_def eof_token_def)
next
  case False
  then obtain s where s: "sql = Some s" "c_str s \<noteq> []" by auto
  let ?lx = "lexer_start (c_str s)"
  obtain ts lx where ts: "tokenize_loop ?lx = (ts, lx)" by fastforce
  then have tok: "tokenize sql = (ts @ [eof_token lx], lx)" using s by (simp add: tokenize_def)
  have "lexed (c_str s) (map token_pair ts)"
    using tokenize_loop_sound [of ?lx] assms tok ts by (simp add: lexer_start_def)
  moreover have "tx \<or> DQUOTE \<notin> set (c_str s)" using assms(2) s(1) set_c_str by (auto simp: texts_in_def)
  ultimately have "\<forall>t \<in> set ts. token_ok (tok_kind t) (tok_lexeme t) \<and> NUL \<notin> set (tok_lexeme t)
      \<and> (tok_kind t = STRING_LITERAL \<longrightarrow> tx)"
    using lexed_pairs_ok [of "c_str s" "map token_pair ts"] lexed_no_texts [of "c_str s" "map token_pair ts"]
    by (fastforce simp: token_pair_def image_iff)
  then show ?thesis
    using tokenize_token_vector [of sql] tok by (auto simp: good_tokens_def eof_token_def)
qed

lemma token_ok_ident: "token_ok IDENTIFIER l \<Longrightarrow> ident l"
  using punct_kind_word by (auto simp: token_ok_def ident_def split: if_splits)

lemma token_ok_punct:
  "token_ok OP_STAR l \<Longrightarrow> l = ''*''" "token_ok OP_EQ l \<Longrightarrow> l = ''=''"
  "token_ok OP_LT l \<Longrightarrow> l = ''<''" "token_ok OP_GT l \<Longrightarrow> l = ''>''"
  using match_keyword_kinds [of l]
  by (cases l; auto simp: token_ok_def punct_kind_def split: if_splits)+

lemma token_ok_type: "token_ok k l \<Longrightarrow> k = KW_INT \<or> k = KW_STRING \<Longrightarrow> type_ok l"
  by (cases l) (auto simp: token_ok_def type_ok_def punct_kind_def split: if_splits)

section \<open>Sub-parsers that never read past the vector\<close>

definition parses :: "bool \<Rightarrow> ('a \<Rightarrow> bool) \<Rightarrow> 'a parser \<Rightarrow> bool" where
  "parses tx Q p \<longleftrightarrow> (\<forall>ts. good_tokens tx ts \<longrightarrow> (\<exists>x r. p ts = Some (x, r) \<and> good_tokens tx r \<and> Q x))"

lemma parsesI:
  "(\<And>t r. good_tokens tx (t # r) \<Longrightarrow> \<exists>x r'. p (t # r) = Some (x, r') \<and> good_tokens tx r' \<and> Q x) \<Longrightarrow> parses tx Q p"
  unfolding parses_def by (metis good_tokens_ex)

lemma parsesE:
  assumes "parses tx Q p" and "good_tokens tx ts"
  obtains x r where "p ts = Some (x, r)" and "good_tokens tx r" and "Q x"
  using assms unfolding parses_def by blast

lemma error_text_short: "clean msg \<Longrightarrow> error_text msg t \<noteq> [] \<and> short (error_text msg t)"
  by (simp add: error_text_def short_snprintf clean_show_nat) (simp add: snprintf_def)

lemma parses_make_error: "clean msg \<Longrightarrow> parses tx (stmt_result tx) (make_error msg)"
  by (rule parsesI) (simp add: parse_simps stmt_result_def error_text_short)

lemma parses_check:
  assumes "parses tx Q p" and "parses tx Q q"
  shows "parses tx Q (\<lambda>ts. do { b \<leftarrow> check k ts; if b then p ts else q ts })"
  using assms by (intro parsesI) (auto simp: parse_simps parses_def)

lemma parses_bind:
  assumes "parses tx P p" and "\<And>x. P x \<Longrightarrow> parses tx Q (f x)"
  shows "parses tx Q (\<lambda>ts. do { (x, ts) \<leftarrow> p ts; f x ts })"
  unfolding parses_def
proof (intro allI impI)
  fix ts assume "good_tokens tx ts"
  with assms(1) obtain x r where x: "p ts = Some (x, r)" "good_tokens tx r" "P x" by (rule parsesE)
  from assms(2) [OF x(3)] x(2) obtain y r' where "f x r = Some (y, r')" "good_tokens tx r'" "Q y"
    by (rule parsesE)
  with x show "\<exists>y r. do { (x, ts) \<leftarrow> p ts; f x ts } = Some (y, r) \<and> good_tokens tx r \<and> Q y" by simp
qed

lemma parses_bind2:
  assumes "parses tx (\<lambda>(v, b). P v b) p" and "\<And>v b. P v b \<Longrightarrow> parses tx Q (f v b)"
  shows "parses tx Q (\<lambda>ts. do { ((v, b), ts) \<leftarrow> p ts; f v b ts })"
  using parses_bind [OF assms(1), of Q "\<lambda>(v, b). f v b"] assms(2) by (simp add: case_prod_unfold)

lemma parses_return: "Q x \<Longrightarrow> parses tx Q (\<lambda>ts. Some (x, ts))"
  by (simp add: parses_def)

lemma parses_require:
  assumes "k \<noteq> END_OF_FILE" and "clean msg"
    and "\<And>t. tok_kind t = k \<Longrightarrow> token_ok k (tok_lexeme t) \<Longrightarrow> parses tx (stmt_result tx) (cont t)"
  shows "parses tx (stmt_result tx) (require k msg cont)"
proof (rule parsesI)
  fix t r
  assume g: "good_tokens tx (t # r)"
  show "\<exists>x r'. require k msg cont (t # r) = Some (x, r') \<and> good_tokens tx r' \<and> stmt_result tx x"
  proof (cases "tok_kind t = k")
    case True
    then show ?thesis
      using good_tokens_Cons [OF g] assms(1) assms(3) [of t]
      by (auto simp: require_def parse_simps parses_def)
  next
    case False
    then show ?thesis
      using g error_text_short [OF assms(2)] by (auto simp: require_def parse_simps stmt_result_def)
  qed
qed

lemma parses_finish: "stmt_result tx st \<Longrightarrow> parses tx (stmt_result tx) (finish st)"
  by (rule parsesI) (auto simp: finish_def parse_simps intro: good_tokens_Cons(1))

lemma parses_value: "parses tx (\<lambda>(v, b). literal_form tx v b) parse_value_string"
proof (rule parsesI)
  fix t r
  assume g: "good_tokens tx (t # r)"
  show "\<exists>x r'. parse_value_string (t # r) = Some (x, r') \<and> good_tokens tx r' \<and> (case x of (v, b) \<Rightarrow> literal_form tx v b)"
    using good_tokens_Cons [OF g] g
    by (cases "tok_kind t = INT_LITERAL"; cases "tok_kind t = STRING_LITERAL")
      (simp_all add: parse_value_string_def parse_simps literal_form_def literal_ok_def token_ok_def)
qed

lemma parses_where:
  "good_tokens tx (t # r) \<Longrightarrow> tok_kind t = KW_WHERE \<Longrightarrow>
   \<exists>wc r'. parse_where_clause (t # r) = Some (wc, r') \<and> good_tokens tx r' \<and> (wc_column wc \<noteq> [] \<longrightarrow> where_form tx wc)"
proof -
  assume "good_tokens tx (t # r)" "tok_kind t = KW_WHERE"
  then have "good_tokens tx r" by (auto dest: good_tokens_Cons(1))
  then obtain c r1 where r: "r = c # r1" "good_tokens tx (c # r1)" by (metis good_tokens_ex)
  show ?thesis
  proof (cases "tok_kind c = IDENTIFIER")
    case False
    then show ?thesis using r by (auto simp: parse_where_clause_def parse_simps where_empty_def)
  next
    case c: True
    then have r1: "good_tokens tx r1" "ident (tok_lexeme c)"
      using good_tokens_Cons [OF r(2)] by (auto dest: token_ok_ident)
    then obtain p r2 where p: "r1 = p # r2" "good_tokens tx (p # r2)" by (metis good_tokens_ex)
    show ?thesis
    proof (cases "tok_kind p \<in> {OP_EQ, OP_LT, OP_GT}")
      case False
      then show ?thesis using r c p by (auto simp: parse_where_clause_def parse_simps where_empty_def)
    next
      case op: True
      then have r2: "good_tokens tx r2" "tok_lexeme p \<in> {''='', ''<'', ''>''}"
        using good_tokens_Cons [OF p(2)] by (auto dest: token_ok_punct)
      obtain v b r3 where v: "parse_value_string r2 = Some ((v, b), r3)" "good_tokens tx r3" "literal_form tx v b"
        using parsesE [OF parses_value r2(1)] by (metis (no_types, lifting) case_prodE)
      then show ?thesis
        using r c p op r1 r2 by (auto simp: parse_where_clause_def parse_simps where_form_def where_ok_def literal_form_def)
    qed
  qed
qed

lemma parses_where_tail:
  assumes "\<And>w. pred_option (where_form tx) w \<Longrightarrow> stmt_result tx (mk w)"
  shows "parses tx (stmt_result tx) (where_tail mk)"
proof (rule parsesI)
  fix t r
  assume g: "good_tokens tx (t # r)"
  show "\<exists>x r'. where_tail mk (t # r) = Some (x, r') \<and> good_tokens tx r' \<and> stmt_result tx x"
  proof (cases "tok_kind t = KW_WHERE")
    case True
    from parses_where [OF g True] obtain wc r' where wc: "parse_where_clause (t # r) = Some (wc, r')"
        "good_tokens tx r'" "wc_column wc \<noteq> [] \<longrightarrow> where_form tx wc" by blast
    show ?thesis
    proof (cases "wc_column wc = []")
      case True
      then show ?thesis
        using wc \<open>tok_kind t = KW_WHERE\<close> by (simp add: where_tail_def parse_simps stmt_result_def short_constant)
    next
      case False
      then have "parses tx (stmt_result tx) (finish (mk (Some wc)))"
        using wc assms [of "Some wc"] by (intro parses_finish) simp
      then show ?thesis
        using wc False \<open>tok_kind t = KW_WHERE\<close> by (simp add: where_tail_def parse_simps parses_def)
    qed
  next
    case False
    then show ?thesis
      using g good_tokens_Cons(1) [OF g] assms [of None] by (auto simp: where_tail_def parse_simps)
  qed
qed

lemma parses_column: "parses tx (\<lambda>c. cd_name c \<noteq> [] \<longrightarrow> column_ok c) parse_column_def"
proof (rule parsesI)
  fix t r
  assume g: "good_tokens tx (t # r)"
  let ?goal = "\<exists>x r'. parse_column_def (t # r) = Some (x, r') \<and> good_tokens tx r'
    \<and> (cd_name x \<noteq> [] \<longrightarrow> column_ok x)"
  show ?goal
  proof (cases "tok_kind t = IDENTIFIER")
    case False
    then show ?thesis using g by (simp add: parse_column_def_def parse_simps column_def_empty_def)
  next
    case t: True
    then have r: "good_tokens tx r" "ident (tok_lexeme t)"
      using good_tokens_Cons [OF g] by (auto dest: token_ok_ident)
    then obtain u r1 where u: "r = u # r1" "good_tokens tx (u # r1)" by (metis good_tokens_ex)
    show ?thesis
    proof (cases "tok_kind u = KW_INT \<or> tok_kind u = KW_STRING")
      case False
      then show ?thesis
        using t u by (simp add: parse_column_def_def parse_simps column_def_empty_def)
    next
      case ty: True
      then have r1: "good_tokens tx r1" "type_ok (tok_lexeme u)"
        using good_tokens_Cons [OF u(2)] by (auto dest: token_ok_type)
      then obtain p r2 where p: "r1 = p # r2" "good_tokens tx (p # r2)" by (metis good_tokens_ex)
      then show ?thesis
        using t u ty r r1 good_tokens_Cons(1) [OF p(2)]
        by (auto simp: parse_column_def_def parse_simps column_ok_def)
    qed
  qed
qed

section \<open>The list loops and the statements\<close>

lemma parse_columns_good:
  "good_tokens tx ts \<Longrightarrow> list_all column_ok acc \<Longrightarrow>
   \<exists>res r. parse_columns acc ts = Some (res, r) \<and> good_tokens tx r \<and>
     (case res of Inl e \<Rightarrow> is_error e | Inr cols \<Rightarrow> cols \<noteq> [] \<and> list_all column_ok cols)"
proof (induction "length ts" arbitrary: acc ts rule: less_induct)
  case less
  obtain c r where c: "parse_column_def ts = Some (c, r)" "good_tokens tx r" "cd_name c \<noteq> [] \<longrightarrow> column_ok c"
    using parsesE [OF parses_column less.prems(1)] by blast
  obtain t r1 where r: "r = t # r1" using c(2) by (metis good_tokens_ex)
  show ?case
  proof (cases "cd_name c \<noteq> [] \<and> (tok_kind t = RPAREN \<or> tok_kind t = COMMA)")
    case False
    then show ?thesis
      using c r by (subst parse_columns.simps) (auto simp: parse_simps error_text_short)
  next
    case True
    then have g1: "good_tokens tx r1" using c(2) r good_tokens_Cons(1) [of tx t r1] by auto
    have acc': "list_all column_ok (acc @ [c])" using less.prems(2) c(3) True by simp
    show ?thesis
    proof (cases "tok_kind t = RPAREN")
      case True
      with \<open>cd_name c \<noteq> [] \<and> _\<close> show ?thesis
        using c r g1 acc' by (subst parse_columns.simps) (simp add: parse_simps)
    next
      case False
      have "length r1 < length ts" using parse_column_def_shrinks [OF c(1)] r by simp
      from less.hyps [OF this g1 acc'] show ?thesis
        using c r True False by (subst parse_columns.simps) (simp add: parse_simps)
    qed
  qed
qed

lemma parse_values_good:
  "good_tokens tx ts \<Longrightarrow> list_all (\<lambda>(v, b). literal_form tx v b) acc \<Longrightarrow>
   \<exists>res r. parse_values acc ts = Some (res, r) \<and> good_tokens tx r \<and>
     (case res of Inl e \<Rightarrow> is_error e | Inr vs \<Rightarrow> vs \<noteq> [] \<and> list_all (\<lambda>(v, b). literal_form tx v b) vs)"
proof (induction "length ts" arbitrary: acc ts rule: less_induct)
  case less
  obtain v r where v: "parse_value_string ts = Some (v, r)" "good_tokens tx r" "case v of (v, b) \<Rightarrow> literal_form tx v b"
    using parsesE [OF parses_value less.prems(1)] by blast
  obtain t r1 where r: "r = t # r1" using v(2) by (metis good_tokens_ex)
  show ?case
  proof (cases "tok_kind t = RPAREN \<or> tok_kind t = COMMA")
    case False
    then show ?thesis
      using v r by (subst parse_values.simps) (auto simp: parse_simps error_text_short)
  next
    case True
    then have g1: "good_tokens tx r1" using v(2) r good_tokens_Cons(1) [of tx t r1] by auto
    have acc': "list_all (\<lambda>(v, b). literal_form tx v b) (acc @ [v])" using less.prems(2) v(3) by simp
    show ?thesis
    proof (cases "tok_kind t = RPAREN")
      case True
      then show ?thesis
        using v r g1 acc' by (subst parse_values.simps) (simp add: parse_simps)
    next
      case False
      have "length r1 < length ts" using parse_value_string_shrinks [OF v(1)] r by simp
      from less.hyps [OF this g1 acc'] show ?thesis
        using v r True False by (subst parse_values.simps) (simp add: parse_simps)
    qed
  qed
qed

lemmas parses_intros = parses_require parses_finish parses_where_tail parses_make_error

definition columns_result :: "sql_statement + column_def list \<Rightarrow> bool" where
  "columns_result res \<longleftrightarrow>
     (case res of Inl e \<Rightarrow> is_error e | Inr cols \<Rightarrow> cols \<noteq> [] \<and> list_all column_ok cols)"

definition values_result :: "bool \<Rightarrow> sql_statement + (string \<times> bool) list \<Rightarrow> bool" where
  "values_result tx res \<longleftrightarrow>
     (case res of Inl e \<Rightarrow> is_error e | Inr vs \<Rightarrow> vs \<noteq> [] \<and> list_all (\<lambda>(v, b). literal_form tx v b) vs)"

lemma parses_columns: "parses tx columns_result (parse_columns [])"
  using parse_columns_good by (simp add: parses_def columns_result_def)

lemma parses_values: "parses tx (values_result tx) (parse_values [])"
  using parse_values_good by (simp add: parses_def values_result_def)

lemma values_result_all2:
  "values_result tx (Inr vs) \<Longrightarrow> vs \<noteq> [] \<and> list_all2 (literal_form tx) (map fst vs) (map snd vs)"
  by (auto simp: values_result_def list_all2_map1 list_all2_map2 list.pred_set list_all2_same)

text \<open>Every statement parser starts by consuming its keyword.\<close>

definition starts_with :: "bool \<Rightarrow> token_kind \<Rightarrow> sql_statement parser \<Rightarrow> bool" where
  "starts_with tx k p \<longleftrightarrow> (\<forall>t r. good_tokens tx (t # r) \<longrightarrow> tok_kind t = k \<longrightarrow>
     (\<exists>x r'. p (t # r) = Some (x, r') \<and> good_tokens tx r' \<and> stmt_result tx x))"

lemma starts_withI:
  assumes "k \<noteq> END_OF_FILE" and "\<And>t r. p (t # r) = q r" and "parses tx (stmt_result tx) q"
  shows "starts_with tx k p"
  unfolding starts_with_def
proof (intro allI impI)
  fix t r assume "good_tokens tx (t # r)" "tok_kind t = k"
  then have "good_tokens tx r" using assms(1) good_tokens_Cons(1) by blast
  with assms(3) obtain x r' where "q r = Some (x, r')" "good_tokens tx r'" "stmt_result tx x" by (rule parsesE)
  with assms(2) show "\<exists>x r'. p (t # r) = Some (x, r') \<and> good_tokens tx r' \<and> stmt_result tx x" by simp
qed

lemma starts_with_use: "starts_with tx KW_USE parse_use"
  by (rule starts_withI [where q = "require IDENTIFIER (''Expected database name after '' @ squote ''USE'')
       (\<lambda>name_tok. finish (USE (tok_lexeme name_tok)))"])
    (auto simp: parse_use_def parse_simps stmt_result_def intro!: parses_intros dest: token_ok_ident)

lemma starts_with_delete: "starts_with tx KW_DELETE parse_delete"
  by (rule starts_withI, simp, subst parse_delete_def, simp add: parse_simps)
    (auto simp: stmt_result_def intro!: parses_intros dest: token_ok_ident)

lemma starts_with_two_way:
  assumes "k \<noteq> END_OF_FILE"
    and eq: "\<And>t u r. p (t # u # r) = (if tok_kind u = k1 then f u r else if tok_kind u = k2 then g u r
      else make_error msg (u # r))"
    and ks: "k1 \<noteq> END_OF_FILE" "k2 \<noteq> END_OF_FILE" and msg: "clean msg"
    and f: "\<And>u. tok_kind u = k1 \<Longrightarrow> token_ok k1 (tok_lexeme u) \<Longrightarrow> parses tx (stmt_result tx) (f u)"
    and g: "\<And>u. tok_kind u = k2 \<Longrightarrow> token_ok k2 (tok_lexeme u) \<Longrightarrow> parses tx (stmt_result tx) (g u)"
  shows "starts_with tx k p"
  unfolding starts_with_def
proof (intro allI impI)
  fix t r assume "good_tokens tx (t # r)" "tok_kind t = k"
  then have "good_tokens tx r" using assms(1) good_tokens_Cons(1) by blast
  then obtain u r1 where r: "r = u # r1" "good_tokens tx (u # r1)" by (metis good_tokens_ex)
  consider "tok_kind u = k1" | "tok_kind u \<noteq> k1" "tok_kind u = k2" | "tok_kind u \<noteq> k1" "tok_kind u \<noteq> k2"
    by blast
  then show "\<exists>x r'. p (t # r) = Some (x, r') \<and> good_tokens tx r' \<and> stmt_result tx x"
  proof cases
    case 1
    with good_tokens_Cons [OF r(2)] ks f [of u] show ?thesis by (simp add: r eq parses_def)
  next
    case 2
    with good_tokens_Cons [OF r(2)] ks g [of u] show ?thesis by (simp add: r eq parses_def)
  next
    case 3
    with r error_text_short [OF msg] show ?thesis by (simp add: eq parse_simps stmt_result_def)
  qed
qed

lemma starts_with_drop: "starts_with tx KW_DROP parse_drop"
  by (rule starts_with_two_way [where ?k1.0 = KW_DATABASE and ?k2.0 = KW_TABLE
        and f = "\<lambda>_. require IDENTIFIER (''Expected database name after '' @ squote ''DROP DATABASE'')
         (\<lambda>name_tok. finish (DROP_DATABASE (tok_lexeme name_tok)))"
        and g = "\<lambda>_. require IDENTIFIER (''Expected table name after '' @ squote ''DROP TABLE'')
         (\<lambda>table_tok. finish (DROP_TABLE (tok_lexeme table_tok)))"])
    (auto simp: parse_drop_def parse_simps stmt_result_def intro!: parses_intros dest: token_ok_ident)

text \<open>The bodies of CREATE TABLE, INSERT and UPDATE behind their fixed parts.\<close>

lemma parses_create_columns:
  assumes "ident n"
  shows "parses tx (stmt_result tx) (create_table_body n)"
  unfolding create_table_body_def [abs_def]
proof (rule parses_check, rule parses_make_error, simp, rule parses_bind [OF parses_columns])
  fix res
  assume res: "columns_result res"
  show "parses tx (stmt_result tx) (\<lambda>ts. case res of
         Inl err \<Rightarrow> Some (err, ts)
       | Inr cols \<Rightarrow>
           if length (filter cd_is_primary cols) > 1
           then make_error ''Only one primary key column is allowed per table'' ts
           else finish (CREATE_TABLE \<lparr>ct_table_name = n, ct_columns = cols\<rparr>) ts)"
  proof (cases res)
    case (Inl e)
    with res show ?thesis by (simp add: parses_return stmt_result_def columns_result_def)
  next
    case (Inr cols)
    with res assms show ?thesis
      by (cases "length (filter cd_is_primary cols) > 1")
        (auto simp: stmt_result_def columns_result_def intro!: parses_intros)
  qed
qed

lemma parses_insert_values:
  assumes "ident n"
  shows "parses tx (stmt_result tx) (insert_body n)"
  unfolding insert_body_def [abs_def]
proof (rule parses_check, rule parses_make_error, simp, rule parses_bind [OF parses_values])
  fix res
  assume res: "values_result tx res"
  show "parses tx (stmt_result tx) (\<lambda>ts. case res of
         Inl err \<Rightarrow> Some (err, ts)
       | Inr vs \<Rightarrow> finish (INSERT \<lparr>ins_table_name = n, ins_values = map fst vs,
           ins_is_int = map snd vs\<rparr>) ts)"
  proof (cases res)
    case (Inl e)
    with res show ?thesis by (simp add: parses_return stmt_result_def values_result_def)
  next
    case (Inr vs)
    with res assms values_result_all2 [of tx vs] show ?thesis
      by (auto simp: stmt_result_def intro!: parses_intros)
  qed
qed

lemma parses_update_value:
  assumes "ident n" and "ident c"
  shows "parses tx (stmt_result tx) (update_body n c)"
  unfolding update_body_def [abs_def]
  using assms by (intro parses_bind2 [OF parses_value] parses_where_tail) (simp add: stmt_result_def)

lemma starts_with_create: "starts_with tx KW_CREATE parse_create"
  by (rule starts_with_two_way [where ?k1.0 = KW_DATABASE and ?k2.0 = KW_TABLE
        and f = "\<lambda>_. require IDENTIFIER (''Expected database name after '' @ squote ''CREATE DATABASE'')
         (\<lambda>name_tok. finish (CREATE_DATABASE (tok_lexeme name_tok)))"
        and g = "\<lambda>_. require IDENTIFIER (''Expected table name after '' @ squote ''CREATE TABLE'') (\<lambda>table_tok.
         require LPAREN (''Expected '' @ squote ''('' @ '' after table name in CREATE TABLE'') (\<lambda>_.
         create_table_body (tok_lexeme table_tok)))"])
    (auto simp: parse_create_def parse_simps stmt_result_def
      intro!: parses_intros parses_create_columns dest: token_ok_ident)

lemma starts_with_insert: "starts_with tx KW_INSERT parse_insert"
  by (rule starts_withI, simp, subst parse_insert_def, simp add: parse_simps)
    (auto intro!: parses_intros parses_insert_values dest: token_ok_ident)

lemma starts_with_update: "starts_with tx KW_UPDATE parse_update"
  by (rule starts_withI, simp, subst parse_update_def, simp add: parse_simps)
    (auto intro!: parses_intros parses_update_value dest: token_ok_ident)

lemma starts_with_select: "starts_with tx KW_SELECT parse_select"
proof -
  let ?f = "\<lambda>u. require KW_FROM (''Expected '' @ squote ''FROM'' @ '' after column in SELECT'') (\<lambda>_.
       require IDENTIFIER (''Expected table name after '' @ squote ''FROM'') (\<lambda>table_tok.
       where_tail (\<lambda>w. SELECT \<lparr>sel_column_name = tok_lexeme u,
         sel_table_name = tok_lexeme table_tok, sel_where = w\<rparr>)))"
  show ?thesis
    by (rule starts_with_two_way [where ?k1.0 = IDENTIFIER and ?k2.0 = OP_STAR and f = ?f and g = ?f])
      (auto simp: parse_select_def parse_simps stmt_result_def
        intro!: parses_intros dest: token_ok_ident token_ok_punct)
qed

lemma parses_statement: "parses tx (stmt_result tx) parse_statement"
proof (rule parsesI, goal_cases)
  case (1 t r)
  have kw: "starts_with tx k p \<Longrightarrow> tok_kind t = k \<Longrightarrow>
      \<exists>x r'. p (t # r) = Some (x, r') \<and> good_tokens tx r' \<and> stmt_result tx x" for k p
    using 1 by (auto simp: starts_with_def)
  show ?case
    using 1 kw [OF starts_with_create] kw [OF starts_with_drop] kw [OF starts_with_use]
      kw [OF starts_with_select] kw [OF starts_with_delete] kw [OF starts_with_insert]
      kw [OF starts_with_update]
    by (cases "tok_kind t")
      (simp_all add: parse_statement_def is_at_end_def parse_simps stmt_result_def error_text_short)
qed

end
