(* ===== verification/Sql_Print.thy ===== *)
theory Sql_Print
  imports Parser_Props
begin

text \<open>
  The concrete syntax of statements: the canonical token sequence of each statement and a
  printer. A token vector that agrees with the canonical sequence in the token kinds and in the
  lexemes that carry information parses to the statement, so printing and parsing are inverse,
  and the letter case of keywords and the layout do not matter.
\<close>

section \<open>Canonical tokens\<close>

type_synonym token_seq = "(token_kind \<times> string) list"

definition literal_token :: "string \<Rightarrow> bool \<Rightarrow> token_kind \<times> string" where
  "literal_token v is_int = (if is_int then INT_LITERAL else STRING_LITERAL, v)"

definition op_token :: "string \<Rightarrow> token_kind \<times> string" where
  "op_token p = (if p = ''='' then OP_EQ else if p = ''<'' then OP_LT else OP_GT, p)"

fun where_tokens :: "where_clause option \<Rightarrow> token_seq" where
  "where_tokens None = []"
| "where_tokens (Some w) = [(KW_WHERE, ''where''), (IDENTIFIER, wc_column w), op_token (wc_op w),
     literal_token (wc_const_value w) (wc_is_int_literal w)]"

definition column_tokens :: "column_def \<Rightarrow> token_seq" where
  "column_tokens c = [(IDENTIFIER, cd_name c), (match_keyword (cd_type c), cd_type c)]
     @ (if cd_is_primary c then [(KW_PRIMARY, ''primary'')] else [])"

fun closed_list :: "('a \<Rightarrow> token_seq) \<Rightarrow> 'a list \<Rightarrow> token_seq" where
  "closed_list f [] = [(RPAREN, '')'')]"
| "closed_list f [x] = f x @ [(RPAREN, '')'')]"
| "closed_list f (x # xs) = f x @ (COMMA, '','') # closed_list f xs"

fun stmt_tokens :: "sql_statement \<Rightarrow> token_seq" where
  "stmt_tokens (CREATE_DATABASE n) = [(KW_CREATE, ''create''), (KW_DATABASE, ''database''), (IDENTIFIER, n)]"
| "stmt_tokens (DROP_DATABASE n) = [(KW_DROP, ''drop''), (KW_DATABASE, ''database''), (IDENTIFIER, n)]"
| "stmt_tokens (USE n) = [(KW_USE, ''use''), (IDENTIFIER, n)]"
| "stmt_tokens (CREATE_TABLE s) =
     [(KW_CREATE, ''create''), (KW_TABLE, ''table''), (IDENTIFIER, ct_table_name s), (LPAREN, ''('')]
     @ closed_list column_tokens (ct_columns s)"
| "stmt_tokens (DROP_TABLE n) = [(KW_DROP, ''drop''), (KW_TABLE, ''table''), (IDENTIFIER, n)]"
| "stmt_tokens (SELECT s) =
     [(KW_SELECT, ''select''), (if sel_column_name s = ''*'' then OP_STAR else IDENTIFIER, sel_column_name s),
      (KW_FROM, ''from''), (IDENTIFIER, sel_table_name s)] @ where_tokens (sel_where s)"
| "stmt_tokens (DELETE s) =
     [(KW_DELETE, ''delete''), (KW_FROM, ''from''), (IDENTIFIER, del_table_name s)] @ where_tokens (del_where s)"
| "stmt_tokens (INSERT s) =
     [(KW_INSERT, ''insert''), (KW_INTO, ''into''), (IDENTIFIER, ins_table_name s),
      (KW_VALUES, ''values''), (LPAREN, ''('')]
     @ closed_list (\<lambda>(v, b). [literal_token v b]) (zip (ins_values s) (ins_is_int s))"
| "stmt_tokens (UPDATE s) =
     [(KW_UPDATE, ''update''), (IDENTIFIER, upd_table_name s), (KW_SET, ''set''),
      (IDENTIFIER, upd_set_column s), (OP_EQ, ''=''), literal_token (upd_set_value s) (upd_set_is_int s)]
     @ where_tokens (upd_where s)"
| "stmt_tokens (INVALID e) = []"

text \<open>Tokens agree: the kind, and the lexeme where the parser keeps it.\<close>

definition keeps_lexeme :: "token_kind \<Rightarrow> bool" where
  "keeps_lexeme k \<longleftrightarrow> k \<in> {IDENTIFIER, INT_LITERAL, STRING_LITERAL, OP_EQ, OP_LT, OP_GT, OP_STAR,
     KW_INT, KW_STRING}"

definition agrees :: "token \<Rightarrow> token_kind \<times> string \<Rightarrow> bool" where
  "agrees t p \<longleftrightarrow> tok_kind t = fst p \<and> (keeps_lexeme (fst p) \<longrightarrow> tok_lexeme t = snd p)"

lemma agrees_simps [parse_simps]:
  "agrees t (k, l) \<longleftrightarrow> tok_kind t = k \<and> (keeps_lexeme k \<longrightarrow> tok_lexeme t = l)"
  by (simp add: agrees_def)

lemma keeps_lexeme_simps [parse_simps]:
  "keeps_lexeme IDENTIFIER" "keeps_lexeme INT_LITERAL" "keeps_lexeme STRING_LITERAL"
  "keeps_lexeme OP_EQ" "keeps_lexeme OP_LT" "keeps_lexeme OP_GT" "keeps_lexeme OP_STAR"
  "keeps_lexeme KW_INT" "keeps_lexeme KW_STRING"
  by (simp_all add: keeps_lexeme_def)

section \<open>Parsing canonical sequences\<close>

lemma parse_value_agrees:
  "agrees t (literal_token v b) \<Longrightarrow> parse_value_string (t # r) = Some ((v, b), r)"
  by (auto simp: literal_token_def parse_value_string_def parse_simps split: if_splits)

lemma where_tail_agrees:
  assumes "pred_option where_ok w" and "list_all2 agrees us (where_tokens w)"
    and "tok_kind e \<noteq> KW_WHERE"
  shows "where_tail mk (us @ e # r) = Some (mk w, if tok_kind e = SEMICOLON then r else e # r)"
proof (cases w)
  case None
  with assms show ?thesis by (simp add: where_tail_def parse_simps)
next
  case (Some wc)
  with assms(1) have wc: "ident (wc_column wc)" "wc_op wc \<in> {''='', ''<'', ''>''}"
    by (simp_all add: where_ok_def)
  from Some assms(2) obtain t1 t2 t3 t4 where us: "us = [t1, t2, t3, t4]"
    and t: "tok_kind t1 = KW_WHERE" "tok_kind t2 = IDENTIFIER" "tok_lexeme t2 = wc_column wc"
      "agrees t3 (op_token (wc_op wc))" "agrees t4 (literal_token (wc_const_value wc) (wc_is_int_literal wc))"
    by (auto simp: list_all2_Cons2 parse_simps)
  have op: "tok_kind t3 \<in> {OP_EQ, OP_LT, OP_GT}" "tok_lexeme t3 = wc_op wc"
    using wc(2) t(4) by (auto simp: op_token_def parse_simps)
  have "parse_where_clause (t1 # t2 # t3 # t4 # e # r) = Some (wc, e # r)"
    using t op by (auto simp: parse_where_clause_def parse_simps parse_value_agrees)
  then show ?thesis
    using us t(1) ident_nonempty [OF wc(1)] Some by (simp add: where_tail_def parse_simps)
qed

lemma parse_column_agrees:
  assumes "column_ok c" and "list_all2 agrees us (column_tokens c)"
    and "tok_kind e = COMMA \<or> tok_kind e = RPAREN"
  shows "parse_column_def (us @ e # r) = Some (c, e # r)"
proof -
  obtain k where k: "match_keyword (cd_type c) = k" "k = KW_INT \<or> k = KW_STRING"
    using assms(1) by (auto simp: column_ok_def type_ok_def)
  then obtain t1 t2 vs where us: "us = t1 # t2 # vs" "tok_kind t1 = IDENTIFIER"
      "tok_lexeme t1 = cd_name c" "tok_kind t2 = k" "tok_lexeme t2 = cd_type c"
      "list_all2 agrees vs (if cd_is_primary c then [(KW_PRIMARY, ''primary'')] else [])"
    using assms(2) by (auto simp: column_tokens_def list_all2_Cons2 parse_simps)
  show ?thesis
  proof (cases "cd_is_primary c")
    case True
    then obtain t3 where "vs = [t3]" "tok_kind t3 = KW_PRIMARY"
      using us(6) by (auto simp: list_all2_Cons2 parse_simps)
    with us k True show ?thesis by (auto simp: parse_column_def_def parse_simps)
  next
    case False
    with us(6) have "vs = []" by simp
    with us k False assms(3) show ?thesis by (auto simp: parse_column_def_def parse_simps)
  qed
qed

lemma parse_columns_agrees:
  assumes "cols \<noteq> []" and "list_all column_ok cols"
    and "list_all2 agrees us (closed_list column_tokens cols)"
  shows "parse_columns acc (us @ r) = Some (Inr (acc @ cols), r)"
  using assms
proof (induction column_tokens cols arbitrary: acc us rule: closed_list.induct)
  case (2 c)
  then obtain vs e where us: "us = vs @ [e]" "list_all2 agrees vs (column_tokens c)" "tok_kind e = RPAREN"
    by (auto simp: list_all2_append2 list_all2_Cons2 parse_simps)
  then have "parse_column_def (us @ r) = Some (c, e # r)"
    using 2 parse_column_agrees [of c vs e r] by simp
  moreover have "cd_name c \<noteq> []" using 2 by (simp add: column_ok_def ident_nonempty)
  ultimately show ?case using us by (subst parse_columns.simps) (simp add: parse_simps)
next
  case (3 c d cs)
  then obtain vs e ws where us: "us = vs @ e # ws" "list_all2 agrees vs (column_tokens c)"
      "tok_kind e = COMMA" "list_all2 agrees ws (closed_list column_tokens (d # cs))"
    by (auto simp: list_all2_append2 list_all2_Cons2 parse_simps)
  then have "parse_column_def (us @ r) = Some (c, e # ws @ r)"
    using 3 parse_column_agrees [of c vs e "ws @ r"] by simp
  moreover have "cd_name c \<noteq> []" using 3 by (simp add: column_ok_def ident_nonempty)
  moreover have "parse_columns (acc @ [c]) (ws @ r) = Some (Inr ((acc @ [c]) @ d # cs), r)"
    using us(4) "3.prems" by (intro "3.hyps") auto
  ultimately show ?case using us by (subst parse_columns.simps) (simp add: parse_simps)
qed simp

lemma parse_values_agrees:
  assumes "vs \<noteq> []" and "list_all2 agrees us (closed_list (\<lambda>(v, b). [literal_token v b]) vs)"
  shows "parse_values acc (us @ r) = Some (Inr (acc @ vs), r)"
  using assms
proof (induction "\<lambda>(v, b). [literal_token v b]" vs arbitrary: acc us rule: closed_list.induct)
  case (2 x)
  then obtain t e where us: "us = [t, e]" "agrees t (literal_token (fst x) (snd x))" "tok_kind e = RPAREN"
    by (auto simp: list_all2_Cons2 parse_simps split: prod.splits)
  then show ?case
    by (subst parse_values.simps) (simp add: parse_value_agrees parse_simps)
next
  case (3 x y xs)
  then obtain t e ws where us: "us = t # e # ws" "agrees t (literal_token (fst x) (snd x))"
      "tok_kind e = COMMA" "list_all2 agrees ws (closed_list (\<lambda>(v, b). [literal_token v b]) (y # xs))"
    by (auto simp: list_all2_Cons2 parse_simps split: prod.splits)
  moreover have "parse_values (acc @ [x]) (ws @ r) = Some (Inr ((acc @ [x]) @ y # xs), r)"
    using us(4) by (intro "3.hyps") auto
  ultimately show ?case
    by (subst parse_values.simps) (simp add: parse_value_agrees parse_simps)
qed simp

lemma column_tokens_head: "column_tokens c = (IDENTIFIER, cd_name c) # tl (column_tokens c)"
  by (simp add: column_tokens_def)

lemma closed_list_head:
  "xs \<noteq> [] \<Longrightarrow> f (hd xs) \<noteq> [] \<Longrightarrow> \<exists>ps. closed_list f xs = hd (f (hd xs)) # ps"
  by (cases "(f, xs)" rule: closed_list.cases) (auto simp: neq_Nil_conv)

lemma create_table_body_agrees:
  assumes "stmt_ok (CREATE_TABLE s)" and "list_all2 agrees us (closed_list column_tokens (ct_columns s))"
  shows "create_table_body (ct_table_name s) (us @ e # r)
    = Some (CREATE_TABLE s, if tok_kind e = SEMICOLON then r else e # r)"
proof -
  have cols: "ct_columns s \<noteq> []" "list_all column_ok (ct_columns s)"
      "length (filter cd_is_primary (ct_columns s)) \<le> 1"
    using assms(1) by simp_all
  obtain ps where "closed_list column_tokens (ct_columns s) = (IDENTIFIER, cd_name (hd (ct_columns s))) # ps"
    using closed_list_head [of "ct_columns s" column_tokens] cols(1) column_tokens_head
    by (metis list.distinct(1) list.sel(1))
  then obtain t vs where us: "us = t # vs" "tok_kind t = IDENTIFIER"
    using assms(2) by (auto simp: list_all2_Cons2 parse_simps)
  have "parse_columns [] (us @ e # r) = Some (Inr (ct_columns s), e # r)"
    using parse_columns_agrees [OF cols(1,2) assms(2), of "[]" "e # r"] by simp
  then show ?thesis
    using us cols(3) by (simp add: create_table_body_def parse_simps)
qed

lemma insert_body_agrees:
  assumes "stmt_ok (INSERT s)"
    and "list_all2 agrees us (closed_list (\<lambda>(v, b). [literal_token v b]) (zip (ins_values s) (ins_is_int s)))"
  shows "insert_body (ins_table_name s) (us @ e # r)
    = Some (INSERT s, if tok_kind e = SEMICOLON then r else e # r)"
proof -
  let ?vs = "zip (ins_values s) (ins_is_int s)"
  have len: "length (ins_values s) = length (ins_is_int s)" and ne: "?vs \<noteq> []"
    using assms(1) by (auto simp: list_all2_lengthD)
  obtain ps where "closed_list (\<lambda>(v, b). [literal_token v b]) ?vs
      = literal_token (fst (hd ?vs)) (snd (hd ?vs)) # ps"
    using closed_list_head [OF ne, of "\<lambda>(v, b). [literal_token v b]"] by (auto simp: case_prod_unfold)
  then obtain t vs where us: "us = t # vs" "tok_kind t \<noteq> RPAREN"
    using assms(2) by (auto simp: list_all2_Cons2 parse_simps literal_token_def split: if_splits)
  have "parse_values [] (us @ e # r) = Some (Inr ?vs, e # r)"
    using parse_values_agrees [OF ne assms(2), of "[]" "e # r"] by simp
  then show ?thesis
    using us len by (simp add: insert_body_def parse_simps)
qed

lemma update_body_agrees:
  assumes "stmt_ok (UPDATE s)" and "agrees t (literal_token (upd_set_value s) (upd_set_is_int s))"
    and "list_all2 agrees us (where_tokens (upd_where s))" and "tok_kind e \<noteq> KW_WHERE"
  shows "update_body (upd_table_name s) (upd_set_column s) (t # us @ e # r)
    = Some (UPDATE s, if tok_kind e = SEMICOLON then r else e # r)"
  using assms where_tail_agrees [of "upd_where s" us e _ r]
  by (simp add: update_body_def parse_value_agrees)

text \<open>
  The statement behind a canonical prefix; \<open>e\<close> is the next token, which is consumed if it is
  a semicolon, and everything behind it is left unread.
\<close>

lemma parse_statement_agrees:
  assumes ok: "stmt_ok st" and us: "list_all2 agrees us (stmt_tokens st)" and e: "tok_kind e \<noteq> KW_WHERE"
  shows "parse_statement (us @ e # r) = Some (st, if tok_kind e = SEMICOLON then r else e # r)"
proof (cases st)
  case (CREATE_TABLE s)
  with us obtain t1 t2 t3 t4 vs where
    "us = t1 # t2 # t3 # t4 # vs" "list_all2 agrees vs (closed_list column_tokens (ct_columns s))"
    "tok_kind t1 = KW_CREATE" "tok_kind t2 = KW_TABLE" "tok_kind t3 = IDENTIFIER"
    "tok_lexeme t3 = ct_table_name s" "tok_kind t4 = LPAREN"
    by (auto simp: list_all2_Cons2 parse_simps)
  then show ?thesis
    using ok CREATE_TABLE create_table_body_agrees [of s vs e r]
    by (simp add: parse_statement_def is_at_end_def parse_simps parse_create_def)
next
  case (INSERT s)
  with us obtain t1 t2 t3 t4 t5 vs where
    "us = t1 # t2 # t3 # t4 # t5 # vs"
    "list_all2 agrees vs (closed_list (\<lambda>(v, b). [literal_token v b]) (zip (ins_values s) (ins_is_int s)))"
    "tok_kind t1 = KW_INSERT" "tok_kind t2 = KW_INTO" "tok_kind t3 = IDENTIFIER"
    "tok_lexeme t3 = ins_table_name s" "tok_kind t4 = KW_VALUES" "tok_kind t5 = LPAREN"
    by (auto simp: list_all2_Cons2 parse_simps)
  then show ?thesis
    using ok INSERT insert_body_agrees [of s vs e r]
    by (simp add: parse_statement_def is_at_end_def parse_simps parse_insert_def)
next
  case (UPDATE s)
  with us obtain t1 t2 t3 t4 t5 t6 vs where
    "us = t1 # t2 # t3 # t4 # t5 # t6 # vs" "list_all2 agrees vs (where_tokens (upd_where s))"
    "tok_kind t1 = KW_UPDATE" "tok_kind t2 = IDENTIFIER" "tok_lexeme t2 = upd_table_name s"
    "tok_kind t3 = KW_SET" "tok_kind t4 = IDENTIFIER" "tok_lexeme t4 = upd_set_column s"
    "tok_kind t5 = OP_EQ" "agrees t6 (literal_token (upd_set_value s) (upd_set_is_int s))"
    by (auto simp: list_all2_Cons2 parse_simps)
  then show ?thesis
    using ok UPDATE e update_body_agrees [of s t6 vs e r]
    by (simp add: parse_statement_def is_at_end_def parse_simps parse_update_def)
next
  case (SELECT s)
  with us obtain t1 t2 t3 t4 vs where
    "us = t1 # t2 # t3 # t4 # vs" "list_all2 agrees vs (where_tokens (sel_where s))"
    "tok_kind t1 = KW_SELECT" "tok_kind t2 = IDENTIFIER \<or> tok_kind t2 = OP_STAR"
    "tok_lexeme t2 = sel_column_name s"
    "tok_kind t3 = KW_FROM" "tok_kind t4 = IDENTIFIER" "tok_lexeme t4 = sel_table_name s"
    by (auto simp: list_all2_Cons2 parse_simps split: if_splits)
  then show ?thesis
    using ok SELECT e where_tail_agrees [of "sel_where s" vs e _ r]
    by (auto simp: parse_statement_def is_at_end_def parse_simps parse_select_def)
next
  case (DELETE s)
  with us obtain t1 t2 t3 vs where
    "us = t1 # t2 # t3 # vs" "list_all2 agrees vs (where_tokens (del_where s))"
    "tok_kind t1 = KW_DELETE" "tok_kind t2 = KW_FROM" "tok_kind t3 = IDENTIFIER"
    "tok_lexeme t3 = del_table_name s"
    by (auto simp: list_all2_Cons2 parse_simps)
  then show ?thesis
    using ok DELETE e where_tail_agrees [of "del_where s" vs e _ r]
    by (simp add: parse_statement_def is_at_end_def parse_simps parse_delete_def)
qed (use ok us in \<open>auto simp: list_all2_Cons2 parse_statement_def is_at_end_def parse_simps
      parse_create_def parse_drop_def parse_use_def\<close>)

section \<open>Printing\<close>

fun render :: "token_seq \<Rightarrow> string" where
  "render [] = []"
| "render ((k, l) # ps) = token_text k l @ SPACE # render ps"

definition print_stmt :: "sql_statement \<Rightarrow> string" where
  "print_stmt st = render (stmt_tokens st)"

lemma SPACE_class: "is_ws SPACE" "\<not> ident_char SPACE" "\<not> is_digit SPACE"
  by (auto simp: is_ws_def ident_char_def in_range_iff is_digit_iff)

lemma boundary_space: "boundary k l (SPACE # r)"
  by (simp add: boundary_def SPACE_class)

lemma lexed_space: "lexed r ps \<Longrightarrow> lexed (SPACE # r) ps"
proof (induction r ps rule: lexed.induct)
  case (lexed_end w)
  then show ?case by (intro lexed.lexed_end) (simp add: SPACE_class)
next
  case (lexed_token w k l r ts)
  then show ?case
    using lexed.lexed_token [of "SPACE # w" k l r ts] by (simp add: SPACE_class)
qed

lemma lexed_render: "list_all (\<lambda>(k, l). token_ok k l) ps \<Longrightarrow> lexed (render ps) ps"
proof (induction ps rule: render.induct)
  case 1
  then show ?case by (simp add: lexed_end)
next
  case (2 k l ps)
  then show ?case
    using lexed.lexed_token [of "[]" k l "SPACE # render ps" ps] boundary_space
    by (simp add: lexed_space)
qed

lemma NUL_class: "\<not> ident_char NUL" "\<not> is_digit NUL"
  by (auto simp: ident_char_def in_range_iff is_digit_iff)

lemma NUL_notin_word: "word l \<Longrightarrow> NUL \<notin> set l"
  using NUL_class by (auto simp: word_def list_all_iff)

lemma keyword_tokens_ok [parse_simps]:
  "token_ok KW_CREATE ''create''" "token_ok KW_DATABASE ''database''" "token_ok KW_DROP ''drop''"
  "token_ok KW_USE ''use''" "token_ok KW_TABLE ''table''" "token_ok KW_SELECT ''select''"
  "token_ok KW_FROM ''from''" "token_ok KW_WHERE ''where''" "token_ok KW_DELETE ''delete''"
  "token_ok KW_INSERT ''insert''" "token_ok KW_INTO ''into''" "token_ok KW_VALUES ''values''"
  "token_ok KW_UPDATE ''update''" "token_ok KW_SET ''set''" "token_ok KW_PRIMARY ''primary''"
  "token_ok LPAREN ''(''" "token_ok RPAREN '')''" "token_ok COMMA '',''" "token_ok OP_EQ ''=''"
  "token_ok OP_STAR ''*''" "token_ok OP_LT ''<''" "token_ok OP_GT ''>''"
  by code_simp+

definition printable :: "token_kind \<times> string \<Rightarrow> bool" where
  "printable p \<longleftrightarrow> token_ok (fst p) (snd p) \<and> NUL \<notin> set (snd p)"

lemma printable_ident: "ident n \<Longrightarrow> printable (IDENTIFIER, n)"
  using NUL_notin_word by (auto simp: printable_def ident_def token_ok_def)

lemma printable_keyword [parse_simps]:
  "NUL \<notin> set l \<Longrightarrow> printable (k, l) \<longleftrightarrow> token_ok k l"
  by (simp add: printable_def)

lemma printable_literal: "literal_ok v b \<Longrightarrow> printable (literal_token v b)"
  using NUL_class
  by (auto simp: printable_def literal_ok_def literal_token_def token_ok_def list_all_iff)

lemma printable_op: "p \<in> {''='', ''<'', ''>''} \<Longrightarrow> printable (op_token p)"
  by (auto simp: op_token_def parse_simps)

lemma printable_type: "type_ok t \<Longrightarrow> printable (match_keyword t, t)"
  using NUL_notin_word by (auto simp: printable_def type_ok_def token_ok_def)

lemmas printable_intros = printable_ident printable_literal printable_op printable_type

lemma printable_where: "pred_option where_ok w \<Longrightarrow> list_all printable (where_tokens w)"
  by (cases w) (auto simp: where_ok_def parse_simps intro: printable_intros)

lemma printable_column: "column_ok c \<Longrightarrow> list_all printable (column_tokens c)"
  by (auto simp: column_ok_def column_tokens_def parse_simps intro: printable_intros)

lemma printable_closed_list:
  "(\<And>x. x \<in> set xs \<Longrightarrow> list_all printable (f x)) \<Longrightarrow> list_all printable (closed_list f xs)"
  by (induction f xs rule: closed_list.induct) (auto simp: parse_simps)

lemma printable_values:
  "list_all2 literal_ok vs bs \<Longrightarrow>
   list_all printable (closed_list (\<lambda>(v, b). [literal_token v b]) (zip vs bs))"
  by (intro printable_closed_list) (auto simp: list_all2_iff intro!: printable_literal dest!: bspec)

lemma printable_stmt: "stmt_ok st \<Longrightarrow> list_all printable (stmt_tokens st)"
proof (cases st)
  case (CREATE_TABLE s)
  then show "stmt_ok st \<Longrightarrow> ?thesis"
    using printable_closed_list [of "ct_columns s" column_tokens] printable_column
    by (auto simp: parse_simps list_all_iff [of column_ok] intro: printable_intros)
qed (auto simp: parse_simps intro: printable_intros printable_where printable_values)

lemma NUL_notin_render: "list_all printable ps \<Longrightarrow> NUL \<notin> set (render ps)"
  by (induction ps rule: render.induct) (auto simp: printable_def token_text_def)

lemma lexed_print: "stmt_ok st \<Longrightarrow> lexed (c_str (print_stmt st)) (stmt_tokens st)"
proof -
  assume ok: "stmt_ok st"
  have "list_all (\<lambda>(k, l). token_ok k l) (stmt_tokens st)"
    using printable_stmt [OF ok] by (rule list.pred_mono_strong) (auto simp: printable_def)
  then show ?thesis
    using NUL_notin_render [OF printable_stmt [OF ok]] by (simp add: print_stmt_def c_str_id lexed_render)
qed

section \<open>From texts to statements\<close>

text \<open>The token of a text and a canonical token agree.\<close>

definition pair_agrees :: "token_kind \<times> string \<Rightarrow> token_kind \<times> string \<Rightarrow> bool" where
  "pair_agrees p q \<longleftrightarrow> fst p = fst q \<and> (keeps_lexeme (fst q) \<longrightarrow> snd p = snd q)"

lemma pair_agrees_refl [simp]: "list_all2 pair_agrees ps ps"
  by (simp add: list.rel_refl pair_agrees_def)

lemma tokenize_lexed:
  assumes "lexed (c_str s) ps"
  shows "\<not> lx_has_error (snd (tokenize (Some s)))"
    "\<exists>ts e. fst (tokenize (Some s)) = ts @ [e] \<and> map token_pair ts = ps \<and> tok_kind e = END_OF_FILE"
proof -
  have "map token_pair (fst (tokenize_loop (lexer_start (c_str s)))) = ps
      \<and> \<not> lx_has_error (snd (tokenize_loop (lexer_start (c_str s))))"
    using tokenize_loop_complete [OF assms] by (simp add: lexer_start_def)
  moreover have "tokenize_loop (lexer_start []) = ([], lexer_start [])"
    by (subst tokenize_loop.simps) (simp add: lexer_start_def)
  ultimately show "\<not> lx_has_error (snd (tokenize (Some s)))"
    "\<exists>ts e. fst (tokenize (Some s)) = ts @ [e] \<and> map token_pair ts = ps \<and> tok_kind e = END_OF_FILE"
    by (auto simp: tokenize_def eof_token_def lexer_start_def split: prod.split)
qed

lemma agrees_map_pair: "list_all2 pair_agrees (map token_pair us) ps \<Longrightarrow> list_all2 agrees us ps"
  by (simp add: list_all2_map1 pair_agrees_def token_pair_def agrees_def [abs_def])

lemma parse_sql_agrees:
  assumes "stmt_ok st" and "lexed (c_str s) (ps @ rest)" and "list_all2 pair_agrees ps (stmt_tokens st)"
    and "rest = [] \<or> fst (hd rest) \<noteq> KW_WHERE"
  shows "parse_sql (Some s) = Some st"
proof -
  obtain ts e where ts: "fst (tokenize (Some s)) = ts @ [e]" "map token_pair ts = ps @ rest"
      "tok_kind e = END_OF_FILE"
    using tokenize_lexed(2) [OF assms(2)] by blast
  then obtain us vs where uv: "ts = us @ vs" "map token_pair us = ps" "map token_pair vs = rest"
    by (auto simp: map_eq_append_conv)
  obtain d r where d: "vs @ [e] = d # r" by (cases "vs @ [e]") auto
  then have "tok_kind d \<noteq> KW_WHERE"
    using uv(3) ts(3) assms(4) by (cases vs) (auto simp: token_pair_def)
  then have "\<exists>x. parse_statement (us @ d # r) = Some (st, x)"
    using parse_statement_agrees [OF assms(1) agrees_map_pair, of us d r] uv(2) assms(3) by auto
  then show ?thesis
    using tokenize_lexed(1) [OF assms(2)] ts uv d
    by (auto simp: parse_sql_def parse_tokens_def split: prod.split)
qed

lemma parse_print: "stmt_ok st \<Longrightarrow> parse_sql (Some (print_stmt st)) = Some st"
  using parse_sql_agrees [of st "print_stmt st" "stmt_tokens st" "[]"] lexed_print by simp

lemma parse_sql_result:
  assumes "texts_in sql \<Longrightarrow> tx"
  shows "\<exists>st. parse_sql sql = Some st \<and> stmt_result tx st"
proof (cases "lx_has_error (snd (tokenize sql))")
  case True
  then show ?thesis using tokenize_error [OF True] by (auto simp: parse_sql_def stmt_result_def split: prod.split)
next
  case False
  obtain st r where "parse_statement (fst (tokenize sql)) = Some (st, r)" "stmt_result tx st"
    using parsesE [OF parses_statement tokenize_good [OF False assms]] .
  with False show ?thesis
    by (cases "tokenize sql") (simp add: parse_sql_def parse_tokens_def)
qed

lemma stmt_result_cases:
  assumes "stmt_result tx st"
  obtains (error) e where "st = INVALID e" "e \<noteq> []" "short e" | (statement) "stmt_form tx st" "stmt_ok st" "\<not> is_invalid st"
  using assms by (cases st) (auto simp: stmt_result_def is_error_def stmt_form_def)

lemma parse_sql_total: "\<exists>st. parse_sql sql = Some st \<and> (is_error st \<or> stmt_ok st)"
  using parse_sql_result [of sql True] by (auto simp: stmt_result_def stmt_form_def)

lemma is_error_wf: "is_error st \<or> stmt_ok st \<Longrightarrow> stmt_wf st"
  by (auto simp: is_error_def stmt_ok_wf)

section \<open>Properties\<close>

text \<open>C3. Printing and parsing are inverse: every well-formed statement, printed with the keywords
  of the dialect and one space between tokens, is parsed back to itself.\<close>

theorem print_then_parse:
  assumes "stmt_ok st"
  shows "parse_sql (Some (print_stmt st)) = Some st"
  by (rule parse_print [OF assms])

definition sample_update :: sql_statement where
  "sample_update = UPDATE \<lparr>upd_table_name = ''t'', upd_set_column = ''name'', upd_set_value = ''a = 1'',
     upd_set_is_int = False, upd_where = Some \<lparr>wc_column = ''id'', wc_op = ''<'', wc_const_value = ''42'',
       wc_is_int_literal = True\<rparr>\<rparr>"

lemma sample_update_ok: "stmt_ok sample_update"
proof -
  have "ident ''t'' \<and> ident ''name'' \<and> literal_ok ''a = 1'' False
    \<and> where_ok \<lparr>wc_column = ''id'', wc_op = ''<'', wc_const_value = ''42'', wc_is_int_literal = True\<rparr>"
    by code_simp
  then show ?thesis by (simp add: sample_update_def)
qed

theorem print_then_parse_witness:
  "parse_sql (Some (print_stmt sample_update)) = Some sample_update"
  by (rule print_then_parse [OF sample_update_ok])

text \<open>C15. The layout does not matter: a text whose tokens are those of a statement, with any white
  space, any case of the keywords and an optional semicolon, is parsed to the statement. What
  follows the statement is ignored too, provided that the whole text has a token sequence (a
  character that begins no token makes the lexer fail) and that it does not go on with a WHERE.\<close>

theorem parse_any_layout:
  assumes "stmt_ok st" and "lexed (c_str s) (ps @ rest)" and "list_all2 pair_agrees ps (stmt_tokens st)"
    and "rest = [] \<or> fst (hd rest) \<noteq> KW_WHERE"
  shows "parse_sql (Some s) = Some st"
  by (rule parse_sql_agrees [OF assms])

definition sample_text :: string where
  "sample_text = ''DROP  Table t1'' @ [LF] @ ''; nonsense''"

lemma sample_text_tokens:
  "map token_pair (butlast (fst (tokenize (Some sample_text))))
     = [(KW_DROP, ''DROP''), (KW_TABLE, ''Table''), (IDENTIFIER, ''t1'')] @ [(SEMICOLON, '';''), (IDENTIFIER, ''nonsense'')]
   \<and> fst (tokenize (Some sample_text)) \<noteq> [] \<and> \<not> lx_has_error (snd (tokenize (Some sample_text)))"
  by code_simp

lemma sample_text_lexed:
  "lexed (c_str sample_text) ([(KW_DROP, ''DROP''), (KW_TABLE, ''Table''), (IDENTIFIER, ''t1'')]
     @ [(SEMICOLON, '';''), (IDENTIFIER, ''nonsense'')])"
  using tokenize_sound [of sample_text "butlast (fst (tokenize (Some sample_text)))"
      "last (fst (tokenize (Some sample_text)))" "snd (tokenize (Some sample_text))"] sample_text_tokens
  by simp

lemma sample_drop_ok:
  "stmt_ok (DROP_TABLE ''t1'')
   \<and> list_all2 pair_agrees [(KW_DROP, ''DROP''), (KW_TABLE, ''Table''), (IDENTIFIER, ''t1'')] (stmt_tokens (DROP_TABLE ''t1''))"
  by code_simp

theorem parse_any_layout_witness:
  "parse_sql (Some sample_text) = Some (DROP_TABLE ''t1'')"
  using parse_any_layout [OF _ sample_text_lexed, of "DROP_TABLE ''t1''"] sample_drop_ok by simp

text \<open>C14. The parser returns on every input, the null pointer included, without reading beyond the
  token vector. What it returns is an INVALID statement, with a message that is not empty, fits
  the message buffer and holds no quote and no line end, or a well-formed one: a name where a name
  is needed, an operator of the three, one literal flag per value, at most one primary key. A
  text without quotes gives no text literals: only integers, and the empty text for a literal
  that is missing.\<close>

theorem parse_sql_returns:
  "\<exists>st. parse_sql sql = Some st
     \<and> ((\<exists>e. st = INVALID e \<and> e \<noteq> [] \<and> clean e \<and> length e < 512) \<or> stmt_ok st)
     \<and> (\<not> texts_in sql \<longrightarrow> (\<forall>(v, is_int) \<in> set (stmt_literals st). is_int \<or> v = []))"
proof -
  obtain st where st: "parse_sql sql = Some st" "stmt_result (texts_in sql) st"
    using parse_sql_result [of sql "texts_in sql"] by auto
  from st(2) show ?thesis
    by (cases rule: stmt_result_cases) (use st(1) in \<open>auto simp: short_def stmt_form_def literal_form_def\<close>)
qed

theorem parse_sql_returns_witness:
  "\<exists>st. parse_sql (Some ''insert into t values (1,)'') = Some st \<and> (\<forall>(v, is_int) \<in> set (stmt_literals st). is_int \<or> v = [])"
  using parse_sql_returns [of "Some ''insert into t values (1,)''"] by (auto simp: texts_in_def)

end
