(* ===== verification/C_Api.thy ===== *)
theory C_Api
  imports Sql_Print
begin

text \<open>
  The C interface to the parser (src/include/minidb/parser.h, src/parser/parser_c.cpp): a
  handle with the statement and its flattened arrays, and the accessors, which answer 0 (here
  \<open>None\<close>) for a statement of another kind. A caller can rebuild from the accessors exactly the
  statement the C++ parser returns.
\<close>

section \<open>The handle\<close>

record c_column_def =
  ccd_name :: string
  ccd_type :: string
  ccd_is_primary :: int

record c_where =
  cw_column :: string
  cw_op :: string
  cw_const_value :: string
  cw_is_int_literal :: int

text \<open>An array pointer is null or the list it points at.\<close>

record c_stmt =
  cs_ast :: sql_statement
  cs_columns :: "c_column_def list option"
  cs_column_count :: nat
  cs_insert_values :: "string list option"
  cs_insert_is_int :: "int list option"
  cs_value_count :: nat
  cs_error_buf :: "string option"

definition c_stmt_new :: "sql_statement \<Rightarrow> c_stmt" where
  "c_stmt_new ast = \<lparr>cs_ast = ast, cs_columns = None, cs_column_count = 0, cs_insert_values = None,
     cs_insert_is_int = None, cs_value_count = 0, cs_error_buf = None\<rparr>"

definition c_bool :: "bool \<Rightarrow> int" where
  "c_bool b = (if b then 1 else 0)"

definition flatten_columns :: "column_def list \<Rightarrow> c_stmt \<Rightarrow> c_stmt" where
  "flatten_columns cols h =
     (let h1 = h\<lparr>cs_column_count := length cols\<rparr>
      in if length cols = 0 then h1
         else h1\<lparr>cs_columns := Some (map (\<lambda>c. \<lparr>ccd_name = cd_name c, ccd_type = cd_type c,
                                            ccd_is_primary = c_bool (cd_is_primary c)\<rparr>) cols)\<rparr>)"

definition flatten_insert :: "insert_stmt \<Rightarrow> c_stmt \<Rightarrow> c_stmt option" where
  "flatten_insert s h =
     (let h1 = h\<lparr>cs_value_count := length (ins_values s)\<rparr>
      in if length (ins_values s) = 0 then Some h1
         else do {
           bs \<leftarrow> for_range 0 (length (ins_values s))
             (\<lambda>i acc. do { b \<leftarrow> vec_at (ins_is_int s) i; Some (acc @ [c_bool b]) }) [];
           Some (h1\<lparr>cs_insert_values := Some (ins_values s), cs_insert_is_int := Some bs\<rparr>)
         })"

definition minidb_parse :: "string option \<Rightarrow> c_stmt option" where
  "minidb_parse sql = do {
     ast \<leftarrow> parse_sql sql;
     let h = c_stmt_new ast;
     case ast of
       CREATE_TABLE s \<Rightarrow> Some (flatten_columns (ct_columns s) h)
     | INSERT s \<Rightarrow> flatten_insert s h
     | _ \<Rightarrow> Some h
   }"

section \<open>The accessors\<close>

fun minidb_stmt_kind_of :: "sql_statement \<Rightarrow> nat" where
  "minidb_stmt_kind_of (CREATE_DATABASE n) = 0"
| "minidb_stmt_kind_of (DROP_DATABASE n) = 1"
| "minidb_stmt_kind_of (USE n) = 2"
| "minidb_stmt_kind_of (CREATE_TABLE s) = 3"
| "minidb_stmt_kind_of (DROP_TABLE n) = 4"
| "minidb_stmt_kind_of (SELECT s) = 5"
| "minidb_stmt_kind_of (DELETE s) = 6"
| "minidb_stmt_kind_of (INSERT s) = 7"
| "minidb_stmt_kind_of (UPDATE s) = 8"
| "minidb_stmt_kind_of (INVALID e) = 9"

definition minidb_stmt_kind :: "c_stmt \<Rightarrow> nat" where
  "minidb_stmt_kind h = minidb_stmt_kind_of (cs_ast h)"

definition minidb_stmt_error :: "c_stmt \<Rightarrow> string \<times> c_stmt" where
  "minidb_stmt_error h =
     (case cs_ast h of INVALID e \<Rightarrow> (e, h\<lparr>cs_error_buf := Some e\<rparr>) | _ \<Rightarrow> ([], h))"

definition minidb_stmt_kind_name :: "nat \<Rightarrow> string" where
  "minidb_stmt_kind_name k =
     (if k = 0 then ''CREATE DATABASE'' else if k = 1 then ''DROP DATABASE'' else if k = 2 then ''USE''
      else if k = 3 then ''CREATE TABLE'' else if k = 4 then ''DROP TABLE'' else if k = 5 then ''SELECT''
      else if k = 6 then ''DELETE'' else if k = 7 then ''INSERT'' else if k = 8 then ''UPDATE''
      else if k = 9 then ''INVALID'' else ''UNKNOWN'')"

definition minidb_get_database_name :: "c_stmt \<Rightarrow> string option" where
  "minidb_get_database_name h =
     (case cs_ast h of CREATE_DATABASE n \<Rightarrow> Some n | DROP_DATABASE n \<Rightarrow> Some n | USE n \<Rightarrow> Some n | _ \<Rightarrow> None)"

definition minidb_get_create_table :: "c_stmt \<Rightarrow> (string \<times> c_column_def list option \<times> nat) option" where
  "minidb_get_create_table h =
     (case cs_ast h of CREATE_TABLE s \<Rightarrow> Some (ct_table_name s, cs_columns h, cs_column_count h) | _ \<Rightarrow> None)"

definition minidb_get_table_name :: "c_stmt \<Rightarrow> string option" where
  "minidb_get_table_name h = (case cs_ast h of DROP_TABLE n \<Rightarrow> Some n | _ \<Rightarrow> None)"

text \<open>The out-parameters \<open>has_where\<close> and \<open>where\<close>; the second is written only when there is one.\<close>

definition fill_where :: "where_clause option \<Rightarrow> int \<times> c_where option" where
  "fill_where wh =
     (c_bool (wh \<noteq> None),
      map_option (\<lambda>w. \<lparr>cw_column = wc_column w, cw_op = wc_op w, cw_const_value = wc_const_value w,
                      cw_is_int_literal = c_bool (wc_is_int_literal w)\<rparr>) wh)"

definition minidb_get_select :: "c_stmt \<Rightarrow> (string \<times> string \<times> int \<times> c_where option) option" where
  "minidb_get_select h =
     (case cs_ast h of
        SELECT s \<Rightarrow> Some (sel_column_name s, sel_table_name s, fill_where (sel_where s)) | _ \<Rightarrow> None)"

definition minidb_get_delete :: "c_stmt \<Rightarrow> (string \<times> int \<times> c_where option) option" where
  "minidb_get_delete h =
     (case cs_ast h of DELETE s \<Rightarrow> Some (del_table_name s, fill_where (del_where s)) | _ \<Rightarrow> None)"

definition minidb_get_insert :: "c_stmt \<Rightarrow> (string \<times> string list option \<times> int list option \<times> nat) option" where
  "minidb_get_insert h =
     (case cs_ast h of
        INSERT s \<Rightarrow> Some (ins_table_name s, cs_insert_values h, cs_insert_is_int h, cs_value_count h) | _ \<Rightarrow> None)"

definition minidb_get_update :: "c_stmt \<Rightarrow> (string \<times> string \<times> string \<times> int \<times> int \<times> c_where option) option" where
  "minidb_get_update h =
     (case cs_ast h of
        UPDATE s \<Rightarrow> Some (upd_table_name s, upd_set_column s, upd_set_value s, c_bool (upd_set_is_int s),
                          fill_where (upd_where s))
      | _ \<Rightarrow> None)"

section \<open>Rebuilding the statement\<close>

definition rebuild_where :: "int \<times> c_where option \<Rightarrow> where_clause option" where
  "rebuild_where p =
     (if fst p = 0 then None
      else map_option (\<lambda>w. \<lparr>wc_column = cw_column w, wc_op = cw_op w, wc_const_value = cw_const_value w,
                           wc_is_int_literal = (cw_is_int_literal w \<noteq> 0)\<rparr>) (snd p))"

definition array :: "'a list option \<Rightarrow> nat \<Rightarrow> 'a list" where
  "array p n = (case p of None \<Rightarrow> [] | Some xs \<Rightarrow> take n xs)"

text \<open>What a C caller can know of the statement, asking one accessor after the other.\<close>

definition c_rebuild :: "c_stmt \<Rightarrow> sql_statement" where
  "c_rebuild h =
     (let k = minidb_stmt_kind h
      in case minidb_get_database_name h of
           Some n \<Rightarrow> if k = 0 then CREATE_DATABASE n else if k = 1 then DROP_DATABASE n else USE n
         | None \<Rightarrow>
      (case minidb_get_create_table h of
           Some (t, cols, n) \<Rightarrow> CREATE_TABLE \<lparr>ct_table_name = t,
             ct_columns = map (\<lambda>c. \<lparr>cd_name = ccd_name c, cd_type = ccd_type c,
               cd_is_primary = (ccd_is_primary c \<noteq> 0)\<rparr>) (array cols n)\<rparr>
         | None \<Rightarrow>
      (case minidb_get_table_name h of
           Some n \<Rightarrow> DROP_TABLE n
         | None \<Rightarrow>
      (case minidb_get_select h of
           Some (c, t, w) \<Rightarrow> SELECT \<lparr>sel_column_name = c, sel_table_name = t, sel_where = rebuild_where w\<rparr>
         | None \<Rightarrow>
      (case minidb_get_delete h of
           Some (t, w) \<Rightarrow> DELETE \<lparr>del_table_name = t, del_where = rebuild_where w\<rparr>
         | None \<Rightarrow>
      (case minidb_get_insert h of
           Some (t, vs, bs, n) \<Rightarrow> INSERT \<lparr>ins_table_name = t, ins_values = array vs n,
             ins_is_int = map (\<lambda>b. b \<noteq> 0) (array bs n)\<rparr>
         | None \<Rightarrow>
      (case minidb_get_update h of
           Some (t, c, v, b, w) \<Rightarrow> UPDATE \<lparr>upd_table_name = t, upd_set_column = c, upd_set_value = v,
             upd_set_is_int = (b \<noteq> 0), upd_where = rebuild_where w\<rparr>
         | None \<Rightarrow> INVALID (fst (minidb_stmt_error h)))))))))"

lemmas accessor_defs = minidb_get_database_name_def minidb_get_create_table_def minidb_get_table_name_def
  minidb_get_select_def minidb_get_delete_def minidb_get_insert_def minidb_get_update_def
  minidb_stmt_error_def minidb_stmt_kind_def

lemma cs_ast_new [simp]: "cs_ast (c_stmt_new ast) = ast"
  by (simp add: c_stmt_new_def)

lemma c_bool_neq [simp]: "(c_bool b \<noteq> 0) = b" "(c_bool b = 0) = (\<not> b)"
  by (simp_all add: c_bool_def)

lemma rebuild_fill_where [simp]: "rebuild_where (fill_where wh) = wh"
  by (cases wh) (simp_all add: rebuild_where_def fill_where_def)

lemma flatten_columns_simps [simp]:
  "cs_ast (flatten_columns cols h) = cs_ast h" "cs_column_count (flatten_columns cols h) = length cols"
  by (simp_all add: flatten_columns_def Let_def)

lemma array_flatten_columns:
  "array (cs_columns (flatten_columns cols (c_stmt_new ast))) (length cols)
   = map (\<lambda>c. \<lparr>ccd_name = cd_name c, ccd_type = cd_type c, ccd_is_primary = c_bool (cd_is_primary c)\<rparr>) cols"
  by (simp add: flatten_columns_def array_def c_stmt_new_def Let_def)

lemma flatten_insert_eq:
  assumes "length (ins_values s) = length (ins_is_int s)"
  shows "flatten_insert s h = Some (if ins_values s = [] then h\<lparr>cs_value_count := 0\<rparr>
    else h\<lparr>cs_value_count := length (ins_values s), cs_insert_values := Some (ins_values s),
           cs_insert_is_int := Some (map c_bool (ins_is_int s))\<rparr>)"
proof -
  have "for_range 0 (length (ins_is_int s)) (\<lambda>i acc. do { b \<leftarrow> vec_at (ins_is_int s) i; Some (acc @ [c_bool b]) })
      ([] @ map c_bool (take 0 (ins_is_int s))) = Some ([] @ map c_bool (take (length (ins_is_int s)) (ins_is_int s)))"
    by (rule for_range_eq [where g = "\<lambda>j. [] @ map c_bool (take j (ins_is_int s))"]) (simp_all add: take_Suc_conv_app_nth)
  then show ?thesis using assms by (cases "ins_values s = []") (auto simp: flatten_insert_def Let_def)
qed

lemma flatten_insert_ok:
  assumes "length (ins_values s) = length (ins_is_int s)"
  shows "\<exists>h. flatten_insert s (c_stmt_new ast) = Some h \<and> cs_ast h = ast \<and> cs_value_count h = length (ins_values s)
    \<and> array (cs_insert_values h) (length (ins_values s)) = ins_values s
    \<and> array (cs_insert_is_int h) (length (ins_values s)) = map c_bool (ins_is_int s)"
  using assms by (auto simp: flatten_insert_eq array_def c_stmt_new_def)

lemma c_rebuild_parse:
  assumes "parse_sql sql = Some st" and "stmt_wf st"
  shows "\<exists>h. minidb_parse sql = Some h \<and> parse_sql sql = Some (c_rebuild h)"
proof (cases st)
  case (INSERT s)
  then obtain h where "flatten_insert s (c_stmt_new st) = Some h" "cs_ast h = st" "cs_value_count h = length (ins_values s)"
      "array (cs_insert_values h) (length (ins_values s)) = ins_values s"
      "array (cs_insert_is_int h) (length (ins_values s)) = map c_bool (ins_is_int s)"
    using flatten_insert_ok [of s st] assms(2) by auto
  then show ?thesis using INSERT assms(1)
    by (simp add: minidb_parse_def c_rebuild_def accessor_defs comp_def Let_def)
next
  case (CREATE_TABLE s)
  have "(\<lambda>c :: column_def. \<lparr>cd_name = cd_name c, cd_type = cd_type c, cd_is_primary = cd_is_primary c\<rparr>) = id"
    by (rule ext) simp
  then show ?thesis using CREATE_TABLE assms(1)
    by (simp add: minidb_parse_def c_rebuild_def accessor_defs array_flatten_columns comp_def Let_def
        del: One_nat_def)
qed (use assms(1) in \<open>simp_all add: minidb_parse_def c_rebuild_def accessor_defs c_stmt_new_def\<close>)

section \<open>Properties\<close>

text \<open>C16. The C interface loses nothing: for every text, the handle exists, and what a caller reads
  through the accessors (kind code, names, flattened columns and values, WHERE out-parameters,
  error message) is exactly the statement the C++ parser returns.\<close>

theorem c_api_is_faithful:
  "\<exists>h st. minidb_parse sql = Some h \<and> parse_sql sql = Some st \<and> c_rebuild h = st
     \<and> minidb_stmt_kind_name (minidb_stmt_kind h) = stmt_kind_name st"
proof -
  obtain st where st: "parse_sql sql = Some st" "is_error st \<or> stmt_ok st" using parse_sql_total by blast
  then have "stmt_wf st" by (simp add: is_error_wf)
  from c_rebuild_parse [OF st(1) this] st(1) obtain h
    where h: "minidb_parse sql = Some h" "c_rebuild h = st" by auto
  have "cs_ast h = st"
    using h(1) st(1) by (auto simp: minidb_parse_def flatten_insert_def Let_def split: sql_statement.splits if_splits)
  then have "minidb_stmt_kind_name (minidb_stmt_kind h) = stmt_kind_name st"
    by (cases st) (simp_all add: minidb_stmt_kind_def minidb_stmt_kind_name_def)
  with h st(1) show ?thesis by blast
qed

end
