(* ===== verification/Handle_Memory.thy ===== *)
theory Handle_Memory
  imports C_Api Heap_Blocks
begin

text \<open>
  The memory of a C handle (src/parser/parser_c.cpp): the blocks that \<open>minidb_parse\<close>,
  \<open>minidb_stmt_error\<close> and \<open>strdup_own\<close> allocate, and what \<open>minidb_stmt_free\<close> and the destructor
  release, on the heap of Heap_Blocks. The handles in memory are the handles of C_Api, and freeing one
  releases exactly what was allocated for it.
\<close>

section \<open>The blocks\<close>

datatype block =
    Chars string
  | Cols "(nat \<times> nat \<times> int) option list"
  | Ptrs "nat option list"
  | Ints "int option list"
  | Stmt_Block

fun set_col :: "nat \<Rightarrow> nat \<times> nat \<times> int \<Rightarrow> block \<Rightarrow> block option" where
  "set_col i c (Cols cs) = map_option Cols (vec_set cs i (Some c))"
| "set_col i c _ = None"

fun set_ptr :: "nat \<Rightarrow> nat \<Rightarrow> block \<Rightarrow> block option" where
  "set_ptr i p (Ptrs ps) = map_option Ptrs (vec_set ps i (Some p))"
| "set_ptr i p _ = None"

fun set_int :: "nat \<Rightarrow> int \<Rightarrow> block \<Rightarrow> block option" where
  "set_int i b (Ints bs) = map_option Ints (vec_set bs i (Some b))"
| "set_int i b _ = None"

text \<open>Reading an element of an array; an element that was never written is not readable.\<close>

definition get_col :: "nat \<Rightarrow> nat \<Rightarrow> block heap \<Rightarrow> (nat \<times> nat \<times> int) option" where
  "get_col a i h = (case hp_blocks h a of Some (Cols cs) \<Rightarrow> vec_at cs i \<bind> id | _ \<Rightarrow> None)"

definition get_ptr :: "nat \<Rightarrow> nat \<Rightarrow> block heap \<Rightarrow> nat option" where
  "get_ptr a i h = (case hp_blocks h a of Some (Ptrs ps) \<Rightarrow> vec_at ps i \<bind> id | _ \<Rightarrow> None)"

definition get_int :: "nat \<Rightarrow> nat \<Rightarrow> block heap \<Rightarrow> int option" where
  "get_int a i h = (case hp_blocks h a of Some (Ints bs) \<Rightarrow> vec_at bs i \<bind> id | _ \<Rightarrow> None)"

definition get_chars :: "nat \<Rightarrow> block heap \<Rightarrow> string option" where
  "get_chars a h = (case hp_blocks h a of Some (Chars s) \<Rightarrow> Some s | _ \<Rightarrow> None)"

section \<open>The handle and its operations\<close>

record c_handle =
  hd_self :: nat
  hd_ast :: sql_statement
  hd_columns :: "nat option"
  hd_column_count :: nat
  hd_insert_values :: "nat option"
  hd_insert_is_int :: "nat option"
  hd_value_count :: nat
  hd_error_buf :: "nat option"
  hd_kind_name_buf :: "nat option"

definition handle_new :: "nat \<Rightarrow> sql_statement \<Rightarrow> c_handle" where
  "handle_new self ast = \<lparr>hd_self = self, hd_ast = ast, hd_columns = None, hd_column_count = 0,
     hd_insert_values = None, hd_insert_is_int = None, hd_value_count = 0, hd_error_buf = None,
     hd_kind_name_buf = None\<rparr>"

definition strdup_own :: "string \<Rightarrow> block heap \<Rightarrow> nat \<times> block heap" where
  "strdup_own s h = hp_alloc (Chars s) h"

definition store_column :: "column_def list \<Rightarrow> nat \<Rightarrow> nat \<Rightarrow> block heap \<Rightarrow> block heap option" where
  "store_column cols a i h = do {
     c \<leftarrow> vec_at cols i;
     let (p, h) = strdup_own (cd_name c) h;
     let (q, h) = strdup_own (cd_type c) h;
     hp_modify a (set_col i (p, q, c_bool (cd_is_primary c))) h
   }"

definition flatten_columns_mem :: "column_def list \<Rightarrow> c_handle \<Rightarrow> block heap \<Rightarrow> (c_handle \<times> block heap) option" where
  "flatten_columns_mem cols hn h =
     (let hn = hn\<lparr>hd_column_count := length cols\<rparr>
      in if length cols = 0 then Some (hn, h)
         else do {
           let (a, h) = hp_alloc (Cols (replicate (length cols) None)) h;
           h \<leftarrow> for_range 0 (length cols) (store_column cols a) h;
           Some (hn\<lparr>hd_columns := Some a\<rparr>, h)
         })"

definition store_value :: "insert_stmt \<Rightarrow> nat \<Rightarrow> nat \<Rightarrow> nat \<Rightarrow> block heap \<Rightarrow> block heap option" where
  "store_value s a b i h = do {
     v \<leftarrow> vec_at (ins_values s) i;
     let (p, h) = strdup_own v h;
     h \<leftarrow> hp_modify a (set_ptr i p) h;
     lit \<leftarrow> vec_at (ins_is_int s) i;
     hp_modify b (set_int i (c_bool lit)) h
   }"

definition flatten_insert_mem :: "insert_stmt \<Rightarrow> c_handle \<Rightarrow> block heap \<Rightarrow> (c_handle \<times> block heap) option" where
  "flatten_insert_mem s hn h =
     (let hn = hn\<lparr>hd_value_count := length (ins_values s)\<rparr>
      in if length (ins_values s) = 0 then Some (hn, h)
         else do {
           let (a, h) = hp_alloc (Ptrs (replicate (length (ins_values s)) None)) h;
           let (b, h) = hp_alloc (Ints (replicate (length (ins_values s)) None)) h;
           h \<leftarrow> for_range 0 (length (ins_values s)) (store_value s a b) h;
           Some (hn\<lparr>hd_insert_values := Some a, hd_insert_is_int := Some b\<rparr>, h)
         })"

definition minidb_parse_mem :: "string option \<Rightarrow> block heap \<Rightarrow> (c_handle \<times> block heap) option" where
  "minidb_parse_mem sql h = do {
     let (self, h) = hp_alloc Stmt_Block h;
     ast \<leftarrow> parse_sql sql;
     let hn = handle_new self ast;
     case ast of
       CREATE_TABLE s \<Rightarrow> flatten_columns_mem (ct_columns s) hn h
     | INSERT s \<Rightarrow> flatten_insert_mem s hn h
     | _ \<Rightarrow> Some (hn, h)
   }"

text \<open>The pointer \<open>minidb_stmt_error\<close> returns; \<open>None\<close> stands for the static empty text.\<close>

definition minidb_stmt_error_mem :: "c_handle \<Rightarrow> block heap \<Rightarrow> (nat option \<times> c_handle \<times> block heap) option" where
  "minidb_stmt_error_mem hn h =
     (case hd_ast hn of
        INVALID e \<Rightarrow> do {
          h \<leftarrow> hp_free (hd_error_buf hn) h;
          let (p, h) = strdup_own e h;
          Some (Some p, hn\<lparr>hd_error_buf := Some p\<rparr>, h)
        }
      | _ \<Rightarrow> Some (None, hn, h))"

definition free_column :: "nat \<Rightarrow> nat \<Rightarrow> block heap \<Rightarrow> block heap option" where
  "free_column a i h = do {
     (p, q, b) \<leftarrow> get_col a i h;
     h \<leftarrow> hp_free (Some p) h;
     hp_free (Some q) h
   }"

definition free_value :: "nat \<Rightarrow> nat \<Rightarrow> block heap \<Rightarrow> block heap option" where
  "free_value a i h = do { p \<leftarrow> get_ptr a i h; hp_free (Some p) h }"

definition handle_delete :: "c_handle \<Rightarrow> block heap \<Rightarrow> block heap option" where
  "handle_delete hn h = do {
     h \<leftarrow> hp_free (hd_columns hn) h;
     h \<leftarrow> hp_free (hd_insert_values hn) h;
     h \<leftarrow> hp_free (hd_insert_is_int hn) h;
     h \<leftarrow> hp_free (hd_error_buf hn) h;
     hp_free (hd_kind_name_buf hn) h
   }"

definition minidb_stmt_free :: "c_handle \<Rightarrow> block heap \<Rightarrow> block heap option" where
  "minidb_stmt_free hn h = do {
     h \<leftarrow> (case hd_columns hn of
             None \<Rightarrow> Some h | Some a \<Rightarrow> for_range 0 (hd_column_count hn) (free_column a) h);
     h \<leftarrow> (case hd_insert_values hn of
             None \<Rightarrow> Some h | Some a \<Rightarrow> for_range 0 (hd_value_count hn) (free_value a) h);
     h \<leftarrow> handle_delete hn h;
     hp_free (Some (hd_self hn)) h
   }"

text \<open>A caller that asks for the error text \<open>n\<close> times.\<close>

fun ask_errors :: "nat \<Rightarrow> c_handle \<Rightarrow> block heap \<Rightarrow> (c_handle \<times> block heap) option" where
  "ask_errors 0 hn h = Some (hn, h)"
| "ask_errors (Suc n) hn h = do { (p, hn, h) \<leftarrow> minidb_stmt_error_mem hn h; ask_errors n hn h }"

section \<open>The handle a caller sees\<close>

definition read_column :: "nat \<Rightarrow> block heap \<Rightarrow> nat \<Rightarrow> c_column_def option" where
  "read_column a h i = do {
     (p, q, b) \<leftarrow> get_col a i h;
     n \<leftarrow> get_chars p h;
     t \<leftarrow> get_chars q h;
     Some \<lparr>ccd_name = n, ccd_type = t, ccd_is_primary = b\<rparr>
   }"

definition read_value :: "nat \<Rightarrow> block heap \<Rightarrow> nat \<Rightarrow> string option" where
  "read_value a h i = do { p \<leftarrow> get_ptr a i h; get_chars p h }"

definition read_array :: "(nat \<Rightarrow> block heap \<Rightarrow> nat \<Rightarrow> 'a option) \<Rightarrow> nat option \<Rightarrow> nat \<Rightarrow> block heap \<Rightarrow> 'a list option option" where
  "read_array f p n h =
     (case p of None \<Rightarrow> Some None | Some a \<Rightarrow> map_option Some (those (map (f a h) [0..<n])))"

definition read_text :: "nat option \<Rightarrow> block heap \<Rightarrow> string option option" where
  "read_text p h = (case p of None \<Rightarrow> Some None | Some a \<Rightarrow> map_option Some (get_chars a h))"

definition abs_handle :: "c_handle \<Rightarrow> block heap \<Rightarrow> c_stmt option" where
  "abs_handle hn h = do {
     cols \<leftarrow> read_array read_column (hd_columns hn) (hd_column_count hn) h;
     vals \<leftarrow> read_array read_value (hd_insert_values hn) (hd_value_count hn) h;
     ints \<leftarrow> read_array (\<lambda>a h i. get_int a i h) (hd_insert_is_int hn) (hd_value_count hn) h;
     err \<leftarrow> read_text (hd_error_buf hn) h;
     Some \<lparr>cs_ast = hd_ast hn, cs_columns = cols, cs_column_count = hd_column_count hn,
           cs_insert_values = vals, cs_insert_is_int = ints, cs_value_count = hd_value_count hn,
           cs_error_buf = err\<rparr>
   }"

section \<open>The blocks of a CREATE TABLE handle\<close>

definition texts_of :: "column_def list \<Rightarrow> block option list" where
  "texts_of cols = concat (map (\<lambda>c. [Some (Chars (cd_name c)), Some (Chars (cd_type c))]) cols)"

definition column_entry :: "block heap \<Rightarrow> column_def list \<Rightarrow> nat \<Rightarrow> nat \<times> nat \<times> int" where
  "column_entry h cols j = (hp_next h + (2 + 2 * j), hp_next h + Suc (2 + 2 * j), c_bool (cd_is_primary (cols ! j)))"

definition columns_part :: "block heap \<Rightarrow> column_def list \<Rightarrow> nat \<Rightarrow> block" where
  "columns_part h cols i =
     Cols (map (Some \<circ> column_entry h cols) [0..<i] @ replicate (length cols - i) None)"

lemma texts_of_simps [simp]:
  "texts_of [] = []" "texts_of (c # cs) = Some (Chars (cd_name c)) # Some (Chars (cd_type c)) # texts_of cs"
  "texts_of (cs @ ds) = texts_of cs @ texts_of ds" "length (texts_of cs) = 2 * length cs"
  by (simp_all add: texts_of_def) (induction cs, simp_all)

lemma store_column_region:
  assumes "i < length cols"
  shows "store_column cols (Suc (hp_next h)) i
       (region h ([Some Stmt_Block, Some (columns_part h cols i)] @ texts_of (take i cols)))
     = Some (region h ([Some Stmt_Block, Some (columns_part h cols (Suc i))] @ texts_of (take (Suc i) cols)))"
proof -
  let ?p = "hp_next h + (2 + 2 * i)" and ?q = "hp_next h + Suc (2 + 2 * i)"
  let ?texts = "texts_of (take (Suc i) cols)"
  have texts: "?texts = texts_of (take i cols) @ [Some (Chars (cd_name (cols ! i))), Some (Chars (cd_type (cols ! i)))]"
    using assms by (simp add: take_Suc_conv_app_nth)
  have part: "set_col i (column_entry h cols i) (columns_part h cols i) = Some (columns_part h cols (Suc i))"
    using assms by (cases "length cols - i") (auto simp: columns_part_def vec_set_def list_update_append)
  have "hp_modify (Suc (hp_next h)) (set_col i (column_entry h cols i))
      (region h ([Some Stmt_Block, Some (columns_part h cols i)] @ ?texts))
     = Some (region h ([Some Stmt_Block, Some (columns_part h cols (Suc i))] @ ?texts))"
    using modify_region [of "Suc (hp_next h)" h "[Some Stmt_Block]" "set_col i (column_entry h cols i)"
        "columns_part h cols i", OF _ part] by simp
  then show ?thesis
    using assms
    by (simp add: store_column_def strdup_own_def alloc_region texts column_entry_def)
qed

lemma flatten_columns_region:
  "flatten_columns_mem cols hn (region h [Some Stmt_Block])
   = Some (if cols = [] then (hn\<lparr>hd_column_count := 0\<rparr>, region h [Some Stmt_Block])
           else (hn\<lparr>hd_column_count := length cols, hd_columns := Some (Suc (hp_next h))\<rparr>,
                 region h ([Some Stmt_Block, Some (columns_part h cols (length cols))] @ texts_of cols)))"
proof -
  let ?g = "\<lambda>i. region h ([Some Stmt_Block, Some (columns_part h cols i)] @ texts_of (take i cols))"
  have "for_range 0 (length cols) (store_column cols (Suc (hp_next h))) (?g 0) = Some (?g (length cols))"
    by (rule for_range_eq [where g = ?g]) (simp_all add: store_column_region del: append_Cons append_Nil)
  then show ?thesis
    by (simp add: flatten_columns_mem_def alloc_region columns_part_def)
qed

lemma free_column_region:
  assumes "i < length cols"
  shows "free_column (Suc (hp_next h)) i
       (region h ([Some Stmt_Block, Some (columns_part h cols (length cols))] @ replicate (2 * i) None @ texts_of (drop i cols)))
     = Some (region h ([Some Stmt_Block, Some (columns_part h cols (length cols))] @ replicate (2 * Suc i) None
         @ texts_of (drop (Suc i) cols)))"
proof -
  let ?s = "[Some Stmt_Block, Some (columns_part h cols (length cols))]"
  let ?n = "Some (Chars (cd_name (cols ! i)))" and ?t = "Some (Chars (cd_type (cols ! i)))"
  let ?r = "texts_of (drop (Suc i) cols)"
  have texts: "texts_of (drop i cols) = ?n # ?t # ?r"
    using assms by (simp flip: Cons_nth_drop_Suc)
  have "get_col (Suc (hp_next h)) i (region h (?s @ xs)) = Some (column_entry h cols i)" for xs
    using assms blocks_region [of "Suc (hp_next h)" h "[Some Stmt_Block]"]
    by (simp add: get_col_def columns_part_def)
  moreover have "hp_free (Some (hp_next h + (2 + 2 * i))) (region h ((?s @ replicate (2 * i) None) @ ?n # ?t # ?r))
      = Some (region h ((?s @ replicate (2 * i) None) @ None # ?t # ?r))"
    by (rule free_region) simp
  moreover have "hp_free (Some (hp_next h + Suc (2 + 2 * i))) (region h ((?s @ replicate (2 * i) None @ [None]) @ ?t # ?r))
      = Some (region h ((?s @ replicate (2 * i) None @ [None]) @ None # ?r))"
    by (rule free_region) simp
  moreover have "replicate (2 * Suc i) None = replicate (2 * i) None @ [None, None :: block option]"
    by (simp add: replicate_append_same [symmetric])
  ultimately show ?thesis
    by (simp add: free_column_def column_entry_def texts)
qed

lemma free_columns_region:
  "for_range 0 (length cols) (free_column (Suc (hp_next h)))
     (region h ([Some Stmt_Block, Some (columns_part h cols (length cols))] @ texts_of cols))
   = Some (region h ([Some Stmt_Block, Some (columns_part h cols (length cols))] @ replicate (2 * length cols) None))"
proof -
  let ?g = "\<lambda>i. region h ([Some Stmt_Block, Some (columns_part h cols (length cols))] @ replicate (2 * i) None
    @ texts_of (drop i cols))"
  have "for_range 0 (length cols) (free_column (Suc (hp_next h))) (?g 0) = Some (?g (length cols))"
    by (rule for_range_eq [where g = ?g]) (simp_all add: free_column_region del: append_Cons append_Nil replicate.simps mult_Suc_right)
  then show ?thesis by simp
qed

section \<open>The blocks of an INSERT handle\<close>

definition values_part :: "block heap \<Rightarrow> insert_stmt \<Rightarrow> nat \<Rightarrow> block" where
  "values_part h s i =
     Ptrs (map (\<lambda>j. Some (hp_next h + (3 + j))) [0..<i] @ replicate (length (ins_values s) - i) None)"

definition flags_part :: "insert_stmt \<Rightarrow> nat \<Rightarrow> block" where
  "flags_part s i =
     Ints (map (\<lambda>j. Some (c_bool (ins_is_int s ! j))) [0..<i] @ replicate (length (ins_values s) - i) None)"

definition insert_blocks :: "block heap \<Rightarrow> insert_stmt \<Rightarrow> nat \<Rightarrow> block option list \<Rightarrow> block heap" where
  "insert_blocks h s i bs = region h ([Some Stmt_Block, Some (values_part h s i), Some (flags_part s i)] @ bs)"

abbreviation chars_of :: "string list \<Rightarrow> block option list" where
  "chars_of vs \<equiv> map (Some \<circ> Chars) vs"

lemma store_value_region:
  assumes "i < length (ins_values s)" and "length (ins_is_int s) = length (ins_values s)"
  shows "store_value s (Suc (hp_next h)) (Suc (Suc (hp_next h))) i (insert_blocks h s i (chars_of (take i (ins_values s))))
     = Some (insert_blocks h s (Suc i) (chars_of (take (Suc i) (ins_values s))))"
proof -
  let ?texts = "chars_of (take (Suc i) (ins_values s))"
  let ?v = "values_part h s" and ?f = "flags_part s"
  have texts: "?texts = chars_of (take i (ins_values s)) @ [Some (Chars (ins_values s ! i))]"
    using assms by (simp add: take_Suc_conv_app_nth)
  have v: "set_ptr i (hp_next h + (3 + i)) (?v i) = Some (?v (Suc i))"
    using assms by (cases "length (ins_values s) - i") (auto simp: values_part_def vec_set_def list_update_append)
  have f: "set_int i (c_bool (ins_is_int s ! i)) (?f i) = Some (?f (Suc i))"
    using assms by (cases "length (ins_values s) - i") (auto simp: flags_part_def vec_set_def list_update_append)
  have "hp_modify (Suc (hp_next h)) (set_ptr i (hp_next h + (3 + i)))
      (region h ([Some Stmt_Block] @ Some (?v i) # Some (?f i) # ?texts))
     = Some (region h ([Some Stmt_Block] @ Some (?v (Suc i)) # Some (?f i) # ?texts))"
    by (rule modify_region) (simp_all add: v)
  moreover have "hp_modify (Suc (Suc (hp_next h))) (set_int i (c_bool (ins_is_int s ! i)))
      (region h ([Some Stmt_Block, Some (?v (Suc i))] @ Some (?f i) # ?texts))
     = Some (region h ([Some Stmt_Block, Some (?v (Suc i))] @ Some (?f (Suc i)) # ?texts))"
    by (rule modify_region) (simp_all add: f)
  ultimately show ?thesis
    using assms
    by (simp add: store_value_def strdup_own_def insert_blocks_def alloc_region texts eval_nat_numeral)
qed

lemma flatten_insert_region:
  assumes "length (ins_is_int s) = length (ins_values s)"
  shows "flatten_insert_mem s hn (region h [Some Stmt_Block])
   = Some (if ins_values s = [] then (hn\<lparr>hd_value_count := 0\<rparr>, region h [Some Stmt_Block])
           else (hn\<lparr>hd_value_count := length (ins_values s), hd_insert_values := Some (Suc (hp_next h)),
                    hd_insert_is_int := Some (Suc (Suc (hp_next h)))\<rparr>,
                 insert_blocks h s (length (ins_values s)) (chars_of (ins_values s))))"
proof -
  let ?n = "length (ins_values s)"
  let ?g = "\<lambda>i. insert_blocks h s i (chars_of (take i (ins_values s)))"
  have "for_range 0 ?n (store_value s (Suc (hp_next h)) (Suc (Suc (hp_next h)))) (?g 0) = Some (?g ?n)"
    by (rule for_range_eq [where g = ?g]) (simp_all add: store_value_region assms)
  then show ?thesis
    by (simp add: flatten_insert_mem_def alloc_region insert_blocks_def values_part_def flags_part_def)
qed

lemma free_value_region:
  assumes "i < length (ins_values s)"
  shows "free_value (Suc (hp_next h)) i
       (insert_blocks h s (length (ins_values s)) (replicate i None @ chars_of (drop i (ins_values s))))
     = Some (insert_blocks h s (length (ins_values s)) (replicate (Suc i) None @ chars_of (drop (Suc i) (ins_values s))))"
proof -
  let ?s = "[Some Stmt_Block, Some (values_part h s (length (ins_values s))), Some (flags_part s (length (ins_values s)))]"
  let ?r = "chars_of (drop (Suc i) (ins_values s))"
  have texts: "chars_of (drop i (ins_values s)) = Some (Chars (ins_values s ! i)) # ?r"
    using assms by (simp flip: Cons_nth_drop_Suc)
  have "get_ptr (Suc (hp_next h)) i (region h (?s @ xs)) = Some (hp_next h + (3 + i))" for xs
    using assms blocks_region [of "Suc (hp_next h)" h "[Some Stmt_Block]"]
    by (simp add: get_ptr_def values_part_def)
  moreover have "hp_free (Some (hp_next h + (3 + i))) (region h ((?s @ replicate i None) @ Some (Chars (ins_values s ! i)) # ?r))
      = Some (region h ((?s @ replicate i None) @ None # ?r))"
    by (rule free_region) simp
  ultimately show ?thesis
    by (simp add: free_value_def insert_blocks_def texts replicate_app_Cons_same)
qed

lemma free_values_region:
  "for_range 0 (length (ins_values s)) (free_value (Suc (hp_next h)))
     (insert_blocks h s (length (ins_values s)) (chars_of (ins_values s)))
   = Some (insert_blocks h s (length (ins_values s)) (replicate (length (ins_values s)) None))"
proof -
  let ?n = "length (ins_values s)"
  let ?g = "\<lambda>i. insert_blocks h s ?n (replicate i None @ chars_of (drop i (ins_values s)))"
  have "for_range 0 ?n (free_value (Suc (hp_next h))) (?g 0) = Some (?g ?n)"
    by (rule for_range_eq [where g = ?g]) (simp_all add: free_value_region del: replicate.simps)
  then show ?thesis by simp
qed

section \<open>Releasing a handle\<close>

lemma free_create_table:
  "minidb_stmt_free ((handle_new (hp_next h) ast)\<lparr>hd_column_count := length cols, hd_columns := Some (Suc (hp_next h))\<rparr>)
     (region h ([Some Stmt_Block, Some (columns_part h cols (length cols))] @ texts_of cols))
   = Some (region h ([None, None] @ replicate (2 * length cols) None))"
  using free_columns_region [of cols h]
    free_region [of "Suc (hp_next h)" h "[Some Stmt_Block]"] free_region [of "hp_next h" h "[]"]
  by (simp add: minidb_stmt_free_def handle_delete_def handle_new_def)

lemma free_insert:
  "minidb_stmt_free ((handle_new (hp_next h) ast)\<lparr>hd_value_count := length (ins_values s),
       hd_insert_values := Some (Suc (hp_next h)), hd_insert_is_int := Some (Suc (Suc (hp_next h)))\<rparr>)
     (insert_blocks h s (length (ins_values s)) (chars_of (ins_values s)))
   = Some (region h ([None, None, None] @ replicate (length (ins_values s)) None))"
proof -
  let ?n = "length (ins_values s)" and ?r = "replicate (length (ins_values s)) None"
  have "hp_free (Some (Suc (hp_next h))) (insert_blocks h s ?n ?r)
      = Some (region h ([Some Stmt_Block, None, Some (flags_part s ?n)] @ ?r))"
    using free_region [of "Suc (hp_next h)" h "[Some Stmt_Block]"] by (simp add: insert_blocks_def)
  moreover have "hp_free (Some (Suc (Suc (hp_next h)))) (region h ([Some Stmt_Block, None, Some (flags_part s ?n)] @ ?r))
      = Some (region h ([Some Stmt_Block, None, None] @ ?r))"
    using free_region [of "Suc (Suc (hp_next h))" h "[Some Stmt_Block, None]"] by simp
  moreover have "hp_free (Some (hp_next h)) (region h ([Some Stmt_Block, None, None] @ ?r)) = Some (region h ([None, None, None] @ ?r))"
    using free_region [of "hp_next h" h "[]"] by simp
  ultimately show ?thesis
    using free_values_region [of s h] by (simp add: minidb_stmt_free_def handle_delete_def handle_new_def)
qed

text \<open>The handle of a statement that does not parse, after its error text was asked for \<open>n\<close> times.\<close>

definition error_handle :: "block heap \<Rightarrow> string \<Rightarrow> nat \<Rightarrow> c_handle \<times> block heap" where
  "error_handle h e n =
     ((handle_new (hp_next h) (INVALID e))\<lparr>hd_error_buf := if n = 0 then None else Some (hp_next h + n)\<rparr>,
      region h ([Some Stmt_Block] @ (if n = 0 then [] else replicate (n - 1) None @ [Some (Chars e)])))"

lemma error_step:
  "minidb_stmt_error_mem (fst (error_handle h e n)) (snd (error_handle h e n))
   = Some (Some (hp_next h + Suc n), error_handle h e (Suc n))"
proof (cases n)
  case 0
  then show ?thesis
    by (simp add: minidb_stmt_error_mem_def error_handle_def handle_new_def strdup_own_def alloc_region)
next
  case (Suc m)
  have "hp_free (Some (hp_next h + n)) (region h ((Some Stmt_Block # replicate m None) @ Some (Chars e) # []))
      = Some (region h ((Some Stmt_Block # replicate m None) @ None # []))"
    by (rule free_region) (simp add: Suc)
  then show ?thesis
    by (simp add: Suc minidb_stmt_error_mem_def error_handle_def handle_new_def strdup_own_def alloc_region
        replicate_app_Cons_same)
qed

lemma ask_errors_error: "ask_errors m (fst (error_handle h e n)) (snd (error_handle h e n)) = Some (error_handle h e (n + m))"
proof (induction m arbitrary: n)
  case 0
  then show ?case by simp
next
  case (Suc m)
  from Suc.IH [of "Suc n"] show ?case
    by (cases "error_handle h e (Suc n)") (simp add: error_step)
qed

lemma free_error:
  "minidb_stmt_free (fst (error_handle h e n)) (snd (error_handle h e n)) = Some (region h (replicate (Suc n) None))"
proof (cases n)
  case 0
  then show ?thesis using free_region [of "hp_next h" h "[]"]
    by (simp add: minidb_stmt_free_def handle_delete_def error_handle_def handle_new_def)
next
  case (Suc m)
  have "hp_free (Some (hp_next h + n)) (region h ((Some Stmt_Block # replicate m None) @ Some (Chars e) # []))
      = Some (region h ((Some Stmt_Block # replicate m None) @ None # []))"
    by (rule free_region) (simp add: Suc)
  then show ?thesis using Suc free_region [of "hp_next h" h "[]" Stmt_Block]
    by (simp add: minidb_stmt_free_def handle_delete_def error_handle_def handle_new_def replicate_app_Cons_same)
qed

section \<open>Reading a handle\<close>

lemma those_map: "(\<And>x. x \<in> set xs \<Longrightarrow> f x = Some (g x)) \<Longrightarrow> those (map f xs) = Some (map g xs)"
  by (induction xs) auto

lemma chars_at: "j < length bs \<Longrightarrow> bs ! j = Some (Chars s) \<Longrightarrow> get_chars (hp_next h + j) (region h bs) = Some s"
  by (simp add: get_chars_def region_def)

lemma texts_of_nth:
  "j < length cols \<Longrightarrow> texts_of cols ! (2 * j) = Some (Chars (cd_name (cols ! j)))
    \<and> texts_of cols ! Suc (2 * j) = Some (Chars (cd_type (cols ! j)))"
proof (induction cols arbitrary: j)
  case (Cons c cols)
  then show ?case by (cases j) simp_all
qed simp

lemma read_columns:
  "read_array read_column (Some (Suc (hp_next h))) (length cols)
     (region h ([Some Stmt_Block, Some (columns_part h cols (length cols))] @ texts_of cols))
   = Some (Some (map (\<lambda>c. \<lparr>ccd_name = cd_name c, ccd_type = cd_type c, ccd_is_primary = c_bool (cd_is_primary c)\<rparr>) cols))"
proof -
  let ?h = "region h ([Some Stmt_Block, Some (columns_part h cols (length cols))] @ texts_of cols)"
  let ?c = "\<lambda>i. \<lparr>ccd_name = cd_name (cols ! i), ccd_type = cd_type (cols ! i), ccd_is_primary = c_bool (cd_is_primary (cols ! i))\<rparr>"
  have "read_column (Suc (hp_next h)) ?h i = Some (?c i)" if i: "i < length cols" for i
  proof -
    have "get_col (Suc (hp_next h)) i ?h = Some (column_entry h cols i)"
      using i blocks_region [of "Suc (hp_next h)" h "[Some Stmt_Block]"] by (simp add: get_col_def columns_part_def)
    moreover have "get_chars (hp_next h + (2 + 2 * i)) ?h = Some (cd_name (cols ! i))"
      by (rule chars_at) (use i texts_of_nth [OF i] in simp_all)
    moreover have "get_chars (hp_next h + Suc (2 + 2 * i)) ?h = Some (cd_type (cols ! i))"
      by (rule chars_at) (use i texts_of_nth [OF i] in simp_all)
    ultimately show ?thesis by (simp add: read_column_def column_entry_def)
  qed
  then have "those (map (read_column (Suc (hp_next h)) ?h) [0..<length cols]) = Some (map ?c [0..<length cols])"
    by (intro those_map) simp
  moreover have "map ?c [0..<length cols]
      = map (\<lambda>c. \<lparr>ccd_name = cd_name c, ccd_type = cd_type c, ccd_is_primary = c_bool (cd_is_primary c)\<rparr>) cols"
    by (rule nth_equalityI) simp_all
  ultimately show ?thesis by (simp add: read_array_def)
qed

lemma read_inserts:
  fixes s :: insert_stmt and h :: "block heap"
  defines "m \<equiv> insert_blocks h s (length (ins_values s)) (chars_of (ins_values s))"
  assumes "length (ins_is_int s) = length (ins_values s)"
  shows "read_array read_value (Some (Suc (hp_next h))) (length (ins_values s)) m = Some (Some (ins_values s))"
    and "read_array (\<lambda>a h i. get_int a i h) (Some (Suc (Suc (hp_next h)))) (length (ins_values s)) m
       = Some (Some (map c_bool (ins_is_int s)))"
proof -
  let ?n = "length (ins_values s)"
  have "read_value (Suc (hp_next h)) m i = Some (ins_values s ! i)" if i: "i < ?n" for i
  proof -
    have "get_ptr (Suc (hp_next h)) i m = Some (hp_next h + (3 + i))"
      using i blocks_region [of "Suc (hp_next h)" h "[Some Stmt_Block]"]
      by (simp add: m_def insert_blocks_def get_ptr_def values_part_def)
    moreover have "get_chars (hp_next h + (3 + i)) m = Some (ins_values s ! i)"
      unfolding m_def insert_blocks_def by (rule chars_at) (use i in \<open>simp_all add: eval_nat_numeral\<close>)
    ultimately show ?thesis by (simp add: read_value_def)
  qed
  then have "those (map (read_value (Suc (hp_next h)) m) [0..<?n]) = Some (map ((!) (ins_values s)) [0..<?n])"
    by (intro those_map) simp
  then show "read_array read_value (Some (Suc (hp_next h))) ?n m = Some (Some (ins_values s))"
    by (simp add: read_array_def map_nth)
  have "get_int (Suc (Suc (hp_next h))) i m = Some (c_bool (ins_is_int s ! i))" if i: "i < ?n" for i
    using i blocks_region [of "Suc (Suc (hp_next h))" h "[Some Stmt_Block, Some (values_part h s ?n)]"]
    by (simp add: m_def insert_blocks_def get_int_def flags_part_def)
  then have "those (map (\<lambda>i. get_int (Suc (Suc (hp_next h))) i m) [0..<?n]) = Some (map (\<lambda>i. c_bool (ins_is_int s ! i)) [0..<?n])"
    by (intro those_map) simp
  moreover have "map (\<lambda>i. c_bool (ins_is_int s ! i)) [0..<?n] = map c_bool (ins_is_int s)"
    using assms(2) by (intro nth_equalityI) simp_all
  ultimately show "read_array (\<lambda>a h i. get_int a i h) (Some (Suc (Suc (hp_next h)))) ?n m = Some (Some (map c_bool (ins_is_int s)))"
    by (simp add: read_array_def)
qed

section \<open>The life of a handle\<close>

text \<open>A handle in memory, what a caller reads of it, and the released blocks it leaves when freed.\<close>

definition handle_lives :: "sql_statement \<Rightarrow> c_stmt \<Rightarrow> block heap \<Rightarrow> c_handle \<Rightarrow> block heap \<Rightarrow> bool" where
  "handle_lives st c h hn m \<longleftrightarrow> hd_ast hn = st \<and> abs_handle hn m = Some c
     \<and> (\<exists>k. minidb_stmt_free hn m = Some (region h (replicate k None)))"

lemma parse_mem_step:
  "parse_sql sql = Some st \<Longrightarrow> minidb_parse_mem sql h =
     (case st of
        CREATE_TABLE s \<Rightarrow> flatten_columns_mem (ct_columns s) (handle_new (hp_next h) st) (region h [Some Stmt_Block])
      | INSERT s \<Rightarrow> flatten_insert_mem s (handle_new (hp_next h) st) (region h [Some Stmt_Block])
      | _ \<Rightarrow> Some (handle_new (hp_next h) st, region h [Some Stmt_Block]))"
  by (simp add: minidb_parse_mem_def alloc_first split: sql_statement.split)

lemma new_handle_lives:
  "handle_lives st (c_stmt_new st) h (handle_new (hp_next h) st) (region h [Some Stmt_Block])"
proof -
  have "minidb_stmt_free (handle_new (hp_next h) st) (region h [Some Stmt_Block]) = Some (region h (replicate 1 None))"
    using free_region [of "hp_next h" h "[]"] by (simp add: minidb_stmt_free_def handle_delete_def handle_new_def)
  then have "\<exists>k. minidb_stmt_free (handle_new (hp_next h) st) (region h [Some Stmt_Block]) = Some (region h (replicate k None))"
    by blast
  then show ?thesis
    by (simp add: handle_lives_def)
      (simp add: abs_handle_def handle_new_def read_array_def read_text_def c_stmt_new_def)
qed

lemma create_table_lives:
  "\<exists>hn m. flatten_columns_mem cols (handle_new (hp_next h) st) (region h [Some Stmt_Block]) = Some (hn, m)
     \<and> handle_lives st (flatten_columns cols (c_stmt_new st)) h hn m"
proof (cases "cols = []")
  case True
  have "(handle_new (hp_next h) st)\<lparr>hd_column_count := 0\<rparr> = handle_new (hp_next h) st"
      "flatten_columns cols (c_stmt_new st) = c_stmt_new st"
    by (simp_all add: handle_new_def flatten_columns_def c_stmt_new_def True)
  then show ?thesis using True new_handle_lives [of st h] by (simp add: flatten_columns_region)
next
  case False
  let ?hn = "(handle_new (hp_next h) st)\<lparr>hd_column_count := length cols, hd_columns := Some (Suc (hp_next h))\<rparr>"
  let ?m = "region h ([Some Stmt_Block, Some (columns_part h cols (length cols))] @ texts_of cols)"
  have "[None, None] @ replicate (2 * length cols) None = replicate (Suc (Suc (2 * length cols))) (None :: block option)"
    by simp
  then have "\<exists>k. minidb_stmt_free ?hn ?m = Some (region h (replicate k None))"
    unfolding free_create_table by metis
  moreover have "abs_handle ?hn ?m = Some (flatten_columns cols (c_stmt_new st))"
    using False read_columns [of h cols]
    by (simp add: abs_handle_def handle_new_def read_text_def c_stmt_new_def flatten_columns_def)
      (simp add: read_array_def)
  ultimately have "handle_lives st (flatten_columns cols (c_stmt_new st)) h ?hn ?m"
    by (simp only: handle_lives_def) (simp add: handle_new_def)
  then show ?thesis unfolding flatten_columns_region using False by (simp only: if_False option.inject prod.inject) blast
qed

lemma insert_lives:
  assumes "length (ins_is_int s) = length (ins_values s)"
  shows "\<exists>hn m c. flatten_insert_mem s (handle_new (hp_next h) st) (region h [Some Stmt_Block]) = Some (hn, m)
     \<and> flatten_insert s (c_stmt_new st) = Some c \<and> handle_lives st c h hn m"
proof (cases "ins_values s = []")
  case True
  have "(handle_new (hp_next h) st)\<lparr>hd_value_count := 0\<rparr> = handle_new (hp_next h) st"
      "flatten_insert s (c_stmt_new st) = Some (c_stmt_new st)"
    using assms True by (simp_all add: handle_new_def flatten_insert_eq c_stmt_new_def)
  then show ?thesis using assms True new_handle_lives [of st h] by (simp add: flatten_insert_region)
next
  case False
  let ?n = "length (ins_values s)"
  let ?hn = "(handle_new (hp_next h) st)\<lparr>hd_value_count := ?n, hd_insert_values := Some (Suc (hp_next h)),
    hd_insert_is_int := Some (Suc (Suc (hp_next h)))\<rparr>"
  let ?m = "insert_blocks h s ?n (chars_of (ins_values s))"
  have "[None, None, None] @ replicate ?n None = replicate (Suc (Suc (Suc ?n))) (None :: block option)"
    by simp
  then have "\<exists>k. minidb_stmt_free ?hn ?m = Some (region h (replicate k None))"
    unfolding free_insert by metis
  moreover obtain c where c: "flatten_insert s (c_stmt_new st) = Some c" and "abs_handle ?hn ?m = Some c"
    using False assms read_inserts [OF assms, of h]
    by (simp add: flatten_insert_eq abs_handle_def handle_new_def read_text_def c_stmt_new_def)
      (simp add: read_array_def)
  ultimately have "handle_lives st c h ?hn ?m"
    by (simp only: handle_lives_def) (simp add: handle_new_def)
  then show ?thesis unfolding flatten_insert_region [OF assms] using False c
    by (simp only: if_False option.inject prod.inject) blast
qed

lemma minidb_parse_step:
  "parse_sql sql = Some st \<Longrightarrow> minidb_parse sql =
     (case st of
        CREATE_TABLE s \<Rightarrow> Some (flatten_columns (ct_columns s) (c_stmt_new st))
      | INSERT s \<Rightarrow> flatten_insert s (c_stmt_new st)
      | _ \<Rightarrow> Some (c_stmt_new st))"
  by (simp add: minidb_parse_def split: sql_statement.split)

lemma parse_lives:
  assumes "parse_sql sql = Some st" and "stmt_wf st"
  shows "\<exists>hn m c. minidb_parse_mem sql h = Some (hn, m) \<and> minidb_parse sql = Some c \<and> handle_lives st c h hn m"
proof (cases st)
  case (CREATE_TABLE s)
  then show ?thesis using create_table_lives [of "ct_columns s" h st]
    by (simp add: parse_mem_step [OF assms(1)] minidb_parse_step [OF assms(1)])
next
  case (INSERT s)
  then show ?thesis using insert_lives [of s h st] assms(2)
    by (simp add: parse_mem_step [OF assms(1)] minidb_parse_step [OF assms(1)])
qed (use new_handle_lives [of st h] in \<open>auto simp: parse_mem_step [OF assms(1)] minidb_parse_step [OF assms(1)]\<close>)

lemma ask_errors_valid: "\<not> is_invalid (hd_ast hn) \<Longrightarrow> ask_errors n hn m = Some (hn, m)"
  by (induction n) (cases "hd_ast hn"; simp add: minidb_stmt_error_mem_def)+

lemma abs_handle_ast: "abs_handle hn m = Some c \<Longrightarrow> cs_ast c = hd_ast hn"
  by (auto simp: abs_handle_def split: bind_splits)

lemma error_handle_lives:
  "\<exists>k. minidb_stmt_free (fst (error_handle h e n)) (snd (error_handle h e n)) = Some (region h (replicate k None))"
  using free_error by blast

lemma abs_error_handle:
  "abs_handle (fst (error_handle h e n)) (snd (error_handle h e n))
   = Some (if n = 0 then c_stmt_new (INVALID e) else snd (minidb_stmt_error (c_stmt_new (INVALID e))))"
proof -
  have "get_chars (hp_next h + n) (region h ((Some Stmt_Block # replicate (n - 1) None) @ [Some (Chars e)])) = Some e" if "n \<noteq> 0"
    by (rule chars_at) (use that in \<open>simp_all add: nth_append nth_Cons'\<close>)
  then show ?thesis
    by (cases n) (simp_all add: abs_handle_def error_handle_def handle_new_def read_array_def read_text_def
        c_stmt_new_def minidb_stmt_error_def)
qed

section \<open>Properties\<close>

text \<open>C17. The life of a handle: from any heap, \<open>minidb_parse\<close>, any number of calls of
  \<open>minidb_stmt_error\<close> and \<open>minidb_stmt_free\<close> never touch a dead block, free nothing twice, and
  leave exactly the blocks there were before; in between, the memory holds the handle of the
  abstract interface, with the text of the error once it was asked for.\<close>

theorem handles_are_released:
  assumes "heap_ok h"
  shows "\<exists>hn m c hn' m' m''. minidb_parse_mem sql h = Some (hn, m) \<and> minidb_parse sql = Some c \<and> abs_handle hn m = Some c
    \<and> ask_errors n hn m = Some (hn', m') \<and> abs_handle hn' m' = Some (if n = 0 then c else snd (minidb_stmt_error c))
    \<and> minidb_stmt_free hn' m' = Some m'' \<and> hp_blocks m'' = hp_blocks h"
proof -
  obtain st where st: "parse_sql sql = Some st" "is_error st \<or> stmt_ok st" using parse_sql_total by blast
  then have "stmt_wf st" by (simp add: is_error_wf)
  from parse_lives [OF st(1) this] obtain hn m c
    where p: "minidb_parse_mem sql h = Some (hn, m)" "minidb_parse sql = Some c" "handle_lives st c h hn m" by blast
  have released: "hp_blocks (region h (replicate k None)) = hp_blocks h" for k
    using region_released [OF assms, of "replicate k None"] by (simp add: set_replicate_conv_if)
  show ?thesis
  proof (cases "is_invalid st")
    case False
    with p(3) have "ask_errors n hn m = Some (hn, m)" "cs_ast c = st"
      by (auto simp: handle_lives_def ask_errors_valid dest: abs_handle_ast)
    moreover from this(2) False have "snd (minidb_stmt_error c) = c"
      by (cases st) (simp_all add: minidb_stmt_error_def)
    ultimately show ?thesis using p released by (fastforce simp: handle_lives_def)
  next
    case True
    then obtain e where e: "st = INVALID e" by (cases st) auto
    have start: "error_handle h e 0 = (hn, m)" "c = c_stmt_new st"
      using p(1,2) by (simp_all add: parse_mem_step [OF st(1)] minidb_parse_step [OF st(1)] e error_handle_def)
        (auto simp: handle_new_def)
    have "ask_errors n hn m = Some (error_handle h e n)" using ask_errors_error [of n h e 0] start(1) by simp
    moreover have "abs_handle hn m = Some c" using p(3) by (simp add: handle_lives_def)
    ultimately show ?thesis
      using p(1,2) start(2) e abs_error_handle [of h e n] error_handle_lives [of h e n] released
      by (cases "error_handle h e n") auto
  qed
qed

theorem handles_are_released_witness:
  "\<exists>hn m m''. minidb_parse_mem (Some sample_text) \<lparr>hp_blocks = Map.empty, hp_next = 0\<rparr> = Some (hn, m)
    \<and> minidb_stmt_free hn m = Some m'' \<and> hp_blocks m'' = Map.empty"
  using handles_are_released [of "\<lparr>hp_blocks = Map.empty, hp_next = 0\<rparr>" "Some sample_text" 0]
  by (auto simp: heap_ok_def)

end
