(* ===== verification/Row_Value.thy ===== *)
theory Row_Value
  imports C_Library
begin

text \<open>
  Values, rows and columns (src/storage/row.hpp, row.cpp, column.hpp, column.cpp). The first
  part models the discriminated union with its raw buffer, where the constructors, assignments
  and the destructor must keep the tag and the life of the string in the buffer in step; from
  there on a value is the datatype \<open>svalue\<close>. \<open>Value::compare\<close> makes it a linear order.
\<close>

section \<open>The union and its buffer\<close>

datatype value_tag = TAG_INT | TAG_STRING | TAG_NONE

text \<open>The buffer: raw bytes, a live string object, or a string object moved from.\<close>

datatype str_buf = Raw | Live string | Moved

record value_rep =
  vr_type :: value_tag
  vr_int :: int
  vr_buf :: str_buf

text \<open>Placement \<open>new\<close> over a live string would leak it, \<open>str_ref()\<close> of no string is undefined.\<close>

definition buf_new :: "str_buf \<Rightarrow> string \<Rightarrow> str_buf option" where
  "buf_new b s = (case b of Live t \<Rightarrow> None | _ \<Rightarrow> Some (Live s))"

definition buf_read :: "str_buf \<Rightarrow> string option" where
  "buf_read b = (case b of Live s \<Rightarrow> Some s | _ \<Rightarrow> None)"

definition buf_destroy :: "str_buf \<Rightarrow> str_buf option" where
  "buf_destroy b = (case b of Live s \<Rightarrow> Some Raw | _ \<Rightarrow> None)"

definition value_none :: value_rep where
  "value_none = \<lparr>vr_type = TAG_NONE, vr_int = 0, vr_buf = Raw\<rparr>"

definition value_of_int :: "int \<Rightarrow> value_rep" where
  "value_of_int v = \<lparr>vr_type = TAG_INT, vr_int = v, vr_buf = Raw\<rparr>"

definition value_of_string :: "string \<Rightarrow> value_rep option" where
  "value_of_string s = do { b \<leftarrow> buf_new Raw s; Some \<lparr>vr_type = TAG_STRING, vr_int = 0, vr_buf = b\<rparr> }"

definition value_copy :: "value_rep \<Rightarrow> value_rep option" where
  "value_copy other =
     (if vr_type other = TAG_STRING then do {
        s \<leftarrow> buf_read (vr_buf other);
        b \<leftarrow> buf_new Raw s;
        Some \<lparr>vr_type = TAG_STRING, vr_int = vr_int other, vr_buf = b\<rparr>
      } else Some \<lparr>vr_type = vr_type other, vr_int = vr_int other, vr_buf = Raw\<rparr>)"

text \<open>The move constructor: the new value and what \<open>other\<close> becomes.\<close>

definition value_move :: "value_rep \<Rightarrow> (value_rep \<times> value_rep) option" where
  "value_move other =
     (if vr_type other = TAG_STRING then do {
        s \<leftarrow> buf_read (vr_buf other);
        b \<leftarrow> buf_new Raw s;
        Some (\<lparr>vr_type = TAG_STRING, vr_int = vr_int other, vr_buf = b\<rparr>,
              other\<lparr>vr_type := TAG_NONE, vr_buf := Moved\<rparr>)
      } else Some (\<lparr>vr_type = vr_type other, vr_int = vr_int other, vr_buf = Raw\<rparr>,
                   other\<lparr>vr_type := TAG_NONE\<rparr>))"

text \<open>The destructor, returning the buffer it leaves.\<close>

definition value_delete :: "value_rep \<Rightarrow> str_buf option" where
  "value_delete v = (if vr_type v = TAG_STRING then buf_destroy (vr_buf v) else Some (vr_buf v))"

definition value_assign :: "bool \<Rightarrow> value_rep \<Rightarrow> value_rep \<Rightarrow> value_rep option" where
  "value_assign same this other =
     (if same then Some this else do {
        b \<leftarrow> value_delete this;
        if vr_type other = TAG_STRING then do {
          s \<leftarrow> buf_read (vr_buf other);
          b \<leftarrow> buf_new b s;
          Some \<lparr>vr_type = vr_type other, vr_int = vr_int other, vr_buf = b\<rparr>
        } else Some \<lparr>vr_type = vr_type other, vr_int = vr_int other, vr_buf = b\<rparr>
      })"

definition value_assign_move :: "bool \<Rightarrow> value_rep \<Rightarrow> value_rep \<Rightarrow> (value_rep \<times> value_rep) option" where
  "value_assign_move same this other =
     (if same then Some (this, this) else do {
        b \<leftarrow> value_delete this;
        if vr_type other = TAG_STRING then do {
          s \<leftarrow> buf_read (vr_buf other);
          b \<leftarrow> buf_new b s;
          Some (\<lparr>vr_type = TAG_STRING, vr_int = vr_int other, vr_buf = b\<rparr>,
                other\<lparr>vr_type := TAG_NONE, vr_buf := Moved\<rparr>)
        } else Some (\<lparr>vr_type = vr_type other, vr_int = vr_int other, vr_buf = b\<rparr>,
                     other\<lparr>vr_type := TAG_NONE\<rparr>)
      })"

text \<open>The tag says STRING exactly when a live string is in the buffer.\<close>

definition value_inv :: "value_rep \<Rightarrow> bool" where
  "value_inv v \<longleftrightarrow> (vr_type v = TAG_STRING) = (\<exists>s. vr_buf v = Live s)"

section \<open>Values\<close>

datatype svalue = V_INT int | V_STRING string | V_NONE

definition value_abs :: "value_rep \<Rightarrow> svalue" where
  "value_abs v =
     (case vr_type v of
        TAG_INT \<Rightarrow> V_INT (vr_int v)
      | TAG_STRING \<Rightarrow> V_STRING (case vr_buf v of Live s \<Rightarrow> s | _ \<Rightarrow> [])
      | TAG_NONE \<Rightarrow> V_NONE)"

lemma value_inv_cases:
  assumes "value_inv v"
  obtains s where "vr_type v = TAG_STRING" "vr_buf v = Live s"
  | "vr_type v \<noteq> TAG_STRING" "\<And>s. vr_buf v \<noteq> Live s"
  using assms by (auto simp: value_inv_def)

lemma buf_new_free: "(\<And>s. b \<noteq> Live s) \<Longrightarrow> buf_new b t = Some (Live t)"
  by (cases b) (auto simp: buf_new_def)

lemmas value_rep_defs = value_none_def value_of_int_def value_of_string_def value_copy_def
  value_move_def value_delete_def value_assign_def value_assign_move_def buf_read_def buf_destroy_def
  value_inv_def value_abs_def

lemma value_assign_ok:
  assumes "value_inv this" and "value_inv other"
  shows "\<exists>v. value_assign False this other = Some v \<and> value_inv v \<and> value_abs v = value_abs other"
proof -
  obtain b where b: "value_delete this = Some b" "\<And>s. b \<noteq> Live s"
    using assms(1) by (elim value_inv_cases) (auto simp: value_rep_defs)
  show ?thesis
    using assms(2) b buf_new_free [of b]
    by (elim value_inv_cases) (auto simp: value_rep_defs split: value_tag.splits)
qed

lemma value_assign_move_ok:
  assumes "value_inv this" and "value_inv other"
  shows "\<exists>v w. value_assign_move False this other = Some (v, w) \<and> value_inv v \<and> value_inv w
    \<and> value_abs v = value_abs other \<and> value_abs w = V_NONE"
proof -
  obtain b where b: "value_delete this = Some b" "\<And>s. b \<noteq> Live s"
    using assms(1) by (elim value_inv_cases) (auto simp: value_rep_defs)
  show ?thesis
    using assms(2) b buf_new_free [of b]
    by (elim value_inv_cases) (auto simp: value_rep_defs split: value_tag.splits)
qed

lemma value_copy_ok:
  "value_inv v \<Longrightarrow> \<exists>w. value_copy v = Some w \<and> value_inv w \<and> value_abs w = value_abs v"
  by (elim value_inv_cases) (auto simp: value_rep_defs buf_new_def split: value_tag.splits)

lemma value_move_ok:
  "value_inv v \<Longrightarrow> \<exists>w u. value_move v = Some (w, u) \<and> value_inv w \<and> value_inv u
     \<and> value_abs w = value_abs v \<and> value_abs u = V_NONE"
  by (elim value_inv_cases) (auto simp: value_rep_defs buf_new_def split: value_tag.splits)

lemma value_delete_ok: "value_inv v \<Longrightarrow> \<exists>b. value_delete v = Some b \<and> (\<forall>s. b \<noteq> Live s)"
  by (elim value_inv_cases) (auto simp: value_rep_defs)

section \<open>The order of values\<close>

fun value_compare :: "svalue \<Rightarrow> svalue \<Rightarrow> int" where
  "value_compare V_NONE V_NONE = 0"
| "value_compare V_NONE _ = - 1"
| "value_compare _ V_NONE = 1"
| "value_compare (V_INT a) (V_INT b) = (if a < b then - 1 else if a > b then 1 else 0)"
| "value_compare (V_STRING a) (V_STRING b) = strcmp a b"
| "value_compare (V_INT a) _ = - 1"
| "value_compare _ _ = 1"

lemma value_compare_eq_0 [simp]: "value_compare a b = 0 \<longleftrightarrow> a = b"
  by (cases a; cases b) auto

lemma value_compare_refl [simp]: "value_compare a a = 0"
  by simp

lemma value_compare_antisym: "value_compare b a = - value_compare a b"
proof (cases "\<exists>s t. a = V_STRING s \<and> b = V_STRING t")
  case True
  then obtain s t where "a = V_STRING s" "b = V_STRING t" by blast
  then show ?thesis using strcmp_antisym [of t s] by simp
next
  case False
  then show ?thesis by (cases a; cases b) auto
qed

lemma value_compare_trans: "value_compare a b < 0 \<Longrightarrow> value_compare b c < 0 \<Longrightarrow> value_compare a c < 0"
  by (cases a; cases b; cases c) (auto split: if_splits intro: strcmp_trans_less)

instantiation svalue :: linorder
begin

definition less_eq_svalue :: "svalue \<Rightarrow> svalue \<Rightarrow> bool" where
  "less_eq_svalue a b \<longleftrightarrow> value_compare a b \<le> 0"

definition less_svalue :: "svalue \<Rightarrow> svalue \<Rightarrow> bool" where
  "less_svalue a b \<longleftrightarrow> value_compare a b < 0"

instance
proof
  fix a b c :: svalue
  show "(a < b) = (a \<le> b \<and> \<not> b \<le> a)"
    using value_compare_antisym [of b a] by (auto simp: less_svalue_def less_eq_svalue_def)
  show "a \<le> a" by (simp add: less_eq_svalue_def)
  show "a \<le> b \<Longrightarrow> b \<le> c \<Longrightarrow> a \<le> c"
    using value_compare_trans [of a b c] by (cases "a = b"; cases "b = c") (auto simp: less_eq_svalue_def order_le_less)
  show "a \<le> b \<Longrightarrow> b \<le> a \<Longrightarrow> a = b"
    using value_compare_antisym [of b a] value_compare_eq_0 [of a b] unfolding less_eq_svalue_def by linarith
  show "a \<le> b \<or> b \<le> a"
    using value_compare_antisym [of b a] by (auto simp: less_eq_svalue_def)
qed

end

lemma value_compare_less [row_simps]: "value_compare a b < 0 \<longleftrightarrow> a < b"
  by (simp add: less_svalue_def)

lemma value_compare_greater [row_simps]: "0 < value_compare a b \<longleftrightarrow> b < a"
  using value_compare_antisym [of b a] by (simp add: less_svalue_def)

section \<open>Rows\<close>

type_synonym row = "svalue list"

definition add_value :: "svalue \<Rightarrow> row \<Rightarrow> row" where
  "add_value v r = r @ [v]"

definition get_value :: "row \<Rightarrow> nat \<Rightarrow> svalue option" where
  "get_value r i = vec_at r i"

fun is_int :: "svalue \<Rightarrow> bool" where
  "is_int (V_INT i) = True"
| "is_int _ = False"

fun is_string :: "svalue \<Rightarrow> bool" where
  "is_string (V_STRING s) = True"
| "is_string _ = False"

text \<open>\<open>int_value()\<close> is \<open>_int_val\<close>, which is 0 for the other tags.\<close>

fun int_value :: "svalue \<Rightarrow> int" where
  "int_value (V_INT i) = i"
| "int_value _ = 0"

text \<open>The integers of a row are 32-bit.\<close>

definition value_in_range :: "svalue \<Rightarrow> bool" where
  "value_in_range v \<longleftrightarrow> is_int v \<longrightarrow> in_int32 (int_value v)"

section \<open>Columns\<close>

datatype column_type = CT_INT | CT_STRING

record column =
  col_name :: string
  col_type :: column_type
  col_is_primary :: bool

definition type_from_string :: "string \<Rightarrow> column_type" where
  "type_from_string s = (if strcmp s ''int'' = 0 then CT_INT else CT_STRING)"

section \<open>Properties\<close>



text \<open>C25. \<open>Value::compare\<close> is a total order over NONE, integers and texts together: transitive,
  zero exactly on equal values, and negated when the arguments are swapped; NONE comes before
  the integers, these in their order before the texts.\<close>

theorem value_compare_total_order:
  assumes "value_compare a b \<le> 0" and "value_compare b c \<le> 0"
  shows "value_compare a c \<le> 0 \<and> (value_compare a c = 0 \<longleftrightarrow> a = b \<and> b = c)
    \<and> (value_compare v w = 0 \<longleftrightarrow> v = w) \<and> value_compare w v = - value_compare v w
    \<and> value_compare V_NONE (V_INT i) < 0 \<and> value_compare (V_INT i) (V_STRING s) < 0
    \<and> value_compare (V_INT i) (V_INT j) = sgn (i - j)"
proof -
  have "a \<le> b" and "b \<le> c" using assms by (simp_all add: less_eq_svalue_def)
  then have "a \<le> c" and "a = c \<longleftrightarrow> a = b \<and> b = c" by auto
  then show ?thesis using value_compare_antisym [of w v] by (simp add: less_eq_svalue_def)
qed

theorem value_compare_total_order_witness:
  "value_compare (V_INT 2) (V_STRING ''b'') \<le> 0"
  using value_compare_total_order [of "V_INT 2" "V_STRING ''a''" "V_STRING ''b''" V_NONE V_NONE 0 "[]" 0] by simp

end
