(* ===== verification/Table_Model.thy ===== *)
theory Table_Model
  imports Row_Value
begin

text \<open>
  Tables (src/storage/table.hpp, table.cpp): schema, rows, and the text file a table is saved
  to and loaded from. The file system is a parameter of the model, the record \<open>os\<close> of the
  system calls the program makes over a world \<open>'w\<close>; a call's failure is its \<open>False\<close>. The
  lemmas give the operations on rows, and the round trip of the file format for the tables it
  can represent (\<open>persistable\<close>).
\<close>

section \<open>The system calls\<close>

text \<open>
  \<open>os_write path text\<close> is \<open>fopen(path, "w")\<close> with the writes up to \<open>fclose\<close> (\<open>False\<close> when
  \<open>fopen\<close> returns null), \<open>os_read path\<close> the contents seen through \<open>fopen(path, "r")\<close>.
\<close>

record 'w os =
  os_write :: "string \<Rightarrow> string \<Rightarrow> 'w \<Rightarrow> bool \<times> 'w"
  os_read :: "string \<Rightarrow> 'w \<Rightarrow> string option"
  os_remove :: "string \<Rightarrow> 'w \<Rightarrow> bool \<times> 'w"
  os_mkdir :: "string \<Rightarrow> 'w \<Rightarrow> bool \<times> 'w"
  os_rmdir :: "string \<Rightarrow> 'w \<Rightarrow> bool \<times> 'w"

text \<open>
  \<open>os_write\<close> is \<open>fopen\<close>, the writes and \<open>fclose\<close>; its answer is whether the file could be opened, for
  the code looks at nothing else. What a file system promises when it could: that the writes,
  whose results the code does not check, did not fail (a disk that is full breaks it).
\<close>

definition reads_back :: "'w os \<Rightarrow> bool" where
  "reads_back os \<longleftrightarrow> (\<forall>p s w w'. os_write os p s w = (True, w') \<longrightarrow> os_read os p w' = Some s)"

text \<open>A write leaves the other files as they were; a directory with a file in it cannot be removed.\<close>

definition keeps_others :: "'w os \<Rightarrow> bool" where
  "keeps_others os \<longleftrightarrow> (\<forall>p q s w. p \<noteq> q \<longrightarrow> os_read os q (snd (os_write os p s w)) = os_read os q w)"

definition rmdir_needs_empty :: "'w os \<Rightarrow> bool" where
  "rmdir_needs_empty os \<longleftrightarrow> (\<forall>d n w. os_read os (d @ ''/'' @ n) w \<noteq> None \<longrightarrow> \<not> fst (os_rmdir os d w))"

text \<open>
  An instance: files and directories in memory. It shows that the three laws can hold
  together.
\<close>

record mem_fs =
  mf_files :: "(string \<times> string) list"
  mf_dirs :: "string list"

definition mem_os :: "mem_fs os" where
  "mem_os = \<lparr>os_write = \<lambda>p s w. (True, w\<lparr>mf_files := (p, s) # mf_files w\<rparr>),
     os_read = \<lambda>p w. map_of (mf_files w) p,
     os_remove = \<lambda>p w. (p \<in> fst ` set (mf_files w), w\<lparr>mf_files := filter (\<lambda>f. fst f \<noteq> p) (mf_files w)\<rparr>),
     os_mkdir = \<lambda>p w. if p \<in> set (mf_dirs w) then (False, w) else (True, w\<lparr>mf_dirs := p # mf_dirs w\<rparr>),
     os_rmdir = \<lambda>p w. if p \<in> set (mf_dirs w) \<and> (\<forall>f \<in> set (mf_files w). take (length p + 1) (fst f) \<noteq> p @ ''/'')
       then (True, w\<lparr>mf_dirs := removeAll p (mf_dirs w)\<rparr>) else (False, w)\<rparr>"

definition mem_empty :: mem_fs where
  "mem_empty = \<lparr>mf_files = [], mf_dirs = []\<rparr>"

lemma mem_os_laws: "reads_back mem_os" "keeps_others mem_os" "rmdir_needs_empty mem_os"
proof -
  show "reads_back mem_os" by (auto simp: reads_back_def mem_os_def)
  show "keeps_others mem_os" by (auto simp: keeps_others_def mem_os_def)
  show "rmdir_needs_empty mem_os"
    unfolding rmdir_needs_empty_def
  proof (intro allI impI)
    fix d n w assume "os_read mem_os (d @ ''/'' @ n) w \<noteq> None"
    then obtain s where "(d @ ''/'' @ n, s) \<in> set (mf_files w)" by (auto simp: mem_os_def dest: map_of_SomeD)
    moreover have "take (length d + 1) (fst (d @ ''/'' @ n, s)) = d @ ''/''" by simp
    ultimately have "\<not> (\<forall>f \<in> set (mf_files w). take (length d + 1) (fst f) \<noteq> d @ ''/'')" by blast
    then show "\<not> fst (os_rmdir mem_os d w)" by (simp add: mem_os_def)
  qed
qed

section \<open>Tables\<close>

record table =
  tb_name :: string
  tb_data_path :: string
  tb_columns :: "column list"
  tb_rows :: "row list"

definition table_new :: "string \<Rightarrow> table" where
  "table_new name = \<lparr>tb_name = name, tb_data_path = name @ ''.dat'', tb_columns = [], tb_rows = []\<rparr>"

definition table_new_in :: "string \<Rightarrow> string \<Rightarrow> table" where
  "table_new_in name data_dir =
     \<lparr>tb_name = name, tb_data_path = data_dir @ ''/'' @ name @ ''.dat'', tb_columns = [], tb_rows = []\<rparr>"

lemma table_new_in_simps [simp]:
  "tb_name (table_new_in n d) = n" "tb_columns (table_new_in n d) = []" "tb_rows (table_new_in n d) = []"
  "tb_data_path (table_new_in n d) = d @ ''/'' @ n @ ''.dat''"
  by (simp_all add: table_new_in_def)

definition add_column :: "column \<Rightarrow> table \<Rightarrow> table" where
  "add_column c t = t\<lparr>tb_columns := tb_columns t @ [c]\<rparr>"

text \<open>The two searches over the columns are one loop with different tests.\<close>

fun find_column_from :: "nat \<Rightarrow> column list \<Rightarrow> string \<Rightarrow> int" where
  "find_column_from i [] n = - 1"
| "find_column_from i (c # cs) n = (if col_name c = n then int i else find_column_from (Suc i) cs n)"

definition find_column :: "table \<Rightarrow> string \<Rightarrow> int" where
  "find_column t n = find_column_from 0 (tb_columns t) n"

fun primary_key_from :: "nat \<Rightarrow> column list \<Rightarrow> int" where
  "primary_key_from i [] = - 1"
| "primary_key_from i (c # cs) = (if col_is_primary c then int i else primary_key_from (Suc i) cs)"

definition primary_key_index :: "table \<Rightarrow> int" where
  "primary_key_index t = primary_key_from 0 (tb_columns t)"

definition insert_row :: "row \<Rightarrow> table \<Rightarrow> table" where
  "insert_row r t = t\<lparr>tb_rows := tb_rows t @ [r]\<rparr>"

definition remove_row :: "nat \<Rightarrow> table \<Rightarrow> table option" where
  "remove_row i t =
     (if i \<ge> length (tb_rows t) then Some t
      else do { rs \<leftarrow> shift_out (tb_rows t) i; Some (t\<lparr>tb_rows := rs\<rparr>) })"

definition update_row :: "nat \<Rightarrow> row \<Rightarrow> table \<Rightarrow> table" where
  "update_row i r t = (if i < length (tb_rows t) then t\<lparr>tb_rows := (tb_rows t)[i := r]\<rparr> else t)"

definition row_at :: "table \<Rightarrow> nat \<Rightarrow> row option" where
  "row_at t i = vec_at (tb_rows t) i"

section \<open>Saving\<close>

definition type_code :: "column_type \<Rightarrow> int" where
  "type_code ct = (case ct of CT_INT \<Rightarrow> 0 | CT_STRING \<Rightarrow> 1)"

definition column_line :: "column \<Rightarrow> string" where
  "column_line c = col_name c @ '' '' @ show_int (type_code (col_type c)) @ '' ''
     @ show_int (if col_is_primary c then 1 else 0) @ [LF]"

fun value_text :: "svalue \<Rightarrow> string" where
  "value_text (V_INT i) = show_int i"
| "value_text (V_STRING s) = s"
| "value_text V_NONE = []"

text \<open>The fields of a row, a bar before every one but the first.\<close>

definition row_fields :: "row \<Rightarrow> string" where
  "row_fields r = (case r of [] \<Rightarrow> [] | v # vs \<Rightarrow> value_text v @ concat (map (\<lambda>u. PIPE # value_text u) vs))"

definition table_text :: "table \<Rightarrow> string" where
  "table_text t = show_nat (length (tb_columns t)) @ [LF]
     @ concat (map column_line (tb_columns t))
     @ show_nat (length (tb_rows t)) @ [LF]
     @ concat (map (\<lambda>r. row_fields r @ [LF]) (tb_rows t))"

definition save_to_file :: "'w os \<Rightarrow> table \<Rightarrow> 'w \<Rightarrow> bool \<times> 'w" where
  "save_to_file os t w = os_write os (tb_data_path t) (table_text t) w"

section \<open>Loading\<close>

definition line_buf_size :: nat where
  "line_buf_size = 8192"

definition ws_delims :: string where
  "ws_delims = [SPACE, TAB, LF, CR]"

definition bar_delims :: string where
  "bar_delims = [PIPE, LF, CR]"

text \<open>One column line; \<open>None\<close> when one of the three tokens is missing.\<close>

definition load_column :: "string \<Rightarrow> column option" where
  "load_column line = do {
     (name, r1) \<leftarrow> strtok ws_delims line;
     (type_str, r2) \<leftarrow> strtok ws_delims r1;
     (pk_str, r3) \<leftarrow> strtok ws_delims r2;
     Some \<lparr>col_name = name, col_type = (if atoi type_str = 0 then CT_INT else CT_STRING),
           col_is_primary = (atoi pk_str \<noteq> 0)\<rparr>
   }"

text \<open>The flag is \<open>False\<close> for the early \<open>return false\<close>, which keeps what was read.\<close>

fun load_columns :: "nat \<Rightarrow> string \<Rightarrow> column list \<Rightarrow> bool \<times> column list \<times> string" where
  "load_columns 0 s cs = (True, cs, s)"
| "load_columns (Suc n) s cs =
     (case fgets line_buf_size s of
        None \<Rightarrow> (False, cs, s)
      | Some (line, rest) \<Rightarrow>
          (case load_column (c_str line) of
             None \<Rightarrow> (False, cs, rest)
           | Some c \<Rightarrow> load_columns n rest (cs @ [c])))"

function load_values :: "column list \<Rightarrow> nat \<Rightarrow> nat \<Rightarrow> string \<Rightarrow> row \<Rightarrow> row" where
  "load_values cols col_cnt col_idx s r =
     (case strtok bar_delims s of
        None \<Rightarrow> r
      | Some (token, rest) \<Rightarrow>
          if col_idx < col_cnt then
            load_values cols col_cnt (Suc col_idx) rest
              (if col_idx < length cols then
                 add_value (if col_type (cols ! col_idx) = CT_INT then V_INT (atoi token) else V_STRING token) r
               else r)
          else r)"
  by pat_completeness auto
termination
  by (relation "measure (\<lambda>(cols, col_cnt, col_idx, s, r). col_cnt - col_idx)") auto

declare load_values.simps [simp del]

fun load_rows :: "nat \<Rightarrow> nat \<Rightarrow> column list \<Rightarrow> string \<Rightarrow> row list \<Rightarrow> bool \<times> row list" where
  "load_rows 0 col_cnt cols s rs = (True, rs)"
| "load_rows (Suc n) col_cnt cols s rs =
     (case fgets line_buf_size s of
        None \<Rightarrow> (False, rs)
      | Some (line, rest) \<Rightarrow>
          load_rows n col_cnt cols rest (rs @ [load_values cols col_cnt 0 (c_str line) []]))"

definition load_text :: "string \<Rightarrow> table \<Rightarrow> bool \<times> table" where
  "load_text txt t =
     (case fgets line_buf_size txt of
        None \<Rightarrow> (False, t)
      | Some (line, rest) \<Rightarrow>
          let col_cnt = nat (atoi (c_str line));
              (ok, cols, rest1) = load_columns col_cnt rest [];
              t1 = t\<lparr>tb_columns := cols\<rparr>
          in if \<not> ok then (False, t1)
             else (case fgets line_buf_size rest1 of
                     None \<Rightarrow> (False, t1)
                   | Some (line2, rest2) \<Rightarrow>
                       let row_cnt = nat (atoi (c_str line2));
                           (ok2, rs) = load_rows row_cnt col_cnt cols rest2 []
                       in (ok2, t1\<lparr>tb_rows := rs\<rparr>)))"

definition load_from_file :: "'w os \<Rightarrow> table \<Rightarrow> 'w \<Rightarrow> bool \<times> table" where
  "load_from_file os t w =
     (case os_read os (tb_data_path t) w of None \<Rightarrow> (False, t) | Some txt \<Rightarrow> load_text txt t)"

section \<open>Columns and rows\<close>

lemma find_column_from_cases:
  "(\<exists>j < length cs. find_column_from i cs n = int (i + j) \<and> col_name (cs ! j) = n)
   \<or> (find_column_from i cs n = - 1 \<and> n \<notin> col_name ` set cs)"
proof (induction cs arbitrary: i)
  case (Cons c cs)
  show ?case
  proof (cases "col_name c = n")
    case False
    with Cons.IH [of "Suc i"] show ?thesis by (auto intro: exI [of _ "Suc j" for j])
  qed auto
qed simp

lemma primary_key_from_cases:
  "(\<exists>j < length cs. primary_key_from i cs = int (i + j) \<and> col_is_primary (cs ! j))
   \<or> (primary_key_from i cs = - 1 \<and> (\<forall>c \<in> set cs. \<not> col_is_primary c))"
proof (induction cs arbitrary: i)
  case (Cons c cs)
  show ?case
  proof (cases "col_is_primary c")
    case False
    with Cons.IH [of "Suc i"] show ?thesis by (auto intro: exI [of _ "Suc j" for j])
  qed auto
qed simp

lemma find_column_cases:
  obtains (found) j where "j < length (tb_columns t)" "find_column t n = int j" "col_name (tb_columns t ! j) = n"
  | (missing) "find_column t n = - 1" "n \<notin> col_name ` set (tb_columns t)"
  using find_column_from_cases [of "tb_columns t" 0 n] unfolding find_column_def by auto

lemma primary_key_cases:
  obtains (found) j where "j < length (tb_columns t)" "primary_key_index t = int j" "col_is_primary (tb_columns t ! j)"
  | (missing) "primary_key_index t = - 1" "\<forall>c \<in> set (tb_columns t). \<not> col_is_primary c"
  using primary_key_from_cases [of "tb_columns t" 0] unfolding primary_key_index_def by auto

lemma find_column_range: "0 \<le> find_column t n \<Longrightarrow> nat (find_column t n) < length (tb_columns t)"
  by (rule find_column_cases [of t n]) auto

lemma primary_key_range: "0 \<le> primary_key_index t \<Longrightarrow> nat (primary_key_index t) < length (tb_columns t)"
  by (rule primary_key_cases [of t]) auto

text \<open>Every row has a value for every column: what \<open>get_value\<close> relies on.\<close>

definition table_inv :: "table \<Rightarrow> bool" where
  "table_inv t \<longleftrightarrow> (\<forall>r \<in> set (tb_rows t). length r = length (tb_columns t))"

lemma insert_row_simps [row_simps]:
  "tb_rows (insert_row r t) = tb_rows t @ [r]" "tb_columns (insert_row r t) = tb_columns t"
  "tb_name (insert_row r t) = tb_name t" "tb_data_path (insert_row r t) = tb_data_path t"
  by (simp_all add: insert_row_def)

lemma update_row_simps [row_simps]:
  "tb_rows (update_row i r t) = (tb_rows t)[i := r]" "tb_columns (update_row i r t) = tb_columns t"
  "tb_name (update_row i r t) = tb_name t" "tb_data_path (update_row i r t) = tb_data_path t"
  by (auto simp: update_row_def list_update_beyond)

lemma remove_row_in [row_simps]:
  "i < length (tb_rows t) \<Longrightarrow> remove_row i t = Some (t\<lparr>tb_rows := remove_nth i (tb_rows t)\<rparr>)"
  by (simp add: remove_row_def)

lemma remove_row_out: "length (tb_rows t) \<le> i \<Longrightarrow> remove_row i t = Some t"
  by (simp add: remove_row_def)

lemma table_inv_insert: "table_inv t \<Longrightarrow> length r = length (tb_columns t) \<Longrightarrow> table_inv (insert_row r t)"
  by (auto simp: table_inv_def row_simps)

lemma table_inv_update: "table_inv t \<Longrightarrow> length r = length (tb_columns t) \<Longrightarrow> table_inv (update_row i r t)"
  by (auto simp: table_inv_def row_simps dest: set_update_subset_insert [THEN subsetD])

lemma table_inv_remove: "table_inv t \<Longrightarrow> remove_row i t = Some u \<Longrightarrow> table_inv u"
  using set_remove_nth_subset [of i "tb_rows t"]
  by (auto simp: table_inv_def remove_row_def split: if_splits)

section \<open>The round trip of the file format\<close>

text \<open>
  What the format can represent: a column name without white space; values of their column's
  type, integers in range, texts that are not empty and have no bar, line break or NUL; and
  lines that fit the buffer.
\<close>

definition name_persists :: "string \<Rightarrow> bool" where
  "name_persists n \<longleftrightarrow> n \<noteq> [] \<and> set n \<inter> set (NUL # ws_delims) = {} \<and> length n + 6 < line_buf_size"

fun value_persists :: "column_type \<Rightarrow> svalue \<Rightarrow> bool" where
  "value_persists CT_INT (V_INT i) = in_int32 i"
| "value_persists CT_STRING (V_STRING s) = (s \<noteq> [] \<and> set s \<inter> set (NUL # bar_delims) = {})"
| "value_persists _ _ = False"

definition row_persists :: "column list \<Rightarrow> row \<Rightarrow> bool" where
  "row_persists cols r \<longleftrightarrow> list_all2 value_persists (map col_type cols) r
     \<and> length (row_fields r) + 1 < line_buf_size"

definition persistable :: "table \<Rightarrow> bool" where
  "persistable t \<longleftrightarrow> list_all name_persists (map col_name (tb_columns t))
     \<and> list_all (row_persists (tb_columns t)) (tb_rows t)
     \<and> int (length (tb_columns t)) < 2 ^ 31 \<and> int (length (tb_rows t)) < 2 ^ 31"

lemma show_int_chars: "c \<in> set (show_int i) \<Longrightarrow> is_digit c \<or> c = CHR ''-''"
  by (auto simp: show_int_def dest: show_nat_digits split: if_splits)

lemma show_int_nonempty [simp]: "show_int i \<noteq> []"
  by (simp add: show_int_def)

lemma digit_or_minus_plain:
  "is_digit c \<or> c = CHR ''-'' \<Longrightarrow> c \<noteq> NUL \<and> c \<noteq> LF \<and> c \<noteq> CR \<and> c \<noteq> PIPE \<and> c \<noteq> SPACE \<and> c \<noteq> TAB"
  by (auto simp: is_digit_def)

lemma show_int_plain: "set (show_int i) \<inter> {NUL, LF, CR, PIPE, SPACE, TAB} = {}"
  using show_int_chars digit_or_minus_plain by blast

lemma show_nat_plain: "set (show_nat n) \<inter> {NUL, LF, CR, PIPE, SPACE, TAB} = {}"
  using show_nat_digits digit_or_minus_plain by blast

lemma length_show_nat: "n < 10 ^ Suc k \<Longrightarrow> length (show_nat n) \<le> Suc k"
proof (induction k arbitrary: n)
  case 0
  then show ?case by (subst show_nat.simps) simp
next
  case (Suc k)
  then have "n div 10 < 10 ^ Suc k" by (simp add: less_mult_imp_div_less mult.commute)
  then have "length (show_nat (n div 10)) \<le> Suc k" by (rule Suc.IH)
  then show ?case by (subst show_nat.simps) simp
qed

lemma load_count:
  assumes "int n < 2 ^ 31"
  shows "fgets line_buf_size (show_nat n @ LF # r) = Some (show_nat n @ [LF], r)"
    and "nat (atoi (c_str (show_nat n @ [LF]))) = n"
proof -
  have p: "NUL \<notin> set (show_nat n)" "LF \<notin> set (show_nat n)" using show_nat_plain [of n] by auto
  have "length (show_nat n) \<le> 10" using assms length_show_nat [of n 9] by simp
  with p show "fgets line_buf_size (show_nat n @ LF # r) = Some (show_nat n @ [LF], r)"
    by (intro fgets_line) (auto simp: line_buf_size_def)
  have "horner_digits 0 (show_nat n @ [LF]) = int n"
    using horner_digits_append [of "show_nat n" 0 "[LF]"] show_nat_digits [of _ n]
    by (simp add: horner_show_nat is_digit_def)
  moreover obtain c cs where d: "show_nat n = c # cs" by (cases "show_nat n") auto
  moreover have "is_digit c" using show_nat_digits [of c n] d by simp
  ultimately have "strtol (show_nat n @ [LF]) = int n"
    using is_digit_not_space [of c] is_digit_not_sign [of c] assms(1)
    by (simp add: strtol_def max_def min_def)
  then have "atoi (show_nat n @ [LF]) = int n" using assms(1) by (simp add: atoi_def in_int32_def)
  then show "nat (atoi (c_str (show_nat n @ [LF]))) = n" using p by (simp add: c_str_id)
qed

lemma load_column_line:
  assumes "name_persists (col_name c)"
  shows "load_column (c_str (column_line c)) = Some c"
    and "fgets line_buf_size (column_line c @ r) = Some (column_line c, r)"
proof -
  let ?t = "show_int (type_code (col_type c))" and ?p = "show_int (if col_is_primary c then 1 else 0)"
  have nm: "col_name c \<noteq> []" "set (col_name c) \<inter> set ws_delims = {}"
    "set (col_name c) \<inter> {NUL, LF} = {}" "length (col_name c) + 6 < line_buf_size"
    using assms by (auto simp: name_persists_def ws_delims_def)
  have plain: "set ?t \<inter> set ws_delims = {}" "set ?p \<inter> set ws_delims = {}"
    "set ?t \<inter> {NUL, LF} = {}" "set ?p \<inter> {NUL, LF} = {}"
    using show_int_plain [of "type_code (col_type c)"] show_int_plain [of "if col_is_primary c then 1 else 0"]
    by (auto simp: ws_delims_def)
  have num: "atoi ?t = type_code (col_type c)" "atoi ?p = (if col_is_primary c then 1 else 0)"
    by (rule atoi_show_int, simp add: type_code_def in_int32_def split: column_type.split)+
  have len: "length ?t = 1" "length ?p = 1"
    by (simp_all add: type_code_def show_int_def show_nat.simps split: column_type.split)
  have line: "column_line c = col_name c @ SPACE # ?t @ SPACE # ?p @ LF # []"
    by (simp add: column_line_def)
  have "NUL \<notin> set (column_line c)" unfolding line using nm(3) plain by auto
  moreover have "strtok ws_delims (column_line c) = Some (col_name c, ?t @ SPACE # ?p @ LF # [])"
    unfolding line using nm by (intro strtok_word) (auto simp: ws_delims_def)
  moreover have "strtok ws_delims (?t @ SPACE # ?p @ LF # []) = Some (?t, ?p @ LF # [])"
    using plain by (intro strtok_word) (auto simp: ws_delims_def)
  moreover have "strtok ws_delims (?p @ LF # []) = Some (?p, [])"
    using plain by (intro strtok_word) (auto simp: ws_delims_def)
  ultimately show "load_column (c_str (column_line c)) = Some c"
    using num by (cases c) (auto simp: load_column_def c_str_id type_code_def split: column_type.splits)
  have "fgets line_buf_size ((col_name c @ SPACE # ?t @ SPACE # ?p) @ LF # r)
      = Some ((col_name c @ SPACE # ?t @ SPACE # ?p) @ [LF], r)"
    using nm plain len by (intro fgets_line) auto
  then show "fgets line_buf_size (column_line c @ r) = Some (column_line c, r)"
    by (simp add: line)
qed

lemma load_columns_lines:
  "list_all name_persists (map col_name cs) \<Longrightarrow>
     load_columns (length cs) (concat (map column_line cs) @ r) acc = (True, acc @ cs, r)"
proof (induction cs arbitrary: acc)
  case (Cons c cs)
  then have "load_columns (length cs) (concat (map column_line cs) @ r) (acc @ [c]) = (True, acc @ c # cs, r)"
    by simp
  with Cons.prems load_column_line(1) [of c] load_column_line(2) [of c "concat (map column_line cs) @ r"]
  show ?case by simp
qed simp

lemma value_text_ok:
  assumes "value_persists ct v"
  shows "value_text v \<noteq> []" "set (value_text v) \<inter> set (NUL # bar_delims) = {}"
    "(if ct = CT_INT then V_INT (atoi (value_text v)) else V_STRING (value_text v)) = v"
proof -
  show "value_text v \<noteq> []" using assms by (cases v; cases ct) auto
  show "set (value_text v) \<inter> set (NUL # bar_delims) = {}"
  proof (cases v)
    case (V_INT i)
    then show ?thesis using show_int_plain [of i] by (auto simp: bar_delims_def)
  qed (use assms in \<open>cases ct; auto\<close>)+
  show "(if ct = CT_INT then V_INT (atoi (value_text v)) else V_STRING (value_text v)) = v"
    using assms by (cases v; cases ct) (auto simp: atoi_show_int)
qed

lemma load_values_step:
  assumes "value_persists (col_type (cols ! i)) v" and "i < length cols" and "d \<in> set bar_delims"
  shows "load_values cols (length cols) i (value_text v @ d # s) r
       = load_values cols (length cols) (Suc i) s (r @ [v])"
proof -
  have "strtok bar_delims (value_text v @ d # s) = Some (value_text v, s)"
    using value_text_ok [OF assms(1)] assms(3) by (intro strtok_word) auto
  then show ?thesis
    using assms value_text_ok(3) [OF assms(1)]
    by (subst load_values.simps) (simp add: add_value_def)
qed

lemma load_values_done: "load_values cols n i [] r = r"
  by (subst load_values.simps) (simp add: strtok_def)

lemma load_values_fields:
  "list_all2 value_persists (map col_type (drop i cols)) (v # vs) \<Longrightarrow>
     load_values cols (length cols) i (value_text v @ concat (map (\<lambda>u. PIPE # value_text u) vs) @ [LF]) r
     = r @ v # vs"
proof (induction vs arbitrary: i v r)
  case Nil
  then have i: "i < length cols" by (cases "i < length cols") auto
  with Nil have "value_persists (col_type (cols ! i)) v" by (simp add: Cons_nth_drop_Suc [symmetric])
  from load_values_step [OF this i] show ?case by (simp add: bar_delims_def load_values_done)
next
  case (Cons u us)
  then have i: "i < length cols" by (cases "i < length cols") auto
  with Cons.prems have v: "value_persists (col_type (cols ! i)) v"
    and rest: "list_all2 value_persists (map col_type (drop (Suc i) cols)) (u # us)"
    by (simp_all add: Cons_nth_drop_Suc [symmetric])
  show ?case
    using load_values_step [OF v i] Cons.IH [OF rest] by (simp add: bar_delims_def)
qed

lemma load_values_row:
  assumes "row_persists cols r"
  shows "load_values cols (length cols) 0 (c_str (row_fields r @ [LF])) [] = r"
    and "fgets line_buf_size (row_fields r @ LF # s) = Some (row_fields r @ [LF], s)"
proof -
  have vs: "list_all2 value_persists (map col_type cols) r" using assms by (simp add: row_persists_def)
  have "\<forall>v \<in> set r. set (value_text v) \<inter> set (NUL # bar_delims) = {}"
  proof
    fix v assume "v \<in> set r"
    with vs obtain ct where "value_persists ct v" by (auto simp: list_all2_conv_all_nth in_set_conv_nth)
    then show "set (value_text v) \<inter> set (NUL # bar_delims) = {}" by (rule value_text_ok(2))
  qed
  then have plain: "NUL \<notin> set (row_fields r)" "LF \<notin> set (row_fields r)"
    by (auto simp: row_fields_def bar_delims_def split: list.splits)
  then show "fgets line_buf_size (row_fields r @ LF # s) = Some (row_fields r @ [LF], s)"
    using assms by (intro fgets_line) (auto simp: row_persists_def)
  show "load_values cols (length cols) 0 (c_str (row_fields r @ [LF])) [] = r"
  proof (cases r)
    case Nil
    have "strtok bar_delims [LF] = None" by (rule strtok_delims) (simp add: bar_delims_def)
    with Nil show ?thesis
      by (subst load_values.simps) (simp add: row_fields_def c_str_def)
  next
    case (Cons v us)
    then show ?thesis
      using load_values_fields [of 0 cols v us "[]"] vs plain by (simp add: c_str_id row_fields_def)
  qed
qed

lemma load_rows_lines:
  "list_all (row_persists cols) rs \<Longrightarrow>
     load_rows (length rs) (length cols) cols (concat (map (\<lambda>r. row_fields r @ [LF]) rs)) acc = (True, acc @ rs)"
proof (induction rs arbitrary: acc)
  case (Cons r rs)
  then show ?case
    using load_values_row(1) [of cols r] load_values_row(2) [of cols r "concat (map (\<lambda>r. row_fields r @ [LF]) rs)"]
    by simp
qed simp

lemma load_text_table_text:
  assumes "persistable t"
  shows "load_text (table_text t) u = (True, u\<lparr>tb_columns := tb_columns t, tb_rows := tb_rows t\<rparr>)"
proof -
  let ?rows = "concat (map (\<lambda>r. row_fields r @ [LF]) (tb_rows t))"
  let ?n = "show_nat (length (tb_rows t))"
  have p: "list_all name_persists (map col_name (tb_columns t))"
    "list_all (row_persists (tb_columns t)) (tb_rows t)"
    "int (length (tb_columns t)) < 2 ^ 31" "int (length (tb_rows t)) < 2 ^ 31"
    using assms by (simp_all add: persistable_def)
  show ?thesis
    using load_count(1) [OF p(3), of "concat (map column_line (tb_columns t)) @ ?n @ LF # ?rows"]
      load_count(1) [OF p(4), of ?rows] load_count(2) [OF p(3)] load_count(2) [OF p(4)]
      load_columns_lines [OF p(1), of "?n @ LF # ?rows" "[]"] load_rows_lines [OF p(2), of "[]"]
    by (simp add: load_text_def table_text_def)
qed

section \<open>Properties\<close>

lemma table_text_cong:
  "tb_columns t = tb_columns u \<Longrightarrow> tb_rows t = tb_rows u \<Longrightarrow> table_text t = table_text u"
  by (simp add: table_text_def)

text \<open>C4. Saving and loading a table is the identity on its schema and rows, for the tables the
  text format can represent: names without white space, values of their column's type,
  non-empty texts without bars, line breaks or NUL, lines that fit the buffer of \<open>fgets\<close>.\<close>

theorem save_then_load:
  assumes "reads_back os" and "persistable t" and "save_to_file os t w = (True, w')"
    and "tb_data_path u = tb_data_path t"
  shows "load_from_file os u w' = (True, u\<lparr>tb_columns := tb_columns t, tb_rows := tb_rows t\<rparr>)"
proof -
  have "os_read os (tb_data_path t) w' = Some (table_text t)"
    using assms(1,3) by (simp add: reads_back_def save_to_file_def)
  then show ?thesis
    using load_text_table_text [OF assms(2)] assms(4) by (simp add: load_from_file_def)
qed

definition sample_table :: table where
  "sample_table = (table_new ''t'')\<lparr>tb_columns := [\<lparr>col_name = ''id'', col_type = CT_INT, col_is_primary = True\<rparr>,
     \<lparr>col_name = ''name'', col_type = CT_STRING, col_is_primary = False\<rparr>],
     tb_rows := [[V_INT (- 5), V_STRING ''a b''], [V_INT 7, V_STRING ''c'']]\<rparr>"

lemma sample_persistable: "persistable sample_table"
  by (simp add: persistable_def sample_table_def table_new_def name_persists_def row_persists_def
      ws_delims_def bar_delims_def line_buf_size_def row_fields_def in_int32_def show_int_def show_nat.simps)

theorem save_then_load_witness:
  "snd (load_from_file mem_os (table_new ''t'') (snd (save_to_file mem_os sample_table mem_empty))) = sample_table"
proof -
  have "save_to_file mem_os sample_table mem_empty = (True, snd (save_to_file mem_os sample_table mem_empty))"
    by (simp add: save_to_file_def mem_os_def)
  from save_then_load [OF mem_os_laws(1) sample_persistable this, of "table_new ''t''"] show ?thesis
    by (simp add: sample_table_def table_new_def)
qed

text \<open>What the format loses: an empty text at the start of a row disappears on loading, and
  the following values move one column to the left (\<open>strtok\<close> skips the leading bar).\<close>

lemma empty_text_is_lost:
  "load_values cols n 0 (c_str (row_fields (V_STRING [] # v # vs) @ [LF])) []
   = load_values cols n 0 (c_str (row_fields (v # vs) @ [LF])) []"
proof -
  have "row_fields (V_STRING [] # v # vs) = PIPE # row_fields (v # vs)" by (simp add: row_fields_def)
  moreover have "c_str (PIPE # s) = PIPE # c_str s" for s by (simp add: c_str_def)
  moreover have "strtok bar_delims (PIPE # s) = strtok bar_delims s" for s by (simp add: strtok_def bar_delims_def)
  ultimately show ?thesis by (subst (1 2) load_values.simps) simp
qed

text \<open>Removing a row by shifting takes out exactly that row, leaves the others in order, and a
  position outside the table changes nothing.\<close>

lemma remove_row_removes_one:
  "\<exists>u. remove_row i t = Some u \<and> tb_rows u = take i (tb_rows t) @ drop (Suc i) (tb_rows t)
     \<and> tb_columns u = tb_columns t \<and> tb_name u = tb_name t"
  by (cases "i < length (tb_rows t)") (simp_all add: row_simps remove_row_out remove_nth_def)

end
