(* ===== verification/Index_Model.thy ===== *)
theory Index_Model
  imports Prelude
begin

text \<open>
  The primary-key index (src/storage/index.hpp, index.cpp): a vector of entries, searched by
  bisection with the insertion point encoded as \<open>~lo\<close>. The theory shows that on vectors
  sorted strictly by key the operations are those of a finite map from keys to row numbers
  (the contract \<open>key_index\<close>, with what its client, the executor, needs of it) and that no read
  leaves the vector. Positions are \<open>int\<close>s in the code. The operations are given twice: with 32-bit
  positions, where \<open>static_cast<int>(size())\<close> wraps and an overflow is undefined, and with
  unbounded ones, on which the theory reasons and which the executor uses. The two agree below
  \<open>2 ^ 31\<close> entries.
\<close>

record entry =
  ie_key :: int
  ie_row_id :: int

type_synonym index = "entry list"

definition mk_entry :: "int \<Rightarrow> int \<Rightarrow> entry" where
  "mk_entry k r = \<lparr>ie_key = k, ie_row_id = r\<rparr>"

lemma mk_entry_simps [simp]: "ie_key (mk_entry k r) = k" "ie_row_id (mk_entry k r) = r"
  by (simp_all add: mk_entry_def)

section \<open>The operations, with 32-bit positions\<close>

text \<open>\<open>static_cast<int>(_entries.size())\<close> and \<open>_entries[static_cast<std::size_t>(i)]\<close>.\<close>

definition int_size :: "index \<Rightarrow> int" where
  "int_size es = wrap32 (int (length es))"

definition int_at :: "index \<Rightarrow> int \<Rightarrow> entry option" where
  "int_at es i = (if i < 0 then None else vec_at es (nat i))"

function find_loop32 :: "index \<Rightarrow> int \<Rightarrow> int \<Rightarrow> int \<Rightarrow> int option" where
  "find_loop32 es key lo hi =
     (if lo \<le> hi then
        (case int_op (hi - lo) of
           None \<Rightarrow> None
         | Some d \<Rightarrow>
             (case int_op (lo + d div 2) of
                None \<Rightarrow> None
              | Some mid \<Rightarrow>
                  (case int_at es mid of
                     None \<Rightarrow> None
                   | Some e \<Rightarrow>
                       if ie_key e = key then Some mid
                       else if ie_key e < key then
                         (case int_op (mid + 1) of None \<Rightarrow> None | Some lo1 \<Rightarrow> find_loop32 es key lo1 hi)
                       else (case int_op (mid - 1) of None \<Rightarrow> None | Some hi1 \<Rightarrow> find_loop32 es key lo hi1))))
      else Some (- lo - 1))"
  by pat_completeness auto
termination
proof (relation "measure (\<lambda>(es, key, lo, hi). nat (hi - lo + 1))", simp, goal_cases)
  case (1 es key lo hi d mid e lo1)
  then have "lo \<le> mid" "lo1 = mid + 1" by (auto simp: int_op_def split: if_splits)
  then show ?case using 1(1) by simp
next
  case (2 es key lo hi d mid e hi1)
  then have "mid \<le> hi" "hi1 = mid - 1" by (auto simp: int_op_def split: if_splits)
  then show ?case using 2(1) by simp
qed

declare find_loop32.simps [simp del]

definition find_pos32 :: "index \<Rightarrow> int \<Rightarrow> int option" where
  "find_pos32 es key =
     (if es = [] then Some (- 1) else do { hi \<leftarrow> int_op (int_size es - 1); find_loop32 es key 0 hi })"

definition index_insert32 :: "int \<Rightarrow> int \<Rightarrow> index \<Rightarrow> index option" where
  "index_insert32 key row_id es = do {
     pos \<leftarrow> find_pos32 es key;
     if pos \<ge> 0 then do {
       e \<leftarrow> vec_at es (nat pos);
       vec_set es (nat pos) (e\<lparr>ie_row_id := row_id\<rparr>)
     }
     else do {
       let insert_at = - pos - 1;
       let e = mk_entry key row_id;
       if insert_at \<ge> int_size es then Some (es @ [e])
       else do {
         let es1 = es @ [mk_entry 0 0];
         hi \<leftarrow> int_op (int_size es1 - 1);
         es2 \<leftarrow> for_down_to (nat hi) (nat insert_at)
           (\<lambda>i s. do { x \<leftarrow> vec_at s (i - 1); vec_set s i x }) es1;
         vec_set es2 (nat insert_at) e
       }
     }
   }"

text \<open>\<open>find\<close> returns whether the key is there and stores the row through its reference.\<close>

definition index_find32 :: "int \<Rightarrow> index \<Rightarrow> int option option" where
  "index_find32 key es = do {
     pos \<leftarrow> find_pos32 es key;
     if pos < 0 then Some None
     else do { e \<leftarrow> vec_at es (nat pos); Some (Some (ie_row_id e)) }
   }"

definition index_remove32 :: "int \<Rightarrow> index \<Rightarrow> (bool \<times> index) option" where
  "index_remove32 key es = do {
     pos \<leftarrow> find_pos32 es key;
     if pos < 0 then Some (False, es)
     else do { es1 \<leftarrow> shift_out es (nat pos); Some (True, es1) }
   }"

section \<open>The operations, with unbounded positions\<close>

function find_loop :: "index \<Rightarrow> int \<Rightarrow> int \<Rightarrow> int \<Rightarrow> int option" where
  "find_loop es key lo hi =
     (if lo \<le> hi then
        (let mid = lo + (hi - lo) div 2
         in case vec_at es (nat mid) of
              None \<Rightarrow> None
            | Some e \<Rightarrow>
                if ie_key e = key then Some mid
                else if ie_key e < key then find_loop es key (mid + 1) hi
                else find_loop es key lo (mid - 1))
      else Some (- lo - 1))"
  by pat_completeness auto
termination
proof (relation "measure (\<lambda>(es, key, lo, hi). nat (hi - lo + 1))", simp, goal_cases)
  case (1 es key lo hi mid e)
  then have "lo \<le> mid" "mid \<le> hi" by auto
  then show ?case using 1(1) by simp
next
  case (2 es key lo hi mid e)
  then have "lo \<le> mid" "mid \<le> hi" by auto
  then show ?case using 2(1) by simp
qed

declare find_loop.simps [simp del]

definition find_pos :: "index \<Rightarrow> int \<Rightarrow> int option" where
  "find_pos es key = (if es = [] then Some (- 1) else find_loop es key 0 (int (length es) - 1))"

definition index_insert :: "int \<Rightarrow> int \<Rightarrow> index \<Rightarrow> index option" where
  "index_insert key row_id es = do {
     pos \<leftarrow> find_pos es key;
     if pos \<ge> 0 then do {
       e \<leftarrow> vec_at es (nat pos);
       vec_set es (nat pos) (e\<lparr>ie_row_id := row_id\<rparr>)
     }
     else do {
       let insert_at = nat (- pos - 1);
       let e = mk_entry key row_id;
       if insert_at \<ge> length es then Some (es @ [e])
       else do {
         let es1 = es @ [mk_entry 0 0];
         es2 \<leftarrow> for_down_to (length es1 - 1) insert_at
           (\<lambda>i s. do { x \<leftarrow> vec_at s (i - 1); vec_set s i x }) es1;
         vec_set es2 insert_at e
       }
     }
   }"

definition index_find :: "int \<Rightarrow> index \<Rightarrow> int option option" where
  "index_find key es = do {
     pos \<leftarrow> find_pos es key;
     if pos < 0 then Some None
     else do { e \<leftarrow> vec_at es (nat pos); Some (Some (ie_row_id e)) }
   }"

definition index_remove :: "int \<Rightarrow> index \<Rightarrow> (bool \<times> index) option" where
  "index_remove key es = do {
     pos \<leftarrow> find_pos es key;
     if pos < 0 then Some (False, es)
     else do { es1 \<leftarrow> shift_out es (nat pos); Some (True, es1) }
   }"

definition index_clear :: "index \<Rightarrow> index" where
  "index_clear es = []"

section \<open>The two agree below \<open>2 ^ 31\<close> entries\<close>

lemma int_size_small: "length es < 2 ^ 31 \<Longrightarrow> int_size es = int (length es)"
  by (simp add: int_size_def in_int32_def)

lemma find_loop32_eq:
  assumes "0 \<le> lo" and "hi < int (length es)" and "length es < 2 ^ 31"
  shows "find_loop32 es key lo hi = find_loop es key lo hi"
  using assms
proof (induction es key lo hi rule: find_loop.induct)
  case (1 es key lo hi)
  show ?case
  proof (cases "lo \<le> hi")
    case False
    then show ?thesis by (simp add: find_loop.simps find_loop32.simps)
  next
    case True
    let ?mid = "lo + (hi - lo) div 2"
    have mid: "lo \<le> ?mid" "?mid \<le> hi" using True by auto
    have bounds: "int (length es) < 2 ^ 31" using "1.prems"(3) by simp
    have ops: "int_op (hi - lo) = Some (hi - lo)" "int_op ?mid = Some ?mid" "int_op (?mid + 1) = Some (?mid + 1)"
        "int_op (?mid - 1) = Some (?mid - 1)"
      using mid "1.prems"(1,2) bounds True by (auto intro!: int_op_in simp: in_int32_def)
    have at: "int_at es ?mid = Some (es ! nat ?mid)" "vec_at es (nat ?mid) = Some (es ! nat ?mid)"
      using mid "1.prems" by (auto simp: int_at_def)
    have left: "find_loop32 es key lo (?mid - 1) = find_loop es key lo (?mid - 1)"
      if "ie_key (es ! nat ?mid) \<noteq> key" "\<not> ie_key (es ! nat ?mid) < key"
      using mid "1.prems" by (intro "1.IH"(2) [OF True refl at(2) that]) auto
    have right: "find_loop32 es key (?mid + 1) hi = find_loop es key (?mid + 1) hi"
      if "ie_key (es ! nat ?mid) \<noteq> key" "ie_key (es ! nat ?mid) < key"
      using mid "1.prems" by (intro "1.IH"(1) [OF True refl at(2) that]) auto
    show ?thesis
      by (subst find_loop.simps, subst find_loop32.simps) (simp add: True ops at left right Let_def)
  qed
qed

lemma find_pos32_eq: "length es < 2 ^ 31 \<Longrightarrow> find_pos32 es key = find_pos es key"
proof -
  assume len: "length es < 2 ^ 31"
  then have "int_op (int_size es - 1) = Some (int (length es) - 1)"
    by (auto intro!: int_op_in simp: int_size_small in_int32_def)
  then show ?thesis using find_loop32_eq [of 0 "int (length es) - 1" es key] len
    by (simp add: find_pos32_def find_pos_def)
qed

lemma index_find32_eq: "length es < 2 ^ 31 \<Longrightarrow> index_find32 key es = index_find key es"
  and index_remove32_eq: "length es < 2 ^ 31 \<Longrightarrow> index_remove32 key es = index_remove key es"
  by (simp_all add: index_find32_def index_find_def index_remove32_def index_remove_def find_pos32_eq)

lemma index_insert32_eq:
  assumes "Suc (length es) < 2 ^ 31"
  shows "index_insert32 key r es = index_insert key r es"
proof -
  have "int_op (int_size (es @ [mk_entry 0 0]) - 1) = Some (int (length es))"
    using assms by (subst int_size_small) (auto intro!: int_op_in simp: in_int32_def)
  moreover have "int (length es) \<le> - pos - 1 \<longleftrightarrow> length es \<le> nat (- pos - 1)" if "\<not> 0 \<le> pos" for pos :: int
    using that by linarith
  ultimately show ?thesis
    using assms by (simp add: index_insert32_def index_insert_def find_pos32_eq int_size_small Let_def cong: if_cong)
qed

section \<open>Bisection\<close>

definition index_inv :: "index \<Rightarrow> bool" where
  "index_inv es \<longleftrightarrow> sorted_wrt (<) (map ie_key es)"

lemma index_inv_nth: "index_inv es \<Longrightarrow> i < j \<Longrightarrow> j < length es \<Longrightarrow> ie_key (es ! i) < ie_key (es ! j)"
  by (auto simp: index_inv_def sorted_wrt_map dest: sorted_wrt_nth_less)

text \<open>A position is right when it holds the key, or separates the smaller from the greater keys.\<close>

definition right_pos :: "index \<Rightarrow> int \<Rightarrow> int \<Rightarrow> bool" where
  "right_pos es key pos \<longleftrightarrow>
     (if pos \<ge> 0 then nat pos < length es \<and> ie_key (es ! nat pos) = key
      else nat (- pos - 1) \<le> length es
        \<and> (\<forall>i < nat (- pos - 1). ie_key (es ! i) < key)
        \<and> (\<forall>i. nat (- pos - 1) \<le> i \<and> i < length es \<longrightarrow> key < ie_key (es ! i)))"

lemma keys_below:
  assumes "index_inv es" and "nat m < length es" and "0 \<le> m" and "ie_key (es ! nat m) < key"
  shows "\<forall>i < nat (m + 1). ie_key (es ! i) < key"
proof (intro allI impI)
  fix i assume "i < nat (m + 1)"
  then consider "i = nat m" | "i < nat m" by linarith
  then show "ie_key (es ! i) < key"
    using assms index_inv_nth [OF assms(1), of i "nat m"] by cases auto
qed

lemma keys_above:
  assumes "index_inv es" and "nat m < length es" and "0 \<le> m" and "key < ie_key (es ! nat m)"
  shows "\<forall>i. m - 1 < int i \<and> i < length es \<longrightarrow> key < ie_key (es ! i)"
proof (intro allI impI, elim conjE)
  fix i assume i: "m - 1 < int i" "i < length es"
  then consider "i = nat m" | "nat m < i" by linarith
  then show "key < ie_key (es ! i)"
    using assms i index_inv_nth [OF assms(1), of "nat m" i] by cases auto
qed

lemma find_loop_right:
  assumes "index_inv es" and "0 \<le> lo" and "lo \<le> hi + 1" and "hi < int (length es)"
    and "\<forall>i < nat lo. ie_key (es ! i) < key"
    and "\<forall>i. hi < int i \<and> i < length es \<longrightarrow> key < ie_key (es ! i)"
  shows "\<exists>pos. find_loop es key lo hi = Some pos \<and> right_pos es key pos"
  using assms
proof (induction es key lo hi rule: find_loop.induct)
  case (1 es key lo hi)
  show ?case
  proof (cases "lo \<le> hi")
    case False
    with "1.prems"(3) have "lo = hi + 1" by simp
    moreover have "find_loop es key lo hi = Some (- lo - 1)"
      using False by (subst find_loop.simps) simp
    ultimately show ?thesis
      using "1.prems" by (auto simp: right_pos_def nat_le_iff)
  next
    case True
    define mid where "mid = lo + (hi - lo) div 2"
    have mid: "lo \<le> mid" "mid \<le> hi" using True by (auto simp: mid_def)
    then have m: "nat mid < length es" "0 \<le> mid" using "1.prems" by auto
    let ?e = "es ! nat mid"
    have at: "vec_at es (nat mid) = Some ?e" using m by simp
    consider "ie_key ?e = key" | "ie_key ?e < key" | "key < ie_key ?e" by linarith
    then show ?thesis
    proof cases
      case 1
      then have "find_loop es key lo hi = Some mid"
        using True m by (subst find_loop.simps) (simp add: mid_def [symmetric])
      moreover have "right_pos es key mid" unfolding right_pos_def using 1 m by (simp only: if_True)
      ultimately show ?thesis by blast
    next
      case 2
      note below = keys_below [OF "1.prems"(1) m 2]
      have "\<exists>pos. find_loop es key (mid + 1) hi = Some pos \<and> right_pos es key pos"
        using mid "1.prems" by (intro "1.IH"(1) [OF True mid_def at _ 2 "1.prems"(1) _ _ _ below])
          (use 2 in auto)
      then show ?thesis
        using 2 True m by (subst find_loop.simps) (simp add: mid_def [symmetric])
    next
      case 3
      note above = keys_above [OF "1.prems"(1) m 3]
      have "\<exists>pos. find_loop es key lo (mid - 1) = Some pos \<and> right_pos es key pos"
        using mid "1.prems" by (intro "1.IH"(2) [OF True mid_def at _ _ "1.prems"(1) _ _ _ _ above])
          (use 3 in auto)
      then show ?thesis
        using 3 True m by (subst find_loop.simps) (simp add: mid_def [symmetric])
    qed
  qed
qed

lemma find_pos_right:
  assumes "index_inv es"
  shows "\<exists>pos. find_pos es key = Some pos \<and> right_pos es key pos"
proof (cases "es = []")
  case True
  then show ?thesis by (simp add: find_pos_def right_pos_def)
next
  case False
  then have "\<exists>pos. find_loop es key 0 (int (length es) - 1) = Some pos \<and> right_pos es key pos"
    using assms by (intro find_loop_right) auto
  with False show ?thesis by (simp add: find_pos_def)
qed

section \<open>The map an index represents\<close>

definition index_map :: "index \<Rightarrow> int \<Rightarrow> int option" where
  "index_map es = map_of (map (\<lambda>e. (ie_key e, ie_row_id e)) es)"

definition index_keys :: "index \<Rightarrow> int set" where
  "index_keys es = ie_key ` set es"

text \<open>A key of a well-formed index splits it; a missing key has its place.\<close>

lemma index_cases:
  assumes "index_inv es"
  obtains (found) xs e ys where "es = xs @ e # ys" "ie_key e = key" "find_pos es key = Some (int (length xs))"
    "\<forall>x \<in> set xs. ie_key x < key" "\<forall>y \<in> set ys. key < ie_key y"
  | (missing) xs ys where "es = xs @ ys" "find_pos es key = Some (- int (length xs) - 1)"
    "\<forall>x \<in> set xs. ie_key x < key" "\<forall>y \<in> set ys. key < ie_key y"
proof -
  obtain pos where pos: "find_pos es key = Some pos" "right_pos es key pos"
    using find_pos_right [OF assms] by blast
  show ?thesis
  proof (cases "pos \<ge> 0")
    case True
    let ?n = "nat pos"
    have n: "?n < length es" "ie_key (es ! ?n) = key" using True pos(2) by (auto simp: right_pos_def)
    have split: "es = take ?n es @ es ! ?n # drop (Suc ?n) es" using n(1) by (rule id_take_nth_drop)
    have sw: "sorted_wrt (\<lambda>a b. ie_key a < ie_key b) (take ?n es @ es ! ?n # drop (Suc ?n) es)"
      using assms split by (simp add: index_inv_def sorted_wrt_map)
    have p: "find_pos es key = Some (int (length (take ?n es)))" using pos n True by simp
    show ?thesis
      using found [OF split n(2) p] sw n(2) by (auto simp: sorted_wrt_append)
  next
    case False
    let ?n = "nat (- pos - 1)"
    have n: "?n \<le> length es" "\<forall>i < ?n. ie_key (es ! i) < key"
      "\<forall>i. ?n \<le> i \<and> i < length es \<longrightarrow> key < ie_key (es ! i)"
      using False pos(2) by (auto simp: right_pos_def)
    have p: "find_pos es key = Some (- int (length (take ?n es)) - 1)" using pos n False by simp
    show ?thesis
    proof (rule missing [OF append_take_drop_id [symmetric] p])
      show "\<forall>x \<in> set (take ?n es). ie_key x < key" using n by (auto simp: in_set_conv_nth)
      show "\<forall>y \<in> set (drop ?n es). key < ie_key y" using n by (auto simp: in_set_conv_nth)
    qed
  qed
qed

lemma index_map_append: "index_map (xs @ ys) k = (case index_map xs k of None \<Rightarrow> index_map ys k | Some r \<Rightarrow> Some r)"
  by (simp add: index_map_def map_add_def split: option.split)

lemma index_map_Cons: "index_map (e # es) k = (if ie_key e = k then Some (ie_row_id e) else index_map es k)"
  by (auto simp: index_map_def)

lemma index_map_none: "k \<notin> index_keys es \<Longrightarrow> index_map es k = None"
  by (auto simp: index_map_def index_keys_def map_of_eq_None_iff)

lemma dom_index_map: "dom (index_map es) = index_keys es"
  by (auto simp: index_map_def index_keys_def dom_map_of_conv_image_fst image_image)

lemma keys_less: "\<forall>x \<in> set xs. ie_key x < key \<Longrightarrow> key \<notin> index_keys xs"
  and keys_greater: "\<forall>x \<in> set xs. key < ie_key x \<Longrightarrow> key \<notin> index_keys xs"
  by (auto simp: index_keys_def)

lemma shift_right_steps:
  assumes "u \<le> length es"
  shows "for_down_to (length es) u (\<lambda>i s. do { x \<leftarrow> vec_at s (i - 1); vec_set s i x }) (es @ [d])
    = Some (take (Suc u) (es @ [d]) @ drop u es)"
proof -
  let ?g = "\<lambda>j. take (Suc j) (es @ [d]) @ drop j es"
  have "for_down_to (length es) u (\<lambda>i s. do { x \<leftarrow> vec_at s (i - 1); vec_set s i x }) (?g (length es))
      = Some (?g u)"
  proof (rule for_down_to_eq)
    fix j assume j: "u < j" "j \<le> length es"
    then obtain i where i: "j = Suc i" "i < length es" by (cases j) auto
    have ti: "take (Suc i) (es @ [d]) = take i es @ [es ! i]"
      using i by (simp add: take_Suc_conv_app_nth nth_append)
    have "take (Suc j) (es @ [d]) = take (Suc i) (es @ [d]) @ [(es @ [d]) ! j]"
      using i take_Suc_conv_app_nth [of j "es @ [d]"] by (simp del: take_append)
    then have t: "take (Suc j) (es @ [d]) = take i es @ es ! i # [(es @ [d]) ! j]"
      using ti by simp
    have dr: "drop i es = es ! i # drop j es" using i by (simp add: Cons_nth_drop_Suc)
    have gi: "?g i = take i es @ es ! i # es ! i # drop j es"
      using i dr by (simp add: take_Suc_conv_app_nth nth_append)
    have gj: "?g j = take i es @ es ! i # (es @ [d]) ! j # drop j es"
      unfolding t by simp
    have len: "length (take i es) = i" using i by simp
    have "vec_at (?g j) i = Some (es ! i)"
      unfolding gj using vec_at_append_right [of "take i es"] len by simp
    moreover have "vec_set (?g j) j (es ! i) = Some (?g i)"
      unfolding gj gi using vec_set_append_right [of "take i es @ [es ! i]"] len i by simp
    ultimately show "do { x \<leftarrow> vec_at (?g j) (j - 1); vec_set (?g j) j x } = Some (?g (j - 1))"
      using i by simp
  qed (use assms in simp)
  then show ?thesis by simp
qed

lemma shift_right_loop:
  assumes "xs \<noteq> []"
  shows "for_down_to (length (us @ xs)) (length us)
      (\<lambda>i s. do { x \<leftarrow> vec_at s (i - 1); vec_set s i x }) (us @ xs @ [d])
    = Some (us @ hd xs # xs)"
  using assms shift_right_steps [of "length us" "us @ xs" d] by (cases xs) simp_all

lemma index_insert_found:
  assumes "find_pos (xs @ e # ys) key = Some (int (length xs))"
  shows "index_insert key r (xs @ e # ys) = Some (xs @ e\<lparr>ie_row_id := r\<rparr> # ys)"
  using assms by (simp add: index_insert_def vec_at_append_right vec_set_append_right)

lemma index_insert_missing:
  assumes "find_pos (xs @ ys) key = Some (- int (length xs) - 1)"
  shows "index_insert key r (xs @ ys) = Some (xs @ mk_entry key r # ys)"
proof (cases "ys = []")
  case True
  then show ?thesis using assms by (simp add: index_insert_def)
next
  case False
  have "vec_set (xs @ hd ys # ys) (length xs) (mk_entry key r) = Some (xs @ mk_entry key r # ys)"
    by (rule vec_set_append_right)
  then show ?thesis
    using assms False shift_right_loop [OF False, of xs "mk_entry 0 0"]
    by (simp add: index_insert_def)
qed

lemma index_remove_found:
  assumes "find_pos (xs @ e # ys) key = Some (int (length xs))"
  shows "index_remove key (xs @ e # ys) = Some (True, xs @ ys)"
  using assms by (simp add: index_remove_def)

lemma index_inv_append:
  "index_inv (xs @ ys) \<longleftrightarrow> index_inv xs \<and> index_inv ys \<and> (\<forall>x \<in> set xs. \<forall>y \<in> set ys. ie_key x < ie_key y)"
  by (auto simp: index_inv_def sorted_wrt_append)

lemma index_inv_Cons: "index_inv (e # es) \<longleftrightarrow> (\<forall>x \<in> set es. ie_key e < ie_key x) \<and> index_inv es"
  by (auto simp: index_inv_def)

lemma index_inv_Nil [simp]: "index_inv []"
  by (simp add: index_inv_def)

lemma index_insert_ok:
  assumes "index_inv es"
  shows "\<exists>fs. index_insert key r es = Some fs \<and> index_inv fs \<and> index_map fs = (index_map es)(key \<mapsto> r)"
proof (cases rule: index_cases [OF assms, where key = key, case_names found missing])
  case (found xs e ys)
  then show ?thesis
    using assms index_insert_found [of xs e ys key r] keys_less [OF found(4)] index_map_none [of key xs]
    by (auto simp: index_inv_append index_inv_Cons index_map_append index_map_Cons fun_eq_iff
        split: option.split)
next
  case (missing xs ys)
  have "index_inv (xs @ mk_entry key r # ys)"
    using assms missing by (auto simp: index_inv_append index_inv_Cons)
  moreover have "index_map (xs @ mk_entry key r # ys) = (index_map es)(key \<mapsto> r)"
    using missing keys_less [OF missing(3)] index_map_none [of key xs]
    by (auto simp: index_map_append index_map_Cons fun_eq_iff split: option.split)
  ultimately show ?thesis
    using missing index_insert_missing [of xs ys key r] by simp
qed

lemma index_find_ok:
  assumes "index_inv es"
  shows "index_find key es = Some (index_map es key)"
proof (cases rule: index_cases [OF assms, where key = key, case_names found missing])
  case (found xs e ys)
  then show ?thesis
    using keys_less [OF found(4)] index_map_none [of key xs]
    by (simp add: index_find_def index_map_append index_map_Cons vec_at_append_right)
next
  case (missing xs ys)
  then show ?thesis
    using keys_less [OF missing(3)] keys_greater [OF missing(4)] index_map_none [of key xs] index_map_none [of key ys]
    by (simp add: index_find_def index_map_append)
qed

lemma index_remove_ok:
  assumes "index_inv es"
  shows "\<exists>fs. index_remove key es = Some (key \<in> dom (index_map es), fs) \<and> index_inv fs
    \<and> index_map fs = (index_map es)(key := None)"
proof (cases rule: index_cases [OF assms, where key = key, case_names found missing])
  case (found xs e ys)
  have none: "index_map xs key = None" "index_map ys key = None"
    using index_map_none keys_less [OF found(4)] keys_greater [OF found(5)] by simp_all
  then have dom: "key \<in> dom (index_map es)"
    using found by (simp add: domIff index_map_append index_map_Cons)
  have "index_inv (xs @ ys)"
    using assms unfolding found(1) by (simp add: index_inv_append index_inv_Cons)
  moreover have "index_map (xs @ ys) = (index_map es)(key := None)"
  proof
    fix k
    show "index_map (xs @ ys) k = ((index_map es)(key := None)) k"
      using none found(2) unfolding found(1)
      by (simp add: index_map_append index_map_Cons split: option.split)
  qed
  ultimately show ?thesis
    using dom found index_remove_found [of xs e ys key] by simp
next
  case (missing xs ys)
  then have "index_map es key = None"
    using index_map_none [of key xs] index_map_none [of key ys] keys_less [OF missing(3)]
      keys_greater [OF missing(4)] by (simp add: index_map_append)
  then show ?thesis
    using assms missing by (auto simp: index_remove_def)
qed

section \<open>The contract\<close>

locale key_index =
  fixes empty :: 's
    and insert_key :: "int \<Rightarrow> int \<Rightarrow> 's \<Rightarrow> 's option"
    and find_key :: "int \<Rightarrow> 's \<Rightarrow> int option option"
    and remove_key :: "int \<Rightarrow> 's \<Rightarrow> (bool \<times> 's) option"
    and lookup :: "'s \<Rightarrow> int \<Rightarrow> int option"
    and invar :: "'s \<Rightarrow> bool"
  assumes empty_ok: "invar empty" "lookup empty = Map.empty"
    and insert_ok: "invar s \<Longrightarrow> \<exists>t. insert_key k r s = Some t \<and> invar t \<and> lookup t = (lookup s)(k \<mapsto> r)"
    and find_ok: "invar s \<Longrightarrow> find_key k s = Some (lookup s k)"
    and remove_ok: "invar s \<Longrightarrow> \<exists>t. remove_key k s = Some (k \<in> dom (lookup s), t) \<and> invar t
      \<and> lookup t = (lookup s)(k := None)"
begin

text \<open>What the executor uses of an index: which keys are in it.\<close>

lemma find_after_insert: "invar s \<Longrightarrow> insert_key k r s = Some t \<Longrightarrow> find_key k t = Some (Some r)"
  using insert_ok [of s k r] find_ok [of t k] by auto

lemma find_after_remove: "invar s \<Longrightarrow> remove_key k s = Some (b, t) \<Longrightarrow> find_key k t = Some None"
  using remove_ok [of s k] find_ok [of t k] by auto

lemma insert_keys:
  "invar s \<Longrightarrow> \<exists>t. insert_key k r s = Some t \<and> invar t \<and> dom (lookup t) = insert k (dom (lookup s))"
  using insert_ok [of s k r] by auto

lemma remove_keys:
  "invar s \<Longrightarrow> \<exists>b t. remove_key k s = Some (b, t) \<and> invar t \<and> dom (lookup t) = dom (lookup s) - {k}"
  using remove_ok [of s k] by auto

text \<open>Removing the keys of a list one after the other removes exactly those keys.\<close>

lemma remove_all:
  "invar s \<Longrightarrow> \<exists>t. fold (\<lambda>k m. m \<bind> (\<lambda>u. map_option snd (remove_key k u))) ks (Some s) = Some t
     \<and> invar t \<and> dom (lookup t) = dom (lookup s) - set ks"
proof (induction ks arbitrary: s)
  case Nil
  then show ?case by simp
next
  case (Cons k ks)
  from remove_keys [OF Cons.prems, of k] obtain b u
    where u: "remove_key k s = Some (b, u)" "invar u" "dom (lookup u) = dom (lookup s) - {k}" by blast
  from Cons.IH [OF u(2)] u show ?case by auto
qed

end

interpretation pk: key_index "[]" index_insert index_find index_remove index_map index_inv
proof
  show "index_inv []" by simp
  show "index_map [] = Map.empty" by (simp add: index_map_def)
qed (simp_all add: index_insert_ok index_find_ok index_remove_ok)

section \<open>Properties\<close>

text \<open>What the operations of an index do to the map it represents.\<close>

datatype index_op = Insert_Key int int | Remove_Key int | Clear_Index

fun index_step :: "index_op \<Rightarrow> index \<Rightarrow> index option" where
  "index_step (Insert_Key k r) es = index_insert32 k r es"
| "index_step (Remove_Key k) es = map_option snd (index_remove32 k es)"
| "index_step Clear_Index es = Some (index_clear es)"

fun map_step :: "index_op \<Rightarrow> (int \<Rightarrow> int option) \<Rightarrow> int \<Rightarrow> int option" where
  "map_step (Insert_Key k r) m = m(k \<mapsto> r)"
| "map_step (Remove_Key k) m = m(k := None)"
| "map_step Clear_Index m = Map.empty"

fun index_run :: "index_op list \<Rightarrow> index \<Rightarrow> index option" where
  "index_run [] es = Some es"
| "index_run (p # ps) es = index_step p es \<bind> index_run ps"

fun op_inserts :: "index_op \<Rightarrow> nat" where
  "op_inserts (Insert_Key k r) = 1"
| "op_inserts _ = 0"

lemma index_insert_length:
  assumes "index_inv es" and "index_insert key r es = Some fs"
  shows "length fs \<le> Suc (length es)"
proof (cases rule: index_cases [OF assms(1), where key = key, case_names found missing])
  case (found xs e ys)
  then show ?thesis using assms(2) index_insert_found [of xs e ys key r] by auto
next
  case (missing xs ys)
  then show ?thesis using assms(2) index_insert_missing [of xs ys key r] by auto
qed

lemma index_remove_length:
  assumes "index_inv es" and "index_remove key es = Some (b, fs)"
  shows "length fs \<le> length es"
proof (cases rule: index_cases [OF assms(1), where key = key, case_names found missing])
  case (found xs e ys)
  then show ?thesis using assms(2) index_remove_found [of xs e ys key] by auto
next
  case (missing xs ys)
  then show ?thesis using assms(2) by (auto simp: index_remove_def)
qed

lemma index_step_ok:
  assumes "index_inv es" and "length es + op_inserts p < 2 ^ 31"
  shows "\<exists>fs. index_step p es = Some fs \<and> index_inv fs \<and> index_map fs = map_step p (index_map es)
    \<and> length fs \<le> length es + op_inserts p"
proof (cases p)
  case (Insert_Key k r)
  then show ?thesis
    using pk.insert_ok [OF assms(1), of k r] index_insert_length [OF assms(1), of k r]
      index_insert32_eq [of es k r] assms(2) by auto
next
  case (Remove_Key k)
  then show ?thesis
    using pk.remove_ok [OF assms(1), of k] index_remove_length [OF assms(1), of k]
      index_remove32_eq [of es k] assms(2) by auto
qed (simp add: index_clear_def pk.empty_ok(2))

lemma index_run_ok:
  "index_inv es \<Longrightarrow> length es + sum_list (map op_inserts ps) < 2 ^ 31 \<Longrightarrow>
    \<exists>fs. index_run ps es = Some fs \<and> index_inv fs \<and> index_map fs = fold map_step ps (index_map es)
      \<and> length fs < 2 ^ 31"
proof (induction ps arbitrary: es)
  case (Cons p ps)
  then obtain fs where "index_step p es = Some fs" "index_inv fs" "index_map fs = map_step p (index_map es)"
      "length fs \<le> length es + op_inserts p"
    using index_step_ok [of es p] by auto
  with Cons.IH [of fs] Cons.prems(2) show ?case by simp
qed simp

text \<open>C5. The primary-key index is a finite map: after any run of insertions, removals and clears
  from the empty index with less than \<open>2 ^ 31\<close> insertions, no access was out of range, no \<open>int\<close> position
  overflowed, the vector is sorted strictly by key, and a lookup by bisection returns exactly
  what the same run leaves in a map.\<close>

theorem index_is_a_map:
  assumes "sum_list (map op_inserts ps) < 2 ^ 31"
  shows "\<exists>es. index_run ps [] = Some es \<and> sorted_wrt (<) (map ie_key es)
     \<and> index_find32 key es = Some (fold map_step ps Map.empty key)"
proof -
  obtain es where es: "index_run ps [] = Some es" "index_inv es" "index_map es = fold map_step ps (index_map [])"
      "length es < 2 ^ 31"
    using index_run_ok [OF pk.empty_ok(1), of ps] assms by auto
  moreover have "index_map [] = Map.empty" by (rule pk.empty_ok(2))
  ultimately show ?thesis
    using pk.find_ok [OF es(2), of key] index_find32_eq [OF es(4), of key] by (simp add: index_inv_def)
qed

theorem index_is_a_map_witness:
  "\<exists>es. index_run [Insert_Key 5 0, Insert_Key 3 1, Remove_Key 5] [] = Some es \<and> index_find32 3 es = Some (Some 1)"
  using index_is_a_map [of "[Insert_Key 5 0, Insert_Key 3 1, Remove_Key 5]" 3] by auto

text \<open>At \<open>2 ^ 31\<close> entries the cast gives the least \<open>int\<close>, and the subtraction after it overflows.\<close>

lemma find_pos32_overflow: "length es = 2 ^ 31 \<Longrightarrow> find_pos32 es key = None"
  by (auto simp: find_pos32_def int_size_def wrap32_def int_op_def in_int32_def)

text \<open>\<open>find_pos\<close> encodes the insertion point of a missing key as \<open>~lo\<close>: on a sorted vector
  the loop ends with a position that holds the key, or with the one before which all keys are
  smaller and from which all are greater.\<close>

lemma find_pos_correct:
  assumes "sorted_wrt (<) (map ie_key es)"
  shows "\<exists>pos. find_pos es key = Some pos \<and>
     (if pos \<ge> 0 then nat pos < length es \<and> ie_key (es ! nat pos) = key
      else nat (- pos - 1) \<le> length es
        \<and> list_all (\<lambda>e. ie_key e < key) (take (nat (- pos - 1)) es)
        \<and> list_all (\<lambda>e. key < ie_key e) (drop (nat (- pos - 1)) es))"
proof -
  obtain pos where pos: "find_pos es key = Some pos" "right_pos es key pos"
    using find_pos_right assms by (auto simp: index_inv_def)
  then show ?thesis
    by (intro exI [of _ pos]) (auto simp: right_pos_def list_all_length)
qed

lemma find_pos_correct_witness:
  "find_pos [mk_entry 3 0, mk_entry 8 1] 5 = Some (- 2) \<and> find_pos [mk_entry 3 0, mk_entry 8 1] 8 \<noteq> None"
  using find_pos_correct [of "[mk_entry 3 0, mk_entry 8 1]" 8]
  by (auto simp: find_pos_def find_loop.simps)

end
