(* ===== verification/Database_Model.thy ===== *)
theory Database_Model
  imports Table_Model Index_Model
begin

text \<open>
  A database (src/storage/database.hpp, database.cpp): three parallel vectors of tables,
  indexes and names, with the table files under its data directory. A \<open>Table*\<close> or
  \<open>Index*\<close> into a vector is the position it points at. The invariant \<open>db_inv\<close> is what makes
  the parallel vectors a map from names to tables, and every operation keeps it.
\<close>

record database =
  db_name :: string
  db_data_dir :: string
  db_tables :: "table list"
  db_indexes :: "index list"
  db_table_names :: "string list"

definition database_new :: "string \<Rightarrow> database" where
  "database_new n = \<lparr>db_name = n, db_data_dir = [], db_tables = [], db_indexes = [], db_table_names = []\<rparr>"

definition set_data_dir :: "string \<Rightarrow> database \<Rightarrow> database" where
  "set_data_dir d db = db\<lparr>db_data_dir := d\<rparr>"

section \<open>Finding a table\<close>

fun name_pos :: "nat \<Rightarrow> string list \<Rightarrow> string \<Rightarrow> nat option" where
  "name_pos i [] n = None"
| "name_pos i (m # ms) n = (if m = n then Some i else name_pos (Suc i) ms n)"

definition get_table :: "database \<Rightarrow> string \<Rightarrow> nat option" where
  "get_table db n = name_pos 0 (db_table_names db) n"

definition get_index :: "database \<Rightarrow> string \<Rightarrow> nat option" where
  "get_index db n = name_pos 0 (db_table_names db) n"

section \<open>Creating and dropping\<close>

definition create_table :: "string \<Rightarrow> column list \<Rightarrow> database \<Rightarrow> bool \<times> database" where
  "create_table name columns db =
     (if get_table db name \<noteq> None then (False, db)
      else (let t = fold add_column columns (table_new_in name (db_data_dir db))
            in (True, db\<lparr>db_indexes := db_indexes db @ [if primary_key_index t \<ge> 0 then index_clear [] else []],
                         db_table_names := db_table_names db @ [name],
                         db_tables := db_tables db @ [t]\<rparr>)))"

text \<open>The path of a table's file, as \<open>drop_table\<close> rebuilds it, for the suffixes .dat and .idx.\<close>

definition file_path :: "database \<Rightarrow> string \<Rightarrow> string \<Rightarrow> string" where
  "file_path db name suffix =
     (if db_data_dir db \<noteq> []
      then (let total = length (db_data_dir db) + 1 + length name + 4
            in snprintf (total + 1) (db_data_dir db @ ''/'' @ name @ suffix))
      else snprintf 512 (name @ suffix))"

definition move_down :: "nat \<Rightarrow> string list \<times> table list \<times> index list
    \<Rightarrow> (string list \<times> table list \<times> index list) option" where
  "move_down j s = (case s of (ns, ts, xs) \<Rightarrow> do {
     n \<leftarrow> vec_at ns (Suc j); ns' \<leftarrow> vec_set ns j n;
     t \<leftarrow> vec_at ts (Suc j); ts' \<leftarrow> vec_set ts j t;
     x \<leftarrow> vec_at xs (Suc j); xs' \<leftarrow> vec_set xs j x;
     Some (ns', ts', xs')
   })"

definition drop_table :: "'w os \<Rightarrow> string \<Rightarrow> database \<Rightarrow> 'w \<Rightarrow> (bool \<times> database \<times> 'w) option" where
  "drop_table os name db w =
     (case name_pos 0 (db_table_names db) name of
        None \<Rightarrow> Some (False, db, w)
      | Some i \<Rightarrow> do {
          _ \<leftarrow> vec_at (db_tables db) i;
          let (_, w1) = os_remove os (file_path db name ''.dat'') w;
          let (_, w2) = os_remove os (file_path db name ''.idx'') w1;
          (ns, ts, xs) \<leftarrow> for_range i (length (db_table_names db) - 1) move_down
            (db_table_names db, db_tables db, db_indexes db);
          Some (True, db\<lparr>db_table_names := butlast ns, db_tables := butlast ts, db_indexes := butlast xs\<rparr>, w2)
        })"

section \<open>Persistence\<close>

text \<open>\<open>save_all\<close> stops at the first table that cannot be saved.\<close>

fun save_tables :: "'w os \<Rightarrow> table list \<Rightarrow> 'w \<Rightarrow> bool \<times> 'w" where
  "save_tables os [] w = (True, w)"
| "save_tables os (t # ts) w =
     (let (ok, w1) = save_to_file os t w in if ok then save_tables os ts w1 else (False, w1))"

definition save_all :: "'w os \<Rightarrow> database \<Rightarrow> 'w \<Rightarrow> bool \<times> 'w" where
  "save_all os db w = (if db_data_dir db = [] then (False, w) else save_tables os (db_tables db) w)"

definition load_all :: "database \<Rightarrow> bool" where
  "load_all db = (db_data_dir db \<noteq> [])"

section \<open>The registry\<close>

definition make_db_path :: "string \<Rightarrow> string \<Rightarrow> string" where
  "make_db_path data_root dbname = data_root @ ''/'' @ dbname"

definition create_database :: "'w os \<Rightarrow> string \<Rightarrow> string \<Rightarrow> 'w \<Rightarrow> bool \<times> 'w" where
  "create_database os data_root dbname w =
     (let (_, w1) = os_mkdir os data_root w in os_mkdir os (make_db_path data_root dbname) w1)"

definition drop_database :: "'w os \<Rightarrow> string \<Rightarrow> string \<Rightarrow> 'w \<Rightarrow> bool \<times> 'w" where
  "drop_database os data_root dbname w = os_rmdir os (make_db_path data_root dbname) w"

text \<open>
  The registry's \<open>use_database\<close>: a function-local static database, made by the first call and
  given a new directory, but neither a new name nor new tables, by the later ones.
\<close>

definition use_database :: "string \<Rightarrow> string \<Rightarrow> database option \<Rightarrow> database" where
  "use_database data_root dbname g =
     set_data_dir (make_db_path data_root dbname) (case g of None \<Rightarrow> database_new dbname | Some db \<Rightarrow> db)"

definition current_db :: "database option \<Rightarrow> database option" where
  "current_db g = g"

section \<open>The invariant\<close>

text \<open>
  Three vectors of one length; distinct names, each the name of its table, whose file lies in
  the data directory; rows of the schema's width; sorted indexes.
\<close>

definition db_inv :: "database \<Rightarrow> bool" where
  "db_inv db \<longleftrightarrow> length (db_tables db) = length (db_table_names db)
     \<and> length (db_indexes db) = length (db_table_names db)
     \<and> distinct (db_table_names db)
     \<and> map tb_name (db_tables db) = db_table_names db
     \<and> list_all table_inv (db_tables db) \<and> list_all index_inv (db_indexes db)"

lemma name_pos_cases:
  "(\<exists>j < length ns. name_pos i ns n = Some (i + j) \<and> ns ! j = n) \<or> (name_pos i ns n = None \<and> n \<notin> set ns)"
proof (induction ns arbitrary: i)
  case (Cons m ms)
  show ?case
  proof (cases "m = n")
    case False
    with Cons.IH [of "Suc i"] show ?thesis by (auto intro: exI [of _ "Suc j" for j])
  qed auto
qed simp

lemma get_table_cases:
  obtains (found) j where "j < length (db_table_names db)" "get_table db n = Some j" "db_table_names db ! j = n"
  | (missing) "get_table db n = None" "n \<notin> set (db_table_names db)"
  using name_pos_cases [of "db_table_names db" 0 n] unfolding get_table_def by auto

lemma get_index_get_table: "get_index db n = get_table db n"
  by (simp add: get_index_def get_table_def)

lemma get_table_Some:
  assumes "get_table db n = Some i"
  shows "i < length (db_table_names db)" "db_table_names db ! i = n"
  using assms by (cases rule: get_table_cases [of db n], auto)+

lemma get_table_nth: "distinct (db_table_names db) \<Longrightarrow> i < length (db_table_names db) \<Longrightarrow>
  get_table db (db_table_names db ! i) = Some i"
  by (cases rule: get_table_cases [of db "db_table_names db ! i"]) (auto simp: nth_eq_iff_index_eq)

lemma get_table_inv:
  assumes "db_inv db" and "get_table db n = Some i"
  shows "i < length (db_tables db)" "i < length (db_indexes db)" "tb_name (db_tables db ! i) = n"
    "table_inv (db_tables db ! i)" "index_inv (db_indexes db ! i)"
proof -
  note i = get_table_Some [OF assms(2)]
  then show "i < length (db_tables db)" "i < length (db_indexes db)"
    using assms(1) by (simp_all add: db_inv_def)
  then show "table_inv (db_tables db ! i)" "index_inv (db_indexes db ! i)"
    using assms(1) by (simp_all add: db_inv_def list_all_length)
  have "map tb_name (db_tables db) ! i = n" using assms(1) i by (simp add: db_inv_def)
  then show "tb_name (db_tables db ! i) = n" using \<open>i < length (db_tables db)\<close> by simp
qed

text \<open>Writing through the two pointers into a database.\<close>

definition put_table :: "nat \<Rightarrow> table \<Rightarrow> database \<Rightarrow> database" where
  "put_table i t db = db\<lparr>db_tables := (db_tables db)[i := t]\<rparr>"

definition put_index :: "nat \<Rightarrow> index \<Rightarrow> database \<Rightarrow> database" where
  "put_index i x db = db\<lparr>db_indexes := (db_indexes db)[i := x]\<rparr>"

lemma put_simps [row_simps]:
  "db_tables (put_table i t db) = (db_tables db)[i := t]" "db_indexes (put_table i t db) = db_indexes db"
  "db_table_names (put_table i t db) = db_table_names db" "db_data_dir (put_table i t db) = db_data_dir db"
  "db_indexes (put_index i x db) = (db_indexes db)[i := x]" "db_tables (put_index i x db) = db_tables db"
  "db_table_names (put_index i x db) = db_table_names db" "db_data_dir (put_index i x db) = db_data_dir db"
  "db_name (put_table i t db) = db_name db" "db_name (put_index i x db) = db_name db"
  by (simp_all add: put_table_def put_index_def)

lemma get_table_put [simp]:
  "get_table (put_table i t db) n = get_table db n" "get_table (put_index i x db) n = get_table db n"
  by (simp_all add: get_table_def row_simps)

lemma list_all_update: "list_all P xs \<Longrightarrow> P x \<Longrightarrow> list_all P (xs[i := x])"
  by (auto simp: list_all_iff dest: set_update_subset_insert [THEN subsetD])

lemma db_inv_put:
  assumes "db_inv db" and "get_table db n = Some i"
    and "table_inv t" and "tb_name t = n" and "index_inv x"
  shows "db_inv (put_index i x (put_table i t db))"
proof -
  note i = get_table_Some [OF assms(2)]
  have "map tb_name ((db_tables db)[i := t]) = (map tb_name (db_tables db))[i := n]"
    using assms(4) by (simp add: map_update)
  also have "\<dots> = db_table_names db"
    using assms(1) i by (simp add: db_inv_def list_update_same_conv)
  finally show ?thesis
    using assms by (simp add: db_inv_def row_simps list_all_update)
qed

lemma db_inv_new [simp]: "db_inv (database_new n)"
  by (simp add: db_inv_def database_new_def)

lemma db_inv_set_data_dir [simp]: "db_inv (set_data_dir d db) = db_inv db"
  by (simp add: db_inv_def set_data_dir_def)

section \<open>The operations keep it\<close>

lemma fold_add_column:
  "fold add_column cs t = t\<lparr>tb_columns := tb_columns t @ cs\<rparr>"
  by (induction cs arbitrary: t) (simp_all add: add_column_def)

lemma create_table_new:
  assumes "get_table db n = None"
  shows "create_table n cs db = (True, db\<lparr>db_indexes := db_indexes db @ [[]],
    db_table_names := db_table_names db @ [n],
    db_tables := db_tables db @ [(table_new_in n (db_data_dir db))\<lparr>tb_columns := cs\<rparr>]\<rparr>)"
  using assms by (simp add: create_table_def fold_add_column index_clear_def Let_def)

lemma create_table_existing: "get_table db n \<noteq> None \<Longrightarrow> create_table n cs db = (False, db)"
  by (simp add: create_table_def)

lemma create_table_inv: "db_inv db \<Longrightarrow> create_table n cs db = (ok, db') \<Longrightarrow> db_inv db'"
proof (cases rule: get_table_cases [of db n])
  case missing
  assume "db_inv db" "create_table n cs db = (ok, db')"
  with missing show ?thesis
    by (auto simp: create_table_new db_inv_def table_inv_def)
qed (simp add: create_table_existing)

text \<open>The loop over three vectors is the loop on each of them.\<close>

lemma for_range_move_down:
  assumes "for_range i n (\<lambda>j ys. do { y \<leftarrow> vec_at ys (Suc j); vec_set ys j y }) a = Some a'"
    and "for_range i n (\<lambda>j ys. do { y \<leftarrow> vec_at ys (Suc j); vec_set ys j y }) b = Some b'"
    and "for_range i n (\<lambda>j ys. do { y \<leftarrow> vec_at ys (Suc j); vec_set ys j y }) c = Some c'"
  shows "for_range i n move_down (a, b, c) = Some (a', b', c')"
  using assms
proof (induction "n - i" arbitrary: i a b c)
  case 0
  then show ?case by simp
next
  case (Suc k)
  then have "i < n" by simp
  with Suc.prems obtain a1 b1 c1 where
    "vec_at a (Suc i) \<bind> vec_set a i = Some a1"
    "vec_at b (Suc i) \<bind> vec_set b i = Some b1" "vec_at c (Suc i) \<bind> vec_set c i = Some c1"
    and rest: "for_range (Suc i) n (\<lambda>j ys. do { y \<leftarrow> vec_at ys (Suc j); vec_set ys j y }) a1 = Some a'"
    "for_range (Suc i) n (\<lambda>j ys. do { y \<leftarrow> vec_at ys (Suc j); vec_set ys j y }) b1 = Some b'"
    "for_range (Suc i) n (\<lambda>j ys. do { y \<leftarrow> vec_at ys (Suc j); vec_set ys j y }) c1 = Some c'"
    by (auto simp: for_range_step)
  moreover have "for_range (Suc i) n move_down (a1, b1, c1) = Some (a', b', c')"
    using Suc.hyps(2) \<open>i < n\<close> rest by (intro Suc.hyps(1)) auto
  ultimately show ?case
    using \<open>i < n\<close> by (auto simp: for_range_step move_down_def)
qed

lemma for_range_shift_left:
  "i < length xs \<Longrightarrow> length xs = n \<Longrightarrow>
   for_range i (n - 1) (\<lambda>j ys. do { y \<leftarrow> vec_at ys (Suc j); vec_set ys j y }) xs
   = Some (remove_nth i xs @ [last xs])"
  using shift_left_correct [of i xs] by (simp add: shift_left_def)

definition removed_files :: "'w os \<Rightarrow> string \<Rightarrow> database \<Rightarrow> 'w \<Rightarrow> 'w" where
  "removed_files os n db w =
     snd (os_remove os (file_path db n ''.idx'') (snd (os_remove os (file_path db n ''.dat'') w)))"

lemma drop_table_found:
  assumes "db_inv db" and "get_table db n = Some i"
  shows "drop_table os n db w = Some (True, db\<lparr>db_table_names := remove_nth i (db_table_names db),
    db_tables := remove_nth i (db_tables db), db_indexes := remove_nth i (db_indexes db)\<rparr>, removed_files os n db w)"
proof -
  note i = get_table_Some(1) [OF assms(2)] get_table_inv(1,2) [OF assms]
  have len: "length (db_tables db) = length (db_table_names db)"
    "length (db_indexes db) = length (db_table_names db)" using assms(1) by (simp_all add: db_inv_def)
  have "for_range i (length (db_table_names db) - 1) move_down
      (db_table_names db, db_tables db, db_indexes db)
    = Some (remove_nth i (db_table_names db) @ [last (db_table_names db)],
            remove_nth i (db_tables db) @ [last (db_tables db)],
            remove_nth i (db_indexes db) @ [last (db_indexes db)])"
    by (intro for_range_move_down for_range_shift_left i len refl)
  then show ?thesis
    using assms(2) i by (simp add: drop_table_def get_table_def removed_files_def split: prod.split)
qed

lemma drop_table_missing: "get_table db n = None \<Longrightarrow> drop_table os n db w = Some (False, db, w)"
  by (simp add: drop_table_def get_table_def)

lemma db_inv_remove_nth:
  assumes "db_inv db" and "i < length (db_table_names db)"
  shows "db_inv (db\<lparr>db_table_names := remove_nth i (db_table_names db),
    db_tables := remove_nth i (db_tables db), db_indexes := remove_nth i (db_indexes db)\<rparr>)"
  using assms by (simp add: db_inv_def distinct_remove_nth map_remove_nth list_all_remove_nth)

lemma drop_table_ok:
  assumes "db_inv db"
  shows "\<exists>db' w'. drop_table os n db w = Some (n \<in> set (db_table_names db), db', w') \<and> db_inv db'
    \<and> db_data_dir db' = db_data_dir db \<and> set (db_table_names db') = set (db_table_names db) - {n}"
proof (cases rule: get_table_cases [of db n])
  case missing
  then show ?thesis using assms by (simp add: drop_table_missing)
next
  case (found i)
  have "set (remove_nth i (db_table_names db)) = set (db_table_names db) - {n}"
    using assms found by (simp add: set_remove_nth db_inv_def)
  moreover have "n \<in> set (db_table_names db)" using found(1,3) nth_mem by blast
  ultimately show ?thesis
    using drop_table_found [OF assms found(2), of os w] db_inv_remove_nth [OF assms found(1)]
    by fastforce
qed

section \<open>Properties\<close>

lemma file_path_in: "db_data_dir db \<noteq> [] \<Longrightarrow> length suf = 4 \<Longrightarrow> file_path db n suf = db_data_dir db @ ''/'' @ n @ suf"
  by (simp add: file_path_def snprintf_def)


definition sample_db :: database where
  "sample_db = snd (create_table ''b'' [] (snd (create_table ''a'' [] (set_data_dir ''d'' (database_new ''d'')))))"

lemma sample_db_inv: "db_inv sample_db" "db_data_dir sample_db = ''d''" "db_table_names sample_db = [''a'', ''b'']"
proof -
  show "db_inv sample_db"
    unfolding sample_db_def by (intro create_table_inv [OF _ surjective_pairing]) simp
  show "db_data_dir sample_db = ''d''" "db_table_names sample_db = [''a'', ''b'']" by (code_simp)+
qed


text \<open>CREATE TABLE adds the table under a new name, with the given columns, no rows and an
  empty index, and keeps the invariant; an existing name is refused and nothing changes.\<close>

lemma create_table_adds_one:
  assumes "db_inv db" and "create_table n cs db = (ok, db')"
  shows "db_inv db' \<and> (ok \<longleftrightarrow> n \<notin> set (db_table_names db))
    \<and> db_table_names db' = (if ok then db_table_names db @ [n] else db_table_names db)
    \<and> (ok \<longrightarrow> (\<exists>i. get_table db' n = Some i \<and> tb_columns (db_tables db' ! i) = cs
          \<and> tb_rows (db_tables db' ! i) = [] \<and> db_indexes db' ! i = []))"
proof (cases rule: get_table_cases [of db n])
  case missing
  have inv: "db_inv db'" by (rule create_table_inv [OF assms])
  then have "get_table db' n = Some (length (db_table_names db))"
    using get_table_nth [of db' "length (db_table_names db)"] assms missing
    by (auto simp: create_table_new db_inv_def)
  with inv show ?thesis
    using assms missing by (auto simp: create_table_new db_inv_def nth_append)
next
  case (found i)
  then have "n \<in> set (db_table_names db)" using nth_mem by blast
  with found assms show ?thesis by (auto simp: create_table_existing)
qed

lemma create_table_adds_one_witness:
  "fst (create_table ''c'' [] sample_db) \<and> \<not> fst (create_table ''a'' [] sample_db)"
  using create_table_adds_one [OF sample_db_inv(1) surjective_pairing, of "''c''" "[]"]
    create_table_adds_one [OF sample_db_inv(1) surjective_pairing, of "''a''" "[]"]
  by (simp add: sample_db_inv(3))

lemma save_tables_reads:
  assumes "reads_back os" and "keeps_others os" and "distinct (map tb_data_path ts)"
    and "save_tables os ts w = (True, w')" and "t \<in> set ts"
  shows "os_read os (tb_data_path t) w' = Some (table_text t)"
  using assms(3-5)
proof (induction ts arbitrary: w)
  case (Cons u us)
  obtain w1 where w1: "save_to_file os u w = (True, w1)" "save_tables os us w1 = (True, w')"
    using Cons.prems(2) by (auto split: prod.splits if_splits)
  have others: "os_read os p w' = os_read os p v" if "save_tables os vs v = (True, w')" "p \<notin> tb_data_path ` set vs"
    for p vs v
    using that
  proof (induction vs arbitrary: v)
    case (Cons x xs)
    then obtain v1 where "save_to_file os x v = (True, v1)" "save_tables os xs v1 = (True, w')"
      by (auto split: prod.splits if_splits)
    moreover from this have "os_read os p v1 = os_read os p v"
      using Cons.prems(2) assms(2) by (metis (no_types, lifting) image_insert insertI1 keeps_others_def
          list.simps(15) save_to_file_def snd_conv)
    ultimately show ?case using Cons.IH [of v1] Cons.prems(2) by simp
  qed simp
  show ?case
  proof (cases "t = u")
    case True
    have "tb_data_path u \<notin> tb_data_path ` set us" using Cons.prems(1) by simp
    then have "os_read os (tb_data_path u) w' = os_read os (tb_data_path u) w1" using others [OF w1(2)] by blast
    also have "\<dots> = Some (table_text u)"
      using w1(1) assms(1) by (simp add: save_to_file_def reads_back_def)
    finally show ?thesis using True by simp
  next
    case False
    then show ?thesis using Cons.IH [OF _ w1(2)] Cons.prems by auto
  qed
qed simp

text \<open>What \<open>save_all\<close> saves can be loaded: on a file system where a write is read back and
  leaves other files alone, after a successful \<open>save_all\<close> every table that the text format can
  represent is loaded from its file with its schema and rows.\<close>

lemma save_all_then_load:
  assumes "reads_back os" and "keeps_others os" and "distinct (map tb_data_path (db_tables db))"
    and "save_all os db w = (True, w')" and "t \<in> set (db_tables db)" and "persistable t"
  shows "load_from_file os ((table_new_in (tb_name t) d)\<lparr>tb_data_path := tb_data_path t\<rparr>) w'
    = (True, (table_new_in (tb_name t) d)\<lparr>tb_data_path := tb_data_path t, tb_columns := tb_columns t, tb_rows := tb_rows t\<rparr>)"
proof -
  have "save_tables os (db_tables db) w = (True, w')" using assms(4) by (simp add: save_all_def split: if_splits)
  from save_tables_reads [OF assms(1-3) this assms(5)] load_text_table_text [OF assms(6)]
  show ?thesis by (simp add: load_from_file_def table_new_in_def)
qed

lemma save_all_then_load_witness:
  "fst (load_from_file mem_os (table_new_in ''a'' ''d'') (snd (save_all mem_os sample_db mem_empty)))"
proof -
  let ?t = "hd (db_tables sample_db)"
  have s: "distinct (map tb_data_path (db_tables sample_db))" "?t \<in> set (db_tables sample_db)" "persistable ?t"
      "tb_name ?t = ''a''" "tb_data_path ?t = ''d/a.dat''" "fst (save_all mem_os sample_db mem_empty)"
    by (code_simp)+
  have "save_all mem_os sample_db mem_empty = (True, snd (save_all mem_os sample_db mem_empty))"
    using s(6) by (metis prod.collapse)
  from save_all_then_load [OF mem_os_laws(1,2) s(1) this s(2,3), of "''d''"] show ?thesis
    by (simp add: s(4,5) table_new_in_def)
qed

end
