(* ===== verification/Executor.thy ===== *)
theory Executor
  imports Database_Model Ast
begin

text \<open>
  The execution engine (src/execution/executor.hpp, executor.cpp): one handler per statement
  kind, with the early returns of the code. A handler is \<open>None\<close> where the code would be
  undefined (a null database pointer, an index out of range). \<open>g_result_table\<close>, the static
  table that a SELECT's result points into, is part of the state.
\<close>

section \<open>Results and state\<close>

datatype status = OK | ERROR

text \<open>\<open>res_table\<close> tells whether \<open>result_table\<close> points to \<open>g_result_table\<close> or is null.\<close>

record exec_result =
  res_status :: status
  res_message :: string
  res_table :: bool

definition result_ok :: "string \<Rightarrow> exec_result" where
  "result_ok msg = \<lparr>res_status = OK, res_message = msg, res_table = False\<rparr>"

definition result_error :: "string \<Rightarrow> exec_result" where
  "result_error msg = \<lparr>res_status = ERROR, res_message = msg, res_table = False\<rparr>"

record 'w executor =
  ex_data_root :: string
  ex_current_db_name :: string
  ex_current_db :: "database option"
  ex_result :: table
  ex_world :: 'w

type_synonym 'w handler = "'w executor \<Rightarrow> (exec_result \<times> 'w executor) option"

definition result_table_name :: string where
  "result_table_name = ''__result__''"

definition executor_new :: "'w os \<Rightarrow> string \<Rightarrow> 'w \<Rightarrow> 'w executor" where
  "executor_new os data_root w =
     \<lparr>ex_data_root = data_root, ex_current_db_name = [], ex_current_db = None,
      ex_result = table_new result_table_name, ex_world = snd (os_mkdir os data_root w)\<rparr>"

definition executor_delete :: "'w executor \<Rightarrow> 'w executor" where
  "executor_delete ex = ex\<lparr>ex_current_db := None\<rparr>"

definition current_db_name :: "'w executor \<Rightarrow> string" where
  "current_db_name ex = (if ex_current_db_name ex = [] then [] else ex_current_db_name ex)"

definition shutdown :: "'w os \<Rightarrow> 'w executor \<Rightarrow> 'w executor" where
  "shutdown os ex =
     (case ex_current_db ex of
        None \<Rightarrow> ex
      | Some db \<Rightarrow> ex\<lparr>ex_world := snd (save_all os db (ex_world ex))\<rparr>)"

section \<open>The prologue the handlers share\<close>

definition require_db :: "'w executor \<Rightarrow> exec_result option" where
  "require_db ex =
     (if ex_current_db_name ex = []
      then Some (result_error (''No database selected. Use '' @ squote ''use <dbname>'' @ '' first.''))
      else None)"

definition on_db :: "(database \<Rightarrow> (exec_result \<times> 'w executor) option) \<Rightarrow> 'w handler" where
  "on_db f ex =
     (case require_db ex of
        Some err \<Rightarrow> Some (err, ex)
      | None \<Rightarrow>
          (case ex_current_db ex of
             None \<Rightarrow> Some (result_error ''No database selected'', ex)
           | Some db \<Rightarrow> f db))"

definition no_table :: "string \<Rightarrow> exec_result" where
  "no_table n = result_error (snprintf 512 (''Table '' @ squote n @ '' does not exist''))"

definition on_table :: "string \<Rightarrow> (database \<Rightarrow> nat \<Rightarrow> table \<Rightarrow> (exec_result \<times> 'w executor) option) \<Rightarrow> 'w handler" where
  "on_table name f ex =
     on_db (\<lambda>db. case get_table db name of
                   None \<Rightarrow> Some (no_table name, ex)
                 | Some i \<Rightarrow> do { t \<leftarrow> vec_at (db_tables db) i; f db i t }) ex"

definition no_column :: "string \<Rightarrow> string \<Rightarrow> exec_result" where
  "no_column c n = result_error (snprintf 512 (''Column '' @ squote c @ '' not found in table '' @ squote n))"

text \<open>The WHERE column: -1 without a WHERE, an error when there is no such column.\<close>

definition where_column :: "table \<Rightarrow> string \<Rightarrow> where_clause option \<Rightarrow> exec_result + int" where
  "where_column t name wh =
     (case wh of
        None \<Rightarrow> Inr (- 1)
      | Some wc \<Rightarrow>
          (let col = find_column t (wc_column wc)
           in if col < 0 then Inl (no_column (wc_column wc) name) else Inr col))"

text \<open>The \<open>Index*\<close> of the handlers: null, or the element it points at.\<close>

definition index_of :: "database \<Rightarrow> string \<Rightarrow> index option option" where
  "index_of db name =
     (case get_index db name of None \<Rightarrow> Some None | Some k \<Rightarrow> map_option Some (vec_at (db_indexes db) k))"

text \<open>What a handler leaves behind its two pointers.\<close>

definition write_back :: "nat \<Rightarrow> table \<Rightarrow> index option \<Rightarrow> database \<Rightarrow> database" where
  "write_back i t idx db =
     (let db1 = put_table i t db in case idx of None \<Rightarrow> db1 | Some x \<Rightarrow> put_index i x db1)"

section \<open>WHERE\<close>

definition literal_value :: "bool \<Rightarrow> string \<Rightarrow> svalue" where
  "literal_value int_lit s = (if int_lit then V_INT (atoi s) else V_STRING s)"

definition parse_where_value :: "where_clause \<Rightarrow> svalue" where
  "parse_where_value wc = literal_value (wc_is_int_literal wc) (wc_const_value wc)"

definition matches_where :: "row \<Rightarrow> int \<Rightarrow> where_clause \<Rightarrow> bool option" where
  "matches_where r col_idx wc =
     (if col_idx < 0 \<or> nat col_idx \<ge> length r then Some False
      else do {
        cell \<leftarrow> get_value r (nat col_idx);
        let cmp = value_compare cell (parse_where_value wc);
        if wc_op wc = ''='' then Some (cmp = 0)
        else if wc_op wc = ''<'' then Some (cmp < 0)
        else if wc_op wc = ''>'' then Some (cmp > 0)
        else Some False
      })"

text \<open>The test at the head of the three row loops, on row \<open>i\<close> of the table.\<close>

definition row_selected :: "table \<Rightarrow> nat \<Rightarrow> int \<Rightarrow> where_clause option \<Rightarrow> bool option" where
  "row_selected t i where_col wh =
     (case wh of None \<Rightarrow> Some True | Some wc \<Rightarrow> do { r \<leftarrow> row_at t i; matches_where r where_col wc })"

section \<open>Data definition\<close>

definition exec_create_database :: "'w os \<Rightarrow> string \<Rightarrow> 'w handler" where
  "exec_create_database os n ex =
     (let (ok, w) = create_database os (ex_data_root ex) n (ex_world ex);
          ex1 = ex\<lparr>ex_world := w\<rparr>
      in if \<not> ok then Some (result_error (snprintf 512 (''Failed to create database '' @ squote n)), ex1)
         else Some (result_ok (snprintf 512 (''Database '' @ squote n @ '' created'')), ex1))"

definition exec_drop_database :: "'w os \<Rightarrow> string \<Rightarrow> 'w handler" where
  "exec_drop_database os n ex = do {
     ex1 \<leftarrow> (if ex_current_db_name ex = n then do {
               db \<leftarrow> ex_current_db ex;
               Some (ex\<lparr>ex_world := snd (save_all os db (ex_world ex)),
                        ex_current_db := None, ex_current_db_name := []\<rparr>)
             }
             else Some ex);
     let (ok, w) = os_rmdir os (ex_data_root ex1 @ ''/'' @ n) (ex_world ex1);
     let ex2 = ex1\<lparr>ex_world := w\<rparr>;
     if \<not> ok then Some (result_error (snprintf 512 (''Failed to drop database '' @ squote n)), ex2)
     else Some (result_ok (snprintf 512 (''Database '' @ squote n @ '' dropped'')), ex2)
   }"

definition exec_use :: "'w os \<Rightarrow> string \<Rightarrow> 'w handler" where
  "exec_use os n ex =
     (let w = (case ex_current_db ex of None \<Rightarrow> ex_world ex | Some db \<Rightarrow> snd (save_all os db (ex_world ex)));
          db_path = ex_data_root ex @ ''/'' @ n
      in Some (result_ok (snprintf 512 (''Using database '' @ squote n)),
               ex\<lparr>ex_world := w, ex_current_db_name := n,
                  ex_current_db := Some (set_data_dir db_path (database_new n))\<rparr>))"

definition convert_column :: "column_def \<Rightarrow> column" where
  "convert_column cd = \<lparr>col_name = cd_name cd, col_type = type_from_string (cd_type cd),
     col_is_primary = cd_is_primary cd\<rparr>"

definition exec_create_table :: "create_table_stmt \<Rightarrow> 'w handler" where
  "exec_create_table s ex =
     on_db (\<lambda>db.
       let (ok, db1) = create_table (ct_table_name s) (map convert_column (ct_columns s)) db;
           ex1 = ex\<lparr>ex_current_db := Some db1\<rparr>
       in if \<not> ok then Some (result_error (snprintf 512 (''Table '' @ squote (ct_table_name s) @ '' already exists'')), ex1)
          else Some (result_ok (snprintf 512 (''Table '' @ squote (ct_table_name s) @ '' created'')), ex1)) ex"

definition exec_drop_table :: "'w os \<Rightarrow> string \<Rightarrow> 'w handler" where
  "exec_drop_table os n ex =
     on_db (\<lambda>db. do {
       (ok, db1, w) \<leftarrow> drop_table os n db (ex_world ex);
       let ex1 = ex\<lparr>ex_current_db := Some db1, ex_world := w\<rparr>;
       if \<not> ok then Some (no_table n, ex1)
       else Some (result_ok (snprintf 512 (''Table '' @ squote n @ '' dropped'')), ex1)
     }) ex"

section \<open>SELECT\<close>

definition copy_row :: "row \<Rightarrow> row option" where
  "copy_row r = for_range 0 (length r) (\<lambda>j n. do { v \<leftarrow> get_value r j; Some (add_value v n) }) []"

definition select_step :: "table \<Rightarrow> bool \<Rightarrow> int \<Rightarrow> int \<Rightarrow> where_clause option \<Rightarrow> nat \<Rightarrow> table \<Rightarrow> table option" where
  "select_step t select_all target_col where_col wh i result = do {
     m \<leftarrow> row_selected t i where_col wh;
     if \<not> m then Some result
     else do {
       r \<leftarrow> row_at t i;
       new_row \<leftarrow> (if select_all then copy_row r
                   else do { v \<leftarrow> get_value r (nat target_col); Some (add_value v []) });
       Some (insert_row new_row result)
     }
   }"

definition exec_select :: "select_stmt \<Rightarrow> 'w handler" where
  "exec_select s ex =
     on_table (sel_table_name s) (\<lambda>db i t.
       let select_all = (sel_column_name s = ''*'');
           target_col = (if select_all then - 1 else find_column t (sel_column_name s))
       in if \<not> select_all \<and> target_col < 0 then Some (no_column (sel_column_name s) (sel_table_name s), ex)
          else (case where_column t (sel_table_name s) (sel_where s) of
                  Inl err \<Rightarrow> Some (err, ex)
                | Inr where_col \<Rightarrow> do {
                    let empty = table_new result_table_name;
                    schema \<leftarrow> (if select_all then Some (fold add_column (tb_columns t) empty)
                               else do { c \<leftarrow> vec_at (tb_columns t) (nat target_col); Some (add_column c empty) });
                    result \<leftarrow> for_range 0 (length (tb_rows t))
                      (select_step t select_all target_col where_col (sel_where s)) schema;
                    Some ((result_ok ''Query OK'')\<lparr>res_table := True\<rparr>, ex\<lparr>ex_result := result\<rparr>)
                  })) ex"

section \<open>DELETE\<close>

type_synonym cursor = "table \<times> index option \<times> int"

definition unindex_row :: "table \<Rightarrow> int \<Rightarrow> nat \<Rightarrow> index option \<Rightarrow> index option option" where
  "unindex_row t pk_col i idx =
     (case idx of
        None \<Rightarrow> Some None
      | Some x \<Rightarrow>
          if pk_col \<ge> 0 then do {
            r \<leftarrow> row_at t i;
            pk_val \<leftarrow> get_value r (nat pk_col);
            if is_int pk_val then do { (_, x1) \<leftarrow> index_remove (int_value pk_val) x; Some (Some x1) }
            else Some idx
          }
          else Some idx)"

definition delete_step :: "int \<Rightarrow> where_clause option \<Rightarrow> int \<Rightarrow> nat \<Rightarrow> cursor \<Rightarrow> cursor option" where
  "delete_step where_col wh pk_col i s = (case s of (t, idx, deleted) \<Rightarrow> do {
     m \<leftarrow> row_selected t i where_col wh;
     if \<not> m then Some (t, idx, deleted)
     else do {
       idx1 \<leftarrow> unindex_row t pk_col i idx;
       t1 \<leftarrow> remove_row i t;
       Some (t1, idx1, deleted + 1)
     }
   })"

text \<open>
  The loop variable and the counters of DELETE and UPDATE are \<open>int\<close>s in the code; they are exact
  for tables of less than \<open>2 ^ 31\<close> rows, and unbounded here.
\<close>

definition exec_delete :: "delete_stmt \<Rightarrow> 'w handler" where
  "exec_delete s ex =
     on_table (del_table_name s) (\<lambda>db i t. do {
       idx \<leftarrow> index_of db (del_table_name s);
       let pk_col = primary_key_index t;
       case where_column t (del_table_name s) (del_where s) of
         Inl err \<Rightarrow> Some (err, ex)
       | Inr where_col \<Rightarrow> do {
           (t1, idx1, deleted) \<leftarrow> for_down (length (tb_rows t))
             (delete_step where_col (del_where s) pk_col) (t, idx, 0);
           Some (result_ok (snprintf 256 (show_int deleted @ '' row(s) deleted'')),
                 ex\<lparr>ex_current_db := Some (write_back i t1 idx1 db)\<rparr>)
         }
     }) ex"

section \<open>INSERT\<close>

definition build_row :: "insert_stmt \<Rightarrow> row option" where
  "build_row s = for_range 0 (length (ins_values s)) (\<lambda>i r. do {
     b \<leftarrow> vec_at (ins_is_int s) i;
     v \<leftarrow> vec_at (ins_values s) i;
     Some (add_value (literal_value b v) r)
   }) []"

text \<open>The uniqueness check: the value to index, and whether it is a duplicate.\<close>

definition check_key :: "int \<Rightarrow> index option \<Rightarrow> row \<Rightarrow> (int \<times> bool) option" where
  "check_key pk_col idx r =
     (case idx of
        None \<Rightarrow> Some (0, False)
      | Some x \<Rightarrow>
          if pk_col \<ge> 0 then do {
            pk \<leftarrow> get_value r (nat pk_col);
            if is_int pk then do {
              found \<leftarrow> index_find (int_value pk) x;
              Some (int_value pk, found \<noteq> None)
            }
            else Some (0, False)
          }
          else Some (0, False))"

definition exec_insert :: "insert_stmt \<Rightarrow> 'w handler" where
  "exec_insert s ex =
     on_table (ins_table_name s) (\<lambda>db i t.
       if length (ins_values s) \<noteq> length (tb_columns t)
       then Some (result_error (snprintf 512 (''Column count mismatch: expected ''
              @ show_nat (length (tb_columns t)) @ '', got '' @ show_nat (length (ins_values s)))), ex)
       else do {
         let pk_col = primary_key_index t;
         r \<leftarrow> build_row s;
         idx \<leftarrow> index_of db (ins_table_name s);
         (pk_val, duplicate) \<leftarrow> check_key pk_col idx r;
         if duplicate
         then Some (result_error (snprintf 256 (''Duplicate primary key: '' @ show_int pk_val)), ex)
         else do {
           let row_idx = length (tb_rows t);
           let t1 = insert_row r t;
           idx1 \<leftarrow> (case idx of
                      None \<Rightarrow> Some None
                    | Some x \<Rightarrow> if pk_col \<ge> 0 then map_option Some (index_insert pk_val (wrap32 (int row_idx)) x)
                                else Some idx);
           Some (result_ok ''1 row inserted'', ex\<lparr>ex_current_db := Some (write_back i t1 idx1 db)\<rparr>)
         }
       }) ex"

section \<open>UPDATE\<close>

definition set_cell :: "table \<Rightarrow> nat \<Rightarrow> int \<Rightarrow> svalue \<Rightarrow> table option" where
  "set_cell t i col v = do {
     r \<leftarrow> row_at t i;
     r1 \<leftarrow> vec_set r (nat col) v;
     Some (update_row i r1 t)
   }"

definition update_step :: "int \<Rightarrow> where_clause option \<Rightarrow> int \<Rightarrow> int \<Rightarrow> svalue \<Rightarrow> nat \<Rightarrow> cursor \<Rightarrow> cursor option" where
  "update_step where_col wh set_col pk_col new_val i s = (case s of (t, idx, updated) \<Rightarrow> do {
     m \<leftarrow> row_selected t i where_col wh;
     if \<not> m then Some (t, idx, updated)
     else do {
       t1 \<leftarrow> set_cell t i set_col new_val;
       idx1 \<leftarrow> (case idx of
                  None \<Rightarrow> Some None
                | Some x \<Rightarrow> if set_col = pk_col \<and> is_int new_val
                            then map_option Some (index_insert (int_value new_val) (wrap32 (int i)) x)
                            else Some idx);
       Some (t1, idx1, updated + 1)
     }
   })"

definition exec_update :: "update_stmt \<Rightarrow> 'w handler" where
  "exec_update s ex =
     on_table (upd_table_name s) (\<lambda>db i t.
       let set_col = find_column t (upd_set_column s)
       in if set_col < 0 then Some (no_column (upd_set_column s) (upd_table_name s), ex)
          else (case where_column t (upd_table_name s) (upd_where s) of
                  Inl err \<Rightarrow> Some (err, ex)
                | Inr where_col \<Rightarrow> do {
                    let new_val = literal_value (upd_set_is_int s) (upd_set_value s);
                    let pk_col = primary_key_index t;
                    idx \<leftarrow> index_of db (upd_table_name s);
                    (t1, idx1, updated) \<leftarrow> for_range 0 (length (tb_rows t))
                      (update_step where_col (upd_where s) set_col pk_col new_val) (t, idx, 0);
                    Some (result_ok (snprintf 256 (show_int updated @ '' row(s) updated'')),
                          ex\<lparr>ex_current_db := Some (write_back i t1 idx1 db)\<rparr>)
                  })) ex"

section \<open>The dispatch\<close>

fun execute :: "'w os \<Rightarrow> sql_statement \<Rightarrow> 'w handler" where
  "execute os (CREATE_DATABASE n) ex = exec_create_database os n ex"
| "execute os (DROP_DATABASE n) ex = exec_drop_database os n ex"
| "execute os (USE n) ex = exec_use os n ex"
| "execute os (CREATE_TABLE s) ex = exec_create_table s ex"
| "execute os (DROP_TABLE n) ex = exec_drop_table os n ex"
| "execute os (SELECT s) ex = exec_select s ex"
| "execute os (DELETE s) ex = exec_delete s ex"
| "execute os (INSERT s) ex = exec_insert s ex"
| "execute os (UPDATE s) ex = exec_update s ex"
| "execute os (INVALID e) ex = Some (result_error (if e = [] then ''Unknown statement'' else e), ex)"

end
