(* ===== verification/Protocol.thy ===== *)
theory Protocol
  imports Executor
begin

text \<open>
  The line protocol (src/network/protocol.hpp, protocol.cpp): responses are JSON text built by
  appending to a string, requests are read by substring search. The texts are C strings. The
  lemmas compare the builders with a printer of JSON values (the code never escapes a character,
  so the texts are JSON only where nothing needs an escape), and give exactly what the server
  reads out of a request.
\<close>

section \<open>Appending\<close>

definition append_char :: "string \<Rightarrow> char \<Rightarrow> string" where
  "append_char out c = out @ [c]"

definition append_str :: "string \<Rightarrow> string \<Rightarrow> string" where
  "append_str out s = out @ s"

definition json_append_open :: "string \<Rightarrow> string" where
  "json_append_open out = append_char out (CHR ''{'')"

definition json_append_close :: "string \<Rightarrow> string" where
  "json_append_close out = append_char out (CHR ''}'')"

definition append_comma_if_needed :: "string \<Rightarrow> string" where
  "append_comma_if_needed out =
     (if length out > 0 \<and> last out \<noteq> CHR ''{'' \<and> last out \<noteq> CHR '','' then append_char out (CHR '','') else out)"

definition append_key :: "string \<Rightarrow> string \<Rightarrow> string" where
  "append_key out key = append_str (append_char (append_comma_if_needed out) DQUOTE) key"

definition json_append_kv :: "string \<Rightarrow> string \<Rightarrow> string \<Rightarrow> string" where
  "json_append_kv out key val =
     append_char (append_str (append_str (append_key out key) [DQUOTE, CHR '':'', DQUOTE]) val) DQUOTE"

definition json_append_kv_int :: "string \<Rightarrow> string \<Rightarrow> int \<Rightarrow> string" where
  "json_append_kv_int out key val =
     append_str (append_str (append_key out key) [DQUOTE, CHR '':'']) (snprintf 32 (show_int val))"

definition json_append_kv_bool :: "string \<Rightarrow> string \<Rightarrow> bool \<Rightarrow> string" where
  "json_append_kv_bool out key val =
     append_str (append_str (append_key out key) [DQUOTE, CHR '':'']) (if val then ''true'' else ''false'')"

section \<open>Errors and statuses\<close>

definition serialize_status :: "string \<Rightarrow> string \<Rightarrow> string" where
  "serialize_status status message =
     json_append_close (json_append_kv (json_append_kv (json_append_open []) ''status'' status) ''message'' message)"

definition serialize_error :: "string \<Rightarrow> string" where
  "serialize_error message =
     json_append_close (json_append_kv (json_append_kv (json_append_open []) ''status'' ''error'') ''message'' message)"

section \<open>Statements\<close>

text \<open>\<open>s.c_str() + 1\<close>: the string must not be empty.\<close>

definition skip_first :: "string \<Rightarrow> string" where
  "skip_first s = tl s"

definition serialize_where :: "string \<Rightarrow> where_clause \<Rightarrow> string" where
  "serialize_where out wc =
     (let out = append_str out (DQUOTE # ''where'' @ DQUOTE # '':{'');
          tmp = json_append_kv [] ''column'' (wc_column wc);
          out = append_str out (skip_first tmp);
          tmp2 = json_append_kv [] ''op'' (wc_op wc);
          out = append_str out tmp2;
          tmp3 = json_append_kv [] ''value'' (wc_const_value wc);
          out = append_str out tmp3;
          tmp4 = json_append_kv_bool [] ''is_int'' (wc_is_int_literal wc);
          out = append_str out tmp4
      in append_str out ''}'')"

text \<open>\<open>has_where\<close>, and the clause when there is one.\<close>

definition append_where :: "string \<Rightarrow> where_clause option \<Rightarrow> string" where
  "append_where out wh =
     (let out = json_append_kv_bool out ''has_where'' (wh \<noteq> None)
      in case wh of None \<Rightarrow> out | Some wc \<Rightarrow> serialize_where (append_char out (CHR '','')) wc)"

definition column_step :: "column_def list \<Rightarrow> nat \<Rightarrow> string \<Rightarrow> string option" where
  "column_step cols i out = do {
     cd \<leftarrow> vec_at cols i;
     let out = (if i > 0 then append_char out (CHR '','') else out);
     let out = append_char out (CHR ''{'');
     let out = append_str out (skip_first (json_append_kv [] ''name'' (cd_name cd)));
     let out = append_str out (json_append_kv [] ''type'' (cd_type cd));
     let out = append_str out (json_append_kv_bool [] ''primary'' (cd_is_primary cd));
     Some (append_char out (CHR ''}''))
   }"

definition value_step :: "insert_stmt \<Rightarrow> nat \<Rightarrow> string \<Rightarrow> string option" where
  "value_step s i out = do {
     v \<leftarrow> vec_at (ins_values s) i;
     b \<leftarrow> vec_at (ins_is_int s) i;
     let out = (if i > 0 then append_char out (CHR '','') else out);
     let out = append_char out (CHR ''{'');
     let out = append_str out (skip_first (json_append_kv [] ''value'' v));
     let out = append_str out (json_append_kv_bool [] ''is_int'' b);
     Some (append_char out (CHR ''}''))
   }"

fun append_body :: "sql_statement \<Rightarrow> string \<Rightarrow> string option" where
  "append_body (CREATE_DATABASE n) out = Some (json_append_kv out ''name'' n)"
| "append_body (DROP_DATABASE n) out = Some (json_append_kv out ''name'' n)"
| "append_body (USE n) out = Some (json_append_kv out ''name'' n)"
| "append_body (CREATE_TABLE s) out = do {
     let out = json_append_kv out ''table'' (ct_table_name s);
     let out = json_append_kv_int out ''column_count'' (wrap32 (int (length (ct_columns s))));
     let out = append_str (append_char out (CHR '','')) (DQUOTE # ''columns'' @ DQUOTE # '':['');
     out \<leftarrow> for_range 0 (length (ct_columns s)) (column_step (ct_columns s)) out;
     Some (append_str out '']'')
   }"
| "append_body (DROP_TABLE n) out = Some (json_append_kv out ''table'' n)"
| "append_body (SELECT s) out =
     Some (append_where (json_append_kv (json_append_kv out ''column'' (sel_column_name s)) ''table'' (sel_table_name s))
             (sel_where s))"
| "append_body (DELETE s) out = Some (append_where (json_append_kv out ''table'' (del_table_name s)) (del_where s))"
| "append_body (INSERT s) out = do {
     let out = json_append_kv out ''table'' (ins_table_name s);
     let out = json_append_kv_int out ''value_count'' (wrap32 (int (length (ins_values s))));
     let out = append_str (append_char out (CHR '','')) (DQUOTE # ''values'' @ DQUOTE # '':['');
     out \<leftarrow> for_range 0 (length (ins_values s)) (value_step s) out;
     Some (append_str out '']'')
   }"
| "append_body (UPDATE s) out =
     (let out = json_append_kv out ''table'' (upd_table_name s);
          out = json_append_kv out ''set_column'' (upd_set_column s);
          out = json_append_kv out ''set_value'' (upd_set_value s);
          out = json_append_kv_bool out ''set_is_int'' (upd_set_is_int s)
      in Some (append_where out (upd_where s)))"
| "append_body (INVALID e) out = Some out"

fun serialize_response :: "sql_statement \<Rightarrow> string option" where
  "serialize_response (INVALID e) = Some (serialize_error e)"
| "serialize_response stmt = do {
     let out = json_append_kv (json_append_open []) ''status'' ''ok'';
     let out = json_append_kv out ''kind'' (stmt_kind_name stmt);
     out \<leftarrow> append_body stmt out;
     Some (json_append_close out)
   }"

section \<open>Results\<close>

definition result_column_step :: "column list \<Rightarrow> nat \<Rightarrow> string \<Rightarrow> string option" where
  "result_column_step cols i out = do {
     c \<leftarrow> vec_at cols i;
     let out = (if i > 0 then append_char out (CHR '','') else out);
     let out = append_str out (skip_first (json_append_kv [] ''name'' (col_name c)));
     Some (append_str out (json_append_kv [] ''type'' (if col_type c = CT_INT then ''int'' else ''string'')))
   }"

definition cell_step :: "row \<Rightarrow> nat \<Rightarrow> string \<Rightarrow> string option" where
  "cell_step r j out = do {
     let out = (if j > 0 then append_char out (CHR '','') else out);
     v \<leftarrow> get_value r j;
     Some (case v of
             V_INT i \<Rightarrow> append_str out (snprintf 32 (show_int i))
           | V_STRING s \<Rightarrow> append_char (append_str (append_char out DQUOTE) s) DQUOTE
           | V_NONE \<Rightarrow> append_str out ''null'')
   }"

definition result_row_step :: "table \<Rightarrow> nat \<Rightarrow> string \<Rightarrow> string option" where
  "result_row_step t i out = do {
     let out = (if i > 0 then append_char out (CHR '','') else out);
     let out = append_char out (CHR ''['');
     r \<leftarrow> row_at t i;
     out \<leftarrow> for_range 0 (length r) (cell_step r) out;
     Some (append_char out (CHR '']''))
   }"

definition append_table :: "table \<Rightarrow> string \<Rightarrow> string option" where
  "append_table t out = do {
     let out = append_char out (CHR '','');
     let out = json_append_kv_int out ''column_count'' (wrap32 (int (length (tb_columns t))));
     let out = json_append_kv_int out ''row_count'' (wrap32 (int (length (tb_rows t))));
     let out = append_str (append_char out (CHR '','')) (DQUOTE # ''columns'' @ DQUOTE # '':['');
     out \<leftarrow> for_range 0 (length (tb_columns t)) (result_column_step (tb_columns t)) out;
     let out = append_str out '']'';
     let out = append_str (append_char out (CHR '','')) (DQUOTE # ''rows'' @ DQUOTE # '':['');
     out \<leftarrow> for_range 0 (length (tb_rows t)) (result_row_step t) out;
     Some (append_str out '']'')
   }"

text \<open>\<open>t\<close> is what \<open>result_table\<close> points to when it is not null.\<close>

definition serialize_exec_result :: "exec_result \<Rightarrow> table \<Rightarrow> string option" where
  "serialize_exec_result res t =
     (if res_status res = ERROR then Some (serialize_error (res_message res))
      else do {
        let out = json_append_kv (json_append_open []) ''status'' ''ok'';
        let out = json_append_kv out ''message'' (res_message res);
        out \<leftarrow> (if res_table res \<and> length (tb_columns t) > 0 then append_table t out else Some out);
        Some (json_append_close out)
      })"

section \<open>Requests\<close>

definition json_get_string :: "string \<Rightarrow> string \<Rightarrow> string" where
  "json_get_string json key =
     (let pattern = snprintf 256 (DQUOTE # key @ [DQUOTE, CHR '':'', DQUOTE])
      in case strstr json pattern of
           None \<Rightarrow> []
         | Some pos \<Rightarrow>
             (let pos = drop (length pattern) pos
              in case strchr pos DQUOTE of
                   None \<Rightarrow> []
                 | Some end_pos \<Rightarrow> take (length pos - length end_pos) pos))"

definition parse_request_sql :: "string \<Rightarrow> string" where
  "parse_request_sql json =
     (let ty = json_get_string json ''type''
      in if ty = [] \<or> ty \<noteq> ''sql'' then [] else json_get_string json ''sql'')"

definition is_exit_request :: "string \<Rightarrow> bool" where
  "is_exit_request json \<longleftrightarrow> json_get_string json ''type'' = ''exit''"

section \<open>JSON values and their texts\<close>

datatype json = JNull | JBool bool | JInt int | JStr string | JArr "json list" | JObj "(string \<times> json) list"

fun commas :: "string list \<Rightarrow> string" where
  "commas [] = []"
| "commas [s] = s"
| "commas (s # ss) = s @ CHR '','' # commas ss"

definition quoted :: "string \<Rightarrow> string" where
  "quoted s = DQUOTE # s @ [DQUOTE]"

text \<open>The layout of a JSON value as the code writes it, with every text copied as it is.\<close>

fun bare_text :: "json \<Rightarrow> string" where
  "bare_text JNull = ''null''"
| "bare_text (JBool b) = (if b then ''true'' else ''false'')"
| "bare_text (JInt i) = show_int i"
| "bare_text (JStr s) = quoted s"
| "bare_text (JArr js) = CHR ''['' # commas (map bare_text js) @ '']''"
| "bare_text (JObj ms) = CHR ''{'' # commas (map (\<lambda>(k, j). quoted k @ CHR '':'' # bare_text j) ms) @ ''}''"

text \<open>
  JSON: in a text a quote, a backslash and a control character are escaped (RFC 8259, section 7).
  Other bytes are copied; whether bytes beyond ASCII are well-formed UTF-8 is not considered.
\<close>

definition hex_digit :: "nat \<Rightarrow> char" where
  "hex_digit n = ''0123456789abcdef'' ! n"

definition json_escape :: "char \<Rightarrow> string" where
  "json_escape c =
     (if c = DQUOTE \<or> c = CHR 0x5C then [CHR 0x5C, c]
      else if of_char c < (32::nat) then CHR 0x5C # ''u00'' @ [hex_digit (of_char c div 16), hex_digit (of_char c mod 16)]
      else [c])"

definition json_string :: "string \<Rightarrow> string" where
  "json_string s = quoted (concat (map json_escape s))"

fun json_text :: "json \<Rightarrow> string" where
  "json_text JNull = ''null''"
| "json_text (JBool b) = (if b then ''true'' else ''false'')"
| "json_text (JInt i) = show_int i"
| "json_text (JStr s) = json_string s"
| "json_text (JArr js) = CHR ''['' # commas (map json_text js) @ '']''"
| "json_text (JObj ms) = CHR ''{'' # commas (map (\<lambda>(k, j). json_string k @ CHR '':'' # json_text j) ms) @ ''}''"

text \<open>The two agree exactly where no character of a text needs an escape.\<close>

definition plain_text :: "string \<Rightarrow> bool" where
  "plain_text s \<longleftrightarrow> (\<forall>c \<in> set s. c \<noteq> DQUOTE \<and> c \<noteq> CHR 0x5C \<and> (32::nat) \<le> of_char c)"

fun json_plain :: "json \<Rightarrow> bool" where
  "json_plain (JStr s) = plain_text s"
| "json_plain (JArr js) = (\<forall>j \<in> set js. json_plain j)"
| "json_plain (JObj ms) = (\<forall>(k, j) \<in> set ms. plain_text k \<and> json_plain j)"
| "json_plain _ = True"

lemma json_string_id: "plain_text s \<Longrightarrow> json_string s = quoted s"
  by (induction s) (auto simp: json_string_def quoted_def plain_text_def json_escape_def)

lemma escaped_longer:
  assumes "\<not> plain_text s"
  shows "length s < length (concat (map json_escape s))"
proof -
  have le: "length t \<le> length (concat (map json_escape t))" for t
    by (induction t) (auto simp: json_escape_def)
  obtain c where c: "c \<in> set s" "1 < length (json_escape c)"
    using assms by (auto simp: plain_text_def json_escape_def)
  then obtain u v where s: "s = u @ c # v" by (meson split_list)
  show ?thesis using le [of u] le [of v] c(2) by (simp only: s map_append list.map concat_append concat.simps length_append list.size)
qed

lemma json_string_plain: "json_string s = quoted s \<longleftrightarrow> plain_text s"
proof
  show "plain_text s" if eq: "json_string s = quoted s"
  proof (rule ccontr)
    assume "\<not> plain_text s"
    then have "length s < length (concat (map json_escape s))" by (rule escaped_longer)
    moreover have "concat (map json_escape s) = s" using eq by (simp add: json_string_def quoted_def)
    ultimately show False by simp
  qed
qed (rule json_string_id)

lemma json_text_bare: "json_plain j \<Longrightarrow> json_text j = bare_text j"
proof (induction j rule: json_text.induct)
  case (5 js)
  then have "map json_text js = map bare_text js" by auto
  then show ?case by (simp only: json_text.simps bare_text.simps)
next
  case (6 ms)
  then have "map (\<lambda>(k, j). json_string k @ CHR '':'' # json_text j) ms = map (\<lambda>(k, j). quoted k @ CHR '':'' # bare_text j) ms"
    using json_string_id by fastforce
  then show ?case by (simp only: json_text.simps bare_text.simps)
qed (simp_all add: json_string_id)

section \<open>The builders print JSON where no text needs an escape\<close>

lemmas append_defs = append_char_def append_str_def json_append_open_def json_append_close_def
  append_comma_if_needed_def append_key_def json_append_kv_def json_append_kv_int_def
  json_append_kv_bool_def

lemma serialize_status_json:
  "serialize_status s m = bare_text (JObj [(''status'', JStr s), (''message'', JStr m)])"
  by (simp add: serialize_status_def append_defs quoted_def)

lemma serialize_error_status: "serialize_error m = serialize_status ''error'' m"
  by (simp add: serialize_error_def serialize_status_def)

lemma snprintf_int: "in_int32 i \<Longrightarrow> snprintf 32 (show_int i) = show_int i"
proof -
  assume i: "in_int32 i"
  have "length (show_nat (nat \<bar>i\<bar>)) \<le> 10"
    using i length_show_nat [of "nat \<bar>i\<bar>" 9] by (simp add: in_int32_def nat_less_iff abs_if split: if_splits)
  then have "length (show_int i) < 32" by (auto simp: show_int_def abs_if split: if_splits)
  then show ?thesis by (rule snprintf_fits)
qed

lemma commas_snoc: "commas (ss @ [s]) = (if ss = [] then s else commas ss @ CHR '','' # s)"
  by (induction ss rule: commas.induct) auto

lemma comma_loop:
  assumes "\<And>j acc. j < length xs \<Longrightarrow> f j acc = Some (acc @ (if j > 0 then '','' else []) @ g (xs ! j))"
  shows "for_range 0 (length xs) f out = Some (out @ commas (map g xs))"
proof -
  have "for_range 0 (length xs) f (out @ commas (map g (take 0 xs))) = Some (out @ commas (map g (take (length xs) xs)))"
  proof (rule for_range_eq [where g = "\<lambda>j. out @ commas (map g (take j xs))"])
    fix j assume j: "j < length xs"
    have "take j xs = [] \<longleftrightarrow> j = 0" using j by auto
    then show "f j (out @ commas (map g (take j xs))) = Some (out @ commas (map g (take (Suc j) xs)))"
      using j by (simp add: assms take_Suc_conv_app_nth commas_snoc)
  qed simp
  then show ?thesis by simp
qed

fun value_json :: "svalue \<Rightarrow> json" where
  "value_json (V_INT i) = JInt i"
| "value_json (V_STRING s) = JStr s"
| "value_json V_NONE = JNull"

definition rows_json :: "row list \<Rightarrow> json" where
  "rows_json rs = JArr (map (\<lambda>r. JArr (map value_json r)) rs)"

lemma cells_json:
  assumes "\<forall>v \<in> set r. value_in_range v"
  shows "for_range 0 (length r) (cell_step r) out = Some (out @ commas (map (\<lambda>v. bare_text (value_json v)) r))"
proof (rule comma_loop)
  fix j acc assume "j < length r"
  moreover from this have "value_in_range (r ! j)" using assms by simp
  ultimately show "cell_step r j acc = Some (acc @ (if j > 0 then '','' else []) @ bare_text (value_json (r ! j)))"
    by (cases "r ! j")
      (simp_all add: cell_step_def get_value_def append_defs quoted_def value_in_range_def snprintf_int)
qed

lemma rows_loop:
  assumes "\<forall>r \<in> set (tb_rows t). \<forall>v \<in> set r. value_in_range v"
  shows "for_range 0 (length (tb_rows t)) (result_row_step t) out
    = Some (out @ commas (map (\<lambda>r. bare_text (JArr (map value_json r))) (tb_rows t)))"
proof (rule comma_loop)
  fix j acc assume j: "j < length (tb_rows t)"
  then have "tb_rows t ! j \<in> set (tb_rows t)" by simp
  then have "\<forall>v \<in> set (tb_rows t ! j). value_in_range v" using assms by blast
  then show "result_row_step t j acc = Some (acc @ (if j > 0 then '','' else []) @ bare_text (JArr (map value_json (tb_rows t ! j))))"
    using j by (simp add: result_row_step_def row_at_def append_defs cells_json comp_def)
qed

text \<open>
  What the column loop writes for a column: the opening quote of \<open>"name"\<close> is lost and no
  comma separates the two members.
\<close>

definition column_fragment :: "column \<Rightarrow> string" where
  "column_fragment c = ''name'' @ DQUOTE # CHR '':'' # quoted (col_name c) @ quoted ''type'' @ CHR '':''
     # quoted (if col_type c = CT_INT then ''int'' else ''string'')"

lemma columns_loop:
  "for_range 0 (length cols) (result_column_step cols) out = Some (out @ commas (map column_fragment cols))"
  by (rule comma_loop) (simp add: result_column_step_def append_defs skip_first_def column_fragment_def quoted_def)

definition head_json :: "string \<Rightarrow> string" where
  "head_json msg = CHR ''{'' # quoted ''status'' @ CHR '':'' # quoted ''ok'' @ CHR '','' # quoted ''message'' @ CHR '':'' # quoted msg"

lemma serialize_result_plain:
  assumes "res_status res = OK" and "\<not> res_table res \<or> tb_columns t = []"
  shows "serialize_exec_result res t = Some (serialize_status ''ok'' (res_message res))"
  using assms by (auto simp: serialize_exec_result_def serialize_status_def Let_def)

lemma serialize_result_table:
  assumes "res_status res = OK" and "res_table res" and "tb_columns t \<noteq> []"
    and "\<forall>r \<in> set (tb_rows t). \<forall>v \<in> set r. value_in_range v"
  shows "serialize_exec_result res t = Some (head_json (res_message res)
    @ CHR '','' # quoted ''column_count'' @ CHR '':'' # show_int (wrap32 (int (length (tb_columns t))))
    @ CHR '','' # quoted ''row_count'' @ CHR '':'' # show_int (wrap32 (int (length (tb_rows t))))
    @ CHR '','' # quoted ''columns'' @ CHR '':'' # ''['' @ commas (map column_fragment (tb_columns t)) @ '']''
    @ CHR '','' # quoted ''rows'' @ CHR '':'' # bare_text (rows_json (tb_rows t)) @ ''}'')"
proof -
  have digits: "last (show_int i) \<noteq> CHR '',''" "last (show_int i) \<noteq> CHR ''{''" for i
    using show_int_chars [of "last (show_int i)" i] by (auto simp: is_digit_def)
  show ?thesis
    using assms
    by (simp add: serialize_exec_result_def append_table_def Let_def append_defs columns_loop rows_loop
        snprintf_int digits head_json_def quoted_def rows_json_def comp_def)
qed

section \<open>What a request says\<close>

definition request_prefix :: string where
  "request_prefix = CHR ''{'' # quoted ''type'' @ CHR '':'' # quoted ''sql'' @ CHR '','' # quoted ''sql'' @ CHR '':'' # [DQUOTE]"

text \<open>The text is read up to its first quote, and is nothing without a closing quote.\<close>

lemma strchr_until:
  "strchr s c = (if c \<in> set s then Some (dropWhile (\<lambda>x. x \<noteq> c) s) else None)"
  by (induction s) auto

lemma take_until: "take (length s - length (dropWhile P s)) s = takeWhile P s"
  by (induction s) (auto simp: Suc_diff_le length_dropWhile_le)

lemma json_get_type: "json_get_string (request_prefix @ s) ''type'' = ''sql''"
  by (simp add: json_get_string_def request_prefix_def quoted_def snprintf_def strchr_until)

lemma json_get_sql:
  "json_get_string (request_prefix @ s) ''sql''
   = (if DQUOTE \<in> set s then takeWhile (\<lambda>c. c \<noteq> DQUOTE) s else [])"
  by (simp add: json_get_string_def request_prefix_def quoted_def snprintf_def strchr_until take_until)

lemma parse_request_prefix:
  "parse_request_sql (request_prefix @ s) = (if DQUOTE \<in> set s then takeWhile (\<lambda>c. c \<noteq> DQUOTE) s else [])"
  by (simp add: parse_request_sql_def json_get_type json_get_sql)

lemma not_exit_prefix: "\<not> is_exit_request (request_prefix @ s)"
  by (simp add: is_exit_request_def json_get_type)

section \<open>Properties\<close>

text \<open>Status and error responses: the text built by the appending helpers has the layout of the
  object with the members status and message, in this order.\<close>

lemma status_response_layout:
  "serialize_status status message = bare_text (JObj [(''status'', JStr status), (''message'', JStr message)])
   \<and> serialize_error message = bare_text (JObj [(''status'', JStr ''error''), (''message'', JStr message)])"
  by (simp add: serialize_status_json serialize_error_status)

text \<open>C22. The response to a SELECT: the status, message and counts, then an array of columns, then the
  rows as an array of arrays with exactly the result's values. The array of columns is
  never JSON: each column is written without its opening brace and quote, and without a comma
  between its members. The message is JSON exactly when it has no quote, backslash or control
  character, for nothing is escaped; the rows are when no text in them has one.\<close>

theorem select_response_text:
  assumes "res_status res = OK" and "res_table res" and "tb_columns t \<noteq> []"
    and "\<forall>r \<in> set (tb_rows t). \<forall>v \<in> set r. value_in_range v"
    and "int (length (tb_columns t)) < 2 ^ 31" and "int (length (tb_rows t)) < 2 ^ 31"
  shows "serialize_exec_result res t = Some (
    CHR ''{'' # commas [quoted ''status'' @ CHR '':'' # json_text (JStr ''ok''),
      quoted ''message'' @ CHR '':'' # quoted (res_message res),
      quoted ''column_count'' @ CHR '':'' # json_text (JInt (int (length (tb_columns t)))),
      quoted ''row_count'' @ CHR '':'' # json_text (JInt (int (length (tb_rows t)))),
      quoted ''columns'' @ CHR '':'' # ''['' @ commas (map (\<lambda>c. ''name'' @ DQUOTE # CHR '':'' # quoted (col_name c)
          @ quoted ''type'' @ CHR '':'' # quoted (if col_type c = CT_INT then ''int'' else ''string'')) (tb_columns t)) @ '']'',
      quoted ''rows'' @ CHR '':'' # bare_text (rows_json (tb_rows t))] @ ''}'')
    \<and> (json_text (JStr (res_message res)) = quoted (res_message res) \<longleftrightarrow> plain_text (res_message res))
    \<and> ((\<forall>r \<in> set (tb_rows t). \<forall>v \<in> set r. json_plain (value_json v)) \<longrightarrow>
         json_text (rows_json (tb_rows t)) = bare_text (rows_json (tb_rows t)))"
proof -
  have "wrap32 (int (length (tb_columns t))) = int (length (tb_columns t))"
    "wrap32 (int (length (tb_rows t))) = int (length (tb_rows t))"
    using assms(5,6) by (simp_all add: in_int32_def)
  moreover have "column_fragment = (\<lambda>c. ''name'' @ DQUOTE # CHR '':'' # quoted (col_name c)
      @ quoted ''type'' @ CHR '':'' # quoted (if col_type c = CT_INT then ''int'' else ''string''))"
    by (rule ext) (simp add: column_fragment_def)
  moreover have "json_string ''ok'' = quoted ''ok''" by (simp add: json_string_id plain_text_def)
  moreover have "json_plain (rows_json (tb_rows t))" if "\<forall>r \<in> set (tb_rows t). \<forall>v \<in> set r. json_plain (value_json v)"
    using that by (simp add: rows_json_def)
  ultimately show ?thesis
    using serialize_result_table [OF assms(1-4)] json_text_bare [of "rows_json (tb_rows t)"]
    by (simp add: head_json_def json_string_plain [of "res_message res"])
qed

theorem select_response_text_witness:
  "serialize_exec_result \<lparr>res_status = OK, res_message = ''Query OK'', res_table = True\<rparr> sample_table \<noteq> None"
  using select_response_text [of "\<lparr>res_status = OK, res_message = ''Query OK'', res_table = True\<rparr>" sample_table]
  by (auto simp: sample_table_def table_new_def value_in_range_def in_int32_def)

text \<open>A text with a backslash breaks the response: the row is copied as it is, and is not JSON.\<close>

lemma unescaped_row: "bare_text (rows_json [[V_STRING [CHR 0x5C]]]) \<noteq> json_text (rows_json [[V_STRING [CHR 0x5C]]])"
  by (simp add: rows_json_def quoted_def json_string_def json_escape_def)

text \<open>C28. A parsed statement is serialized with its fields: for a SELECT without a WHERE the text is
  that of the JSON object (its names, which the dialect writes without a character that needs an
  escape, are copied as they are); with a WHERE the clause's first member loses its opening quote and
  its members are not separated, so the text is not JSON.\<close>

theorem select_statement_text:
  "serialize_response (SELECT s) = Some (
    (let head = commas [quoted ''status'' @ CHR '':'' # quoted ''ok'', quoted ''kind'' @ CHR '':'' # quoted ''SELECT'',
       quoted ''column'' @ CHR '':'' # quoted (sel_column_name s), quoted ''table'' @ CHR '':'' # quoted (sel_table_name s)]
     in case sel_where s of
          None \<Rightarrow> bare_text (JObj [(''status'', JStr ''ok''), (''kind'', JStr ''SELECT''),
            (''column'', JStr (sel_column_name s)), (''table'', JStr (sel_table_name s)), (''has_where'', JBool False)])
        | Some wc \<Rightarrow> CHR ''{'' # head @ '','' @ quoted ''has_where'' @ '':true,'' @ quoted ''where'' @ '':{column'' @ DQUOTE # CHR '':'' #
            quoted (wc_column wc) @ quoted ''op'' @ CHR '':'' # quoted (wc_op wc) @ quoted ''value'' @ CHR '':''
            # quoted (wc_const_value wc) @ quoted ''is_int'' @ CHR '':'' # (if wc_is_int_literal wc then ''true'' else ''false'') @ ''}}''))
   \<and> (plain_text (sel_column_name s) \<and> plain_text (sel_table_name s) \<longrightarrow>
        (let j = JObj [(''status'', JStr ''ok''), (''kind'', JStr ''SELECT''), (''column'', JStr (sel_column_name s)),
           (''table'', JStr (sel_table_name s)), (''has_where'', JBool False)] in bare_text j = json_text j))"
proof (intro conjI)
  show "plain_text (sel_column_name s) \<and> plain_text (sel_table_name s) \<longrightarrow>
        (let j = JObj [(''status'', JStr ''ok''), (''kind'', JStr ''SELECT''), (''column'', JStr (sel_column_name s)),
           (''table'', JStr (sel_table_name s)), (''has_where'', JBool False)] in bare_text j = json_text j)"
    unfolding Let_def by (intro impI json_text_bare [symmetric]) (simp add: plain_text_def)
qed (cases "sel_where s";
    simp add: append_defs append_where_def serialize_where_def skip_first_def quoted_def Let_def)

theorem select_statement_text_witness:
  "serialize_response (SELECT \<lparr>sel_column_name = ''a'', sel_table_name = ''t'', sel_where = None\<rparr>)
   = Some (json_text (JObj [(''status'', JStr ''ok''), (''kind'', JStr ''SELECT''), (''column'', JStr ''a''),
       (''table'', JStr ''t''), (''has_where'', JBool False)]))"
  using select_statement_text [of "\<lparr>sel_column_name = ''a'', sel_table_name = ''t'', sel_where = None\<rparr>"]
  by (simp add: plain_text_def Let_def del: json_text.simps bare_text.simps)

end
