(* ===== verification/Executor_Props.thy ===== *)
theory Executor_Props
  imports Executor
begin

text \<open>
  What the handlers do. The abstract semantics of a WHERE is the predicate \<open>selects\<close> on rows;
  the loops of the executor over positions are \<open>filter\<close> and \<open>map\<close> with it. The invariant
  \<open>exec_inv\<close> rules out every undefined access, and every handler keeps it.
\<close>

section \<open>WHERE as a predicate\<close>

definition op_holds :: "string \<Rightarrow> svalue \<Rightarrow> svalue \<Rightarrow> bool" where
  "op_holds op a b \<longleftrightarrow> op = ''='' \<and> a = b \<or> op = ''<'' \<and> a < b \<or> op = ''>'' \<and> b < a"

text \<open>The row is selected by a WHERE on the column at position \<open>c\<close>.\<close>

fun selects :: "int \<Rightarrow> where_clause option \<Rightarrow> row \<Rightarrow> bool" where
  "selects c None r = True"
| "selects c (Some wc) r = (c \<ge> 0 \<and> nat c < length r \<and> op_holds (wc_op wc) (r ! nat c) (parse_where_value wc))"

lemma matches_where_selects: "matches_where r c wc = Some (selects c (Some wc) r)"
  by (auto simp: matches_where_def get_value_def op_holds_def row_simps Let_def)

lemma row_selected_in [simp]:
  "i < length (tb_rows t) \<Longrightarrow> row_selected t i c wh = Some (selects c wh (tb_rows t ! i))"
  by (cases wh) (auto simp: row_selected_def row_at_def matches_where_selects)

section \<open>The loops\<close>

lemma for_range_append:
  assumes "\<And>j r. j < length xs \<Longrightarrow> f j r = Some (r @ [g (xs ! j)])"
  shows "for_range 0 (length xs) f acc = Some (acc @ map g xs)"
proof -
  have "for_range 0 (length xs) f (acc @ map g (take 0 xs)) = Some (acc @ map g (take (length xs) xs))"
    by (rule for_range_eq [where g = "\<lambda>j. acc @ map g (take j xs)"])
      (simp_all add: assms take_Suc_conv_app_nth)
  then show ?thesis by simp
qed

lemma copy_row_id [simp]: "copy_row r = Some r"
  using for_range_append [of r _ "\<lambda>v. v" "[]"] by (simp add: copy_row_def get_value_def add_value_def)

lemma build_row_values:
  assumes "length (ins_values s) = length (ins_is_int s)"
  shows "build_row s = Some (map2 literal_value (ins_is_int s) (ins_values s))"
proof -
  let ?z = "zip (ins_is_int s) (ins_values s)"
  have "for_range 0 (length ?z) (\<lambda>i r. do { b \<leftarrow> vec_at (ins_is_int s) i; v \<leftarrow> vec_at (ins_values s) i;
      Some (add_value (literal_value b v) r) }) [] = Some ([] @ map (\<lambda>(b, v). literal_value b v) ?z)"
    by (rule for_range_append) (simp add: assms add_value_def)
  then show ?thesis by (simp add: build_row_def assms)
qed

text \<open>SELECT's loop filters and projects.\<close>

definition project :: "bool \<Rightarrow> int \<Rightarrow> row \<Rightarrow> row" where
  "project select_all target_col r = (if select_all then r else [r ! nat target_col])"

lemma select_loop:
  assumes "select_all \<or> (\<forall>r \<in> set (tb_rows t). nat target_col < length r)"
  shows "for_range 0 (length (tb_rows t)) (select_step t select_all target_col where_col wh) res
    = Some (res\<lparr>tb_rows := tb_rows res
        @ map (project select_all target_col) (filter (selects where_col wh) (tb_rows t))\<rparr>)"
proof -
  let ?g = "\<lambda>j. res\<lparr>tb_rows := tb_rows res
    @ map (project select_all target_col) (filter (selects where_col wh) (take j (tb_rows t)))\<rparr>"
  have "for_range 0 (length (tb_rows t)) (select_step t select_all target_col where_col wh) (?g 0)
      = Some (?g (length (tb_rows t)))"
  proof (rule for_range_eq)
    fix j assume j: "j < length (tb_rows t)"
    then have "select_all \<or> nat target_col < length (tb_rows t ! j)" using assms by auto
    then show "select_step t select_all target_col where_col wh j (?g j) = Some (?g (Suc j))"
      using j by (auto simp: select_step_def row_at_def get_value_def add_value_def project_def
          insert_row_def take_Suc_conv_app_nth)
  qed simp
  then show ?thesis by simp
qed

text \<open>
  DELETE's loop runs backwards, so a removal moves only rows it has looked at. It leaves the
  rows that are not selected; the index loses the integer keys of the others.
\<close>

definition key_of :: "int \<Rightarrow> row \<Rightarrow> int option" where
  "key_of pk_col r = (if pk_col \<ge> 0 \<and> is_int (r ! nat pk_col) then Some (int_value (r ! nat pk_col)) else None)"

definition keys_of :: "int \<Rightarrow> row list \<Rightarrow> int set" where
  "keys_of pk_col rs = {k. \<exists>r \<in> set rs. key_of pk_col r = Some k}"

lemma keys_of_simps [simp]:
  "keys_of c [] = {}" "keys_of c (rs @ ss) = keys_of c rs \<union> keys_of c ss"
  "keys_of c (r # rs) = set_option (key_of c r) \<union> keys_of c rs"
  by (auto simp: keys_of_def)

lemma unindex_row_ok:
  assumes "index_inv x" and "i < length (tb_rows t)"
    and "pk_col \<ge> 0 \<longrightarrow> nat pk_col < length (tb_rows t ! i)"
  shows "\<exists>y. unindex_row t pk_col i (Some x) = Some (Some y) \<and> index_inv y
    \<and> index_map y = index_map x |` (- set_option (key_of pk_col (tb_rows t ! i)))"
proof (cases "key_of pk_col (tb_rows t ! i)")
  case None
  then show ?thesis
    using assms by (auto simp: unindex_row_def row_at_def get_value_def key_of_def split: if_splits)
next
  case (Some k)
  then have pk: "pk_col \<ge> 0" "is_int (tb_rows t ! i ! nat pk_col)" "int_value (tb_rows t ! i ! nat pk_col) = k"
    by (auto simp: key_of_def split: if_splits)
  from pk.remove_ok [OF assms(1), of k] obtain y
    where "index_remove k x = Some (k \<in> dom (index_map x), y)" "index_inv y"
      "index_map y = (index_map x)(k := None)" by blast
  with pk assms Some show ?thesis
    by (auto simp: unindex_row_def row_at_def get_value_def restrict_map_def fun_eq_iff)
qed

lemma delete_step_skip:
  assumes "j < length (tb_rows t)" and "\<not> selects where_col wh (tb_rows t ! j)"
  shows "delete_step where_col wh pk_col j (t, x, n) = Some (t, x, n)"
  using assms by (simp add: delete_step_def)

lemma delete_step_hit:
  assumes "j < length (tb_rows t)" and "selects where_col wh (tb_rows t ! j)"
    and "unindex_row t pk_col j x = Some y"
  shows "delete_step where_col wh pk_col j (t, x, n)
    = Some (t\<lparr>tb_rows := remove_nth j (tb_rows t)\<rparr>, y, n + 1)"
  using assms by (simp add: delete_step_def row_simps)

text \<open>What DELETE's loop has made of the table and its index when the positions from \<open>j\<close> on are done.\<close>

definition deleted_from :: "table \<Rightarrow> index \<Rightarrow> (row \<Rightarrow> bool) \<Rightarrow> int \<Rightarrow> nat \<Rightarrow> table \<times> index option \<times> int \<Rightarrow> bool" where
  "deleted_from t x sel pk_col j s \<longleftrightarrow>
     (\<exists>y. s = (t\<lparr>tb_rows := take j (tb_rows t) @ filter (\<lambda>r. \<not> sel r) (drop j (tb_rows t))\<rparr>, Some y,
             int (length (filter sel (drop j (tb_rows t)))))
        \<and> index_inv y \<and> index_map y = index_map x |` (- keys_of pk_col (filter sel (drop j (tb_rows t)))))"

lemma delete_step_left:
  assumes s: "deleted_from t x (selects where_col wh) pk_col (Suc j) s" and j: "j < length (tb_rows t)"
    and pk: "\<forall>r \<in> set (tb_rows t). pk_col \<ge> 0 \<longrightarrow> nat pk_col < length r"
  shows "\<exists>u. delete_step where_col wh pk_col j s = Some u \<and> deleted_from t x (selects where_col wh) pk_col j u"
proof -
  let ?rs = "tb_rows t" and ?sel = "selects where_col wh"
  let ?left = "\<lambda>j. t\<lparr>tb_rows := take j ?rs @ filter (\<lambda>r. \<not> ?sel r) (drop j ?rs)\<rparr>"
  from s obtain y where y: "s = (?left (Suc j), Some y, int (length (filter ?sel (drop (Suc j) ?rs))))"
      "index_inv y" "index_map y = index_map x |` (- keys_of pk_col (filter ?sel (drop (Suc j) ?rs)))"
    by (auto simp: deleted_from_def)
  have tk: "take (Suc j) ?rs = take j ?rs @ [?rs ! j]" using j by (simp add: take_Suc_conv_app_nth)
  have dr: "drop j ?rs = ?rs ! j # drop (Suc j) ?rs" using j by (simp add: Cons_nth_drop_Suc)
  have row: "tb_rows (?left (Suc j)) ! j = ?rs ! j" "j < length (tb_rows (?left (Suc j)))"
    using j by (simp_all add: tk nth_append)
  show ?thesis
  proof (cases "?sel (?rs ! j)")
    case False
    then show ?thesis
      using delete_step_skip [OF row(2), of where_col wh] row(1) y by (simp add: deleted_from_def tk dr)
  next
    case True
    have "pk_col \<ge> 0 \<longrightarrow> nat pk_col < length (tb_rows (?left (Suc j)) ! j)" using pk j row(1) by simp
    from unindex_row_ok [OF y(2) row(2) this] obtain z
      where z: "unindex_row (?left (Suc j)) pk_col j (Some y) = Some (Some z)" "index_inv z"
        "index_map z = index_map y |` (- set_option (key_of pk_col (?rs ! j)))"
      unfolding row(1) by blast
    have "remove_nth j (take (Suc j) ?rs @ filter (\<lambda>r. \<not> ?sel r) (drop (Suc j) ?rs))
        = take j ?rs @ filter (\<lambda>r. \<not> ?sel r) (drop (Suc j) ?rs)"
      using j by (simp add: remove_nth_def)
    then show ?thesis
      using delete_step_hit [OF row(2) _ z(1)] True row(1) z(2,3) y(1,3)
      by (simp add: deleted_from_def dr Int_commute)
  qed
qed

lemma delete_loop:
  fixes where_col :: int and wh :: "where_clause option"
  assumes x: "index_inv x" and pk: "\<forall>r \<in> set (tb_rows t). pk_col \<ge> 0 \<longrightarrow> nat pk_col < length r"
  defines "sel \<equiv> selects where_col wh"
  shows "\<exists>y. for_down (length (tb_rows t)) (delete_step where_col wh pk_col) (t, Some x, 0)
      = Some (t\<lparr>tb_rows := filter (\<lambda>r. \<not> sel r) (tb_rows t)\<rparr>, Some y, int (length (filter sel (tb_rows t))))
    \<and> index_inv y \<and> index_map y = index_map x |` (- keys_of pk_col (filter sel (tb_rows t)))"
proof -
  have "\<exists>s. for_down (length (tb_rows t)) (delete_step where_col wh pk_col) (t, Some x, 0) = Some s
      \<and> deleted_from t x sel pk_col 0 s"
    by (rule for_down_rule [where P = "deleted_from t x sel pk_col"])
      (use x delete_step_left [OF _ _ pk] in \<open>simp_all add: sel_def deleted_from_def restrict_map_def\<close>)
  then show ?thesis by (auto simp: deleted_from_def)
qed

text \<open>UPDATE's loop maps; a write to the key column adds the new key, and leaves the old one.\<close>

definition set_if :: "(row \<Rightarrow> bool) \<Rightarrow> int \<Rightarrow> svalue \<Rightarrow> row \<Rightarrow> row" where
  "set_if sel col v r = (if sel r then r[nat col := v] else r)"

definition new_keys :: "bool \<Rightarrow> svalue \<Rightarrow> row list \<Rightarrow> int set" where
  "new_keys on_key v rs = (if on_key \<and> is_int v \<and> rs \<noteq> [] then {int_value v} else {})"

lemma update_step_skip:
  assumes "j < length (tb_rows t)" and "\<not> selects where_col wh (tb_rows t ! j)"
  shows "update_step where_col wh set_col pk_col v j (t, x, n) = Some (t, x, n)"
  using assms by (simp add: update_step_def)

lemma update_step_hit:
  assumes "j < length (tb_rows t)" and "selects where_col wh (tb_rows t ! j)"
    and "nat set_col < length (tb_rows t ! j)" and "index_inv x"
  shows "\<exists>y. update_step where_col wh set_col pk_col v j (t, Some x, n)
      = Some (update_row j ((tb_rows t ! j)[nat set_col := v]) t, Some y, n + 1)
    \<and> index_inv y \<and> dom (index_map y) = dom (index_map x) \<union> new_keys (set_col = pk_col) v [tb_rows t ! j]
    \<and> (set_col \<noteq> pk_col \<longrightarrow> y = x)"
proof (cases "set_col = pk_col \<and> is_int v")
  case False
  then show ?thesis using assms by (auto simp: update_step_def set_cell_def row_at_def new_keys_def)
next
  case True
  from pk.insert_keys [OF assms(4), of "int_value v" "wrap32 (int j)"] True assms
  show ?thesis by (auto simp: update_step_def set_cell_def row_at_def new_keys_def)
qed

text \<open>The same of UPDATE's loop when the positions before \<open>j\<close> are done.\<close>

definition updated_upto :: "table \<Rightarrow> index \<Rightarrow> (row \<Rightarrow> bool) \<Rightarrow> int \<Rightarrow> int \<Rightarrow> svalue \<Rightarrow> nat \<Rightarrow> table \<times> index option \<times> int \<Rightarrow> bool" where
  "updated_upto t x sel set_col pk_col v j s \<longleftrightarrow>
     (\<exists>y. s = (t\<lparr>tb_rows := map (set_if sel set_col v) (take j (tb_rows t)) @ drop j (tb_rows t)\<rparr>, Some y,
             int (length (filter sel (take j (tb_rows t)))))
        \<and> index_inv y \<and> (set_col \<noteq> pk_col \<longrightarrow> y = x)
        \<and> dom (index_map y) = dom (index_map x) \<union> new_keys (set_col = pk_col) v (filter sel (take j (tb_rows t))))"

lemma update_step_right:
  assumes s: "updated_upto t x (selects where_col wh) set_col pk_col v j s" and j: "j < length (tb_rows t)"
    and col: "\<forall>r \<in> set (tb_rows t). nat set_col < length r"
  shows "\<exists>u. update_step where_col wh set_col pk_col v j s = Some u
    \<and> updated_upto t x (selects where_col wh) set_col pk_col v (Suc j) u"
proof -
  let ?rs = "tb_rows t" and ?sel = "selects where_col wh"
  let ?now = "\<lambda>j. t\<lparr>tb_rows := map (set_if ?sel set_col v) (take j ?rs) @ drop j ?rs\<rparr>"
  from s obtain y where y: "s = (?now j, Some y, int (length (filter ?sel (take j ?rs))))" "index_inv y"
      "dom (index_map y) = dom (index_map x) \<union> new_keys (set_col = pk_col) v (filter ?sel (take j ?rs))"
      "set_col \<noteq> pk_col \<longrightarrow> y = x"
    by (auto simp: updated_upto_def)
  have tk: "take (Suc j) ?rs = take j ?rs @ [?rs ! j]" using j by (simp add: take_Suc_conv_app_nth)
  have dr: "drop j ?rs = ?rs ! j # drop (Suc j) ?rs" using j by (simp add: Cons_nth_drop_Suc)
  have row: "tb_rows (?now j) ! j = ?rs ! j" "j < length (tb_rows (?now j))"
    using j by (simp_all add: nth_append)
  show ?thesis
  proof (cases "?sel (?rs ! j)")
    case False
    then show ?thesis
      using update_step_skip [OF row(2), of where_col wh] row(1) y
      by (simp add: updated_upto_def tk dr set_if_def)
  next
    case True
    have len: "nat set_col < length (tb_rows (?now j) ! j)" using col j row(1) by simp
    from update_step_hit [OF row(2) _ len y(2), of where_col wh pk_col v "int (length (filter ?sel (take j ?rs)))"]
    obtain z where z: "update_step where_col wh set_col pk_col v j s
        = Some (update_row j ((?rs ! j)[nat set_col := v]) (?now j), Some z, int (length (filter ?sel (take j ?rs))) + 1)"
      "index_inv z" "dom (index_map z) = dom (index_map y) \<union> new_keys (set_col = pk_col) v [?rs ! j]"
      "set_col \<noteq> pk_col \<longrightarrow> z = y"
      using True row(1) unfolding y(1) by force
    have "update_row j ((?rs ! j)[nat set_col := v]) (?now j) = ?now (Suc j)"
      using True j by (simp add: update_row_def tk dr list_update_append set_if_def)
    moreover have "dom (index_map z) = dom (index_map x) \<union> new_keys (set_col = pk_col) v (filter ?sel (take (Suc j) ?rs))"
      using True y(3) z(3) by (auto simp: tk new_keys_def split: if_splits)
    ultimately show ?thesis using True z y(4) by (auto simp: updated_upto_def tk)
  qed
qed

lemma update_loop:
  fixes where_col :: int and wh :: "where_clause option"
  assumes x: "index_inv x" and col: "\<forall>r \<in> set (tb_rows t). nat set_col < length r"
  defines "sel \<equiv> selects where_col wh"
  shows "\<exists>y. for_range 0 (length (tb_rows t)) (update_step where_col wh set_col pk_col v) (t, Some x, 0)
      = Some (t\<lparr>tb_rows := map (set_if sel set_col v) (tb_rows t)\<rparr>, Some y, int (length (filter sel (tb_rows t))))
    \<and> index_inv y
    \<and> dom (index_map y) = dom (index_map x) \<union> new_keys (set_col = pk_col) v (filter sel (tb_rows t))
    \<and> (set_col \<noteq> pk_col \<longrightarrow> y = x)"
proof -
  have "\<exists>s. for_range 0 (length (tb_rows t)) (update_step where_col wh set_col pk_col v) (t, Some x, 0) = Some s
      \<and> updated_upto t x sel set_col pk_col v (length (tb_rows t)) s"
    by (rule for_range_rule [where P = "updated_upto t x sel set_col pk_col v"])
      (use x update_step_right [OF _ _ col] in \<open>simp_all add: sel_def updated_upto_def new_keys_def\<close>)
  then show ?thesis by (auto simp: updated_upto_def)
qed

end
