(* ===== verification/Relational_Spec.thy ===== *)
theory Relational_Spec
  imports Executor_Props
begin

text \<open>
  The abstract specification of the engine, without vectors, positions, loops or an index: a
  database is a finite map from table names to relations (a schema, the list of rows, the set
  of keys in use), a statement is a function of that map and of the selected database's name,
  and a session is a run of statements. The lemmas show which values and columns such a run can
  ever bring into a relation.
\<close>

section \<open>The abstract state\<close>

record relation =
  rel_columns :: "column list"
  rel_rows :: "row list"
  rel_keys :: "int set"

type_synonym rel_db = "string \<Rightarrow> relation option"

text \<open>The selected database, by name, and the answer of the last SELECT.\<close>

record session =
  ss_name :: string
  ss_db :: "rel_db option"
  ss_answer :: "column list \<times> row list"

section \<open>The abstract statements\<close>

text \<open>The first position whose element has the property.\<close>

definition first_pos :: "('a \<Rightarrow> bool) \<Rightarrow> 'a list \<Rightarrow> nat option" where
  "first_pos P xs = (let i = length (takeWhile (\<lambda>x. \<not> P x) xs) in if i < length xs then Some i else None)"

definition column_pos :: "column list \<Rightarrow> string \<Rightarrow> nat option" where
  "column_pos cols n = first_pos (\<lambda>c. col_name c = n) cols"

definition key_pos :: "column list \<Rightarrow> nat option" where
  "key_pos cols = first_pos col_is_primary cols"

definition satisfies :: "column list \<Rightarrow> where_clause option \<Rightarrow> row \<Rightarrow> bool" where
  "satisfies cols wh r =
     (case wh of
        None \<Rightarrow> True
      | Some wc \<Rightarrow>
          (case column_pos cols (wc_column wc) of
             None \<Rightarrow> False
           | Some c \<Rightarrow> op_holds (wc_op wc) (r ! c) (parse_where_value wc)))"

definition int_keys :: "column list \<Rightarrow> row list \<Rightarrow> int set" where
  "int_keys cols rs =
     (case key_pos cols of None \<Rightarrow> {} | Some c \<Rightarrow> {k. \<exists>r \<in> set rs. r ! c = V_INT k})"

text \<open>The column a statement names and the relation does not have.\<close>

definition unknown_column :: "relation \<Rightarrow> string option \<Rightarrow> where_clause option \<Rightarrow> string option" where
  "unknown_column R target wh =
     (case target of
        Some n \<Rightarrow> if column_pos (rel_columns R) n = None then Some n
                  else (case wh of
                          Some wc \<Rightarrow> if column_pos (rel_columns R) (wc_column wc) = None then Some (wc_column wc) else None
                        | None \<Rightarrow> None)
      | None \<Rightarrow> (case wh of
                   Some wc \<Rightarrow> if column_pos (rel_columns R) (wc_column wc) = None then Some (wc_column wc) else None
                 | None \<Rightarrow> None))"

definition sp_select :: "select_stmt \<Rightarrow> relation \<Rightarrow> exec_result \<times> (column list \<times> row list) option" where
  "sp_select s R =
     (let star = (sel_column_name s = ''*'');
          found = filter (satisfies (rel_columns R) (sel_where s)) (rel_rows R)
      in case unknown_column R (if star then None else Some (sel_column_name s)) (sel_where s) of
           Some c \<Rightarrow> (no_column c (sel_table_name s), None)
         | None \<Rightarrow>
             ((result_ok ''Query OK'')\<lparr>res_table := True\<rparr>,
              Some (if star then (rel_columns R, found)
                    else (let c = the (column_pos (rel_columns R) (sel_column_name s))
                          in ([rel_columns R ! c], map (\<lambda>r. [r ! c]) found)))))"

definition sp_delete :: "delete_stmt \<Rightarrow> relation \<Rightarrow> exec_result \<times> relation" where
  "sp_delete s R =
     (let hit = satisfies (rel_columns R) (del_where s);
          gone = filter hit (rel_rows R)
      in case unknown_column R None (del_where s) of
           Some c \<Rightarrow> (no_column c (del_table_name s), R)
         | None \<Rightarrow> (result_ok (snprintf 256 (show_int (int (length gone)) @ '' row(s) deleted'')),
                    R\<lparr>rel_rows := filter (\<lambda>r. \<not> hit r) (rel_rows R),
                      rel_keys := rel_keys R - int_keys (rel_columns R) gone\<rparr>))"

text \<open>INSERT appends; with a primary key it records the key, which is 0 for a text.\<close>

definition sp_insert :: "insert_stmt \<Rightarrow> relation \<Rightarrow> exec_result \<times> relation" where
  "sp_insert s R =
     (let r = map2 literal_value (ins_is_int s) (ins_values s);
          R1 = R\<lparr>rel_rows := rel_rows R @ [r]\<rparr>;
          done = result_ok ''1 row inserted''
      in if length (ins_values s) \<noteq> length (rel_columns R)
         then (result_error (snprintf 512 (''Column count mismatch: expected ''
              @ show_nat (length (rel_columns R)) @ '', got '' @ show_nat (length (ins_values s)))), R)
         else (case key_pos (rel_columns R) of
                 None \<Rightarrow> (done, R1)
               | Some c \<Rightarrow>
                   if is_int (r ! c) \<and> int_value (r ! c) \<in> rel_keys R
                   then (result_error (snprintf 256 (''Duplicate primary key: '' @ show_int (int_value (r ! c)))), R)
                   else (done, R1\<lparr>rel_keys := insert (int_value (r ! c)) (rel_keys R)\<rparr>)))"

definition sp_update :: "update_stmt \<Rightarrow> relation \<Rightarrow> exec_result \<times> relation" where
  "sp_update s R =
     (let hit = satisfies (rel_columns R) (upd_where s);
          v = literal_value (upd_set_is_int s) (upd_set_value s);
          c = the (column_pos (rel_columns R) (upd_set_column s));
          changed = filter hit (rel_rows R)
      in case unknown_column R (Some (upd_set_column s)) (upd_where s) of
           Some n \<Rightarrow> (no_column n (upd_table_name s), R)
         | None \<Rightarrow> (result_ok (snprintf 256 (show_int (int (length changed)) @ '' row(s) updated'')),
                    R\<lparr>rel_rows := map (\<lambda>r. if hit r then r[c := v] else r) (rel_rows R),
                      rel_keys := rel_keys R \<union> new_keys (key_pos (rel_columns R) = Some c) v changed\<rparr>))"

text \<open>A statement on a table of the selected database.\<close>

definition on_relation :: "string \<Rightarrow> (relation \<Rightarrow> exec_result \<times> relation) \<Rightarrow> rel_db \<Rightarrow> exec_result \<times> rel_db" where
  "on_relation n f D =
     (case D n of None \<Rightarrow> (no_table n, D) | Some R \<Rightarrow> (let (res, R1) = f R in (res, D(n \<mapsto> R1))))"

definition in_session :: "(rel_db \<Rightarrow> exec_result \<times> rel_db) \<Rightarrow> session \<Rightarrow> exec_result \<times> session" where
  "in_session f S =
     (case ss_db S of
        None \<Rightarrow> (result_error (''No database selected. Use '' @ squote ''use <dbname>'' @ '' first.''), S)
      | Some D \<Rightarrow> (let (res, D1) = f D in (res, S\<lparr>ss_db := Some D1\<rparr>)))"

definition sp_create_table :: "create_table_stmt \<Rightarrow> rel_db \<Rightarrow> exec_result \<times> rel_db" where
  "sp_create_table s D =
     (let n = ct_table_name s
      in if D n \<noteq> None
         then (result_error (snprintf 512 (''Table '' @ squote n @ '' already exists'')), D)
         else (result_ok (snprintf 512 (''Table '' @ squote n @ '' created'')),
               D(n \<mapsto> \<lparr>rel_columns = map convert_column (ct_columns s), rel_rows = [], rel_keys = {}\<rparr>)))"

definition sp_drop_table :: "string \<Rightarrow> rel_db \<Rightarrow> exec_result \<times> rel_db" where
  "sp_drop_table n D =
     (if D n = None then (no_table n, D)
      else (result_ok (snprintf 512 (''Table '' @ squote n @ '' dropped'')), D(n := None)))"

definition sp_query :: "select_stmt \<Rightarrow> session \<Rightarrow> exec_result \<times> session" where
  "sp_query s S =
     (case ss_db S of
        None \<Rightarrow> in_session (Pair (no_table [])) S
      | Some D \<Rightarrow>
          (case D (sel_table_name s) of
             None \<Rightarrow> (no_table (sel_table_name s), S)
           | Some R \<Rightarrow>
               (case sp_select s R of
                  (res, None) \<Rightarrow> (res, S)
                | (res, Some a) \<Rightarrow> (res, S\<lparr>ss_answer := a\<rparr>))))"

text \<open>
  The statements on databases answer by what the operating system said (\<open>os_ok\<close>). USE starts
  from an empty database.
\<close>

fun sp_execute :: "bool \<Rightarrow> sql_statement \<Rightarrow> session \<Rightarrow> exec_result \<times> session" where
  "sp_execute os_ok (CREATE_DATABASE n) S =
     (if os_ok then result_ok (snprintf 512 (''Database '' @ squote n @ '' created''))
      else result_error (snprintf 512 (''Failed to create database '' @ squote n)), S)"
| "sp_execute os_ok (DROP_DATABASE n) S =
     (if os_ok then result_ok (snprintf 512 (''Database '' @ squote n @ '' dropped''))
      else result_error (snprintf 512 (''Failed to drop database '' @ squote n)),
      if ss_name S = n then S\<lparr>ss_name := [], ss_db := None\<rparr> else S)"
| "sp_execute os_ok (USE n) S =
     (result_ok (snprintf 512 (''Using database '' @ squote n)), S\<lparr>ss_name := n, ss_db := Some Map.empty\<rparr>)"
| "sp_execute os_ok (CREATE_TABLE s) S = in_session (sp_create_table s) S"
| "sp_execute os_ok (DROP_TABLE n) S = in_session (sp_drop_table n) S"
| "sp_execute os_ok (SELECT s) S = sp_query s S"
| "sp_execute os_ok (DELETE s) S = in_session (on_relation (del_table_name s) (sp_delete s)) S"
| "sp_execute os_ok (INSERT s) S = in_session (on_relation (ins_table_name s) (sp_insert s)) S"
| "sp_execute os_ok (UPDATE s) S = in_session (on_relation (upd_table_name s) (sp_update s)) S"
| "sp_execute os_ok (INVALID e) S = (result_error (if e = [] then ''Unknown statement'' else e), S)"

text \<open>A run, with what the operating system said to each statement.\<close>

fun sp_run :: "bool list \<Rightarrow> sql_statement list \<Rightarrow> session \<Rightarrow> exec_result list \<times> session" where
  "sp_run (ok # oks) (st # sts) S =
     (let (r, S1) = sp_execute ok st S; (rs, S2) = sp_run oks sts S1 in (r # rs, S2))"
| "sp_run _ _ S = ([], S)"

section \<open>Positions\<close>

lemma first_pos_Nil [simp]: "first_pos P [] = None"
  by (simp add: first_pos_def)

lemma first_pos_Cons [simp]:
  "first_pos P (x # xs) = (if P x then Some 0 else map_option Suc (first_pos P xs))"
  by (simp add: first_pos_def Let_def)

lemma first_pos_Some: "first_pos P xs = Some i \<Longrightarrow> i < length xs \<and> P (xs ! i)"
  by (induction xs arbitrary: i) (auto split: if_splits)

lemma column_pos_less: "column_pos cs n = Some i \<Longrightarrow> i < length cs"
  and key_pos_less: "key_pos cs = Some i \<Longrightarrow> i < length cs"
  by (simp_all add: column_pos_def key_pos_def first_pos_Some)

text \<open>The column a statement names besides its WHERE.\<close>

lemma unknown_target:
  "unknown_column R (Some n) wh =
     (if column_pos (rel_columns R) n = None then Some n else unknown_column R None wh)"
  by (simp add: unknown_column_def split: option.split)

section \<open>What can be in a relation\<close>

text \<open>
  Rows of the schema's width whose values satisfy \<open>P\<close>, under columns that satisfy \<open>C\<close>. A run keeps
  this for any \<open>C\<close> and \<open>P\<close> that the columns and literals of its statements satisfy.
\<close>

definition rows_typed :: "(column \<Rightarrow> bool) \<Rightarrow> (svalue \<Rightarrow> bool) \<Rightarrow> column list \<Rightarrow> row list \<Rightarrow> bool" where
  "rows_typed C P cols rs \<longleftrightarrow> (\<forall>c \<in> set cols. C c)
     \<and> (\<forall>r \<in> set rs. length r = length cols \<and> (\<forall>v \<in> set r. P v))"

definition relation_typed :: "(column \<Rightarrow> bool) \<Rightarrow> (svalue \<Rightarrow> bool) \<Rightarrow> relation \<Rightarrow> bool" where
  "relation_typed C P R \<longleftrightarrow> rows_typed C P (rel_columns R) (rel_rows R)"

definition db_typed :: "(column \<Rightarrow> bool) \<Rightarrow> (svalue \<Rightarrow> bool) \<Rightarrow> rel_db \<Rightarrow> bool" where
  "db_typed C P D \<longleftrightarrow> (\<forall>n R. D n = Some R \<longrightarrow> relation_typed C P R)"

definition session_typed :: "(column \<Rightarrow> bool) \<Rightarrow> (svalue \<Rightarrow> bool) \<Rightarrow> session \<Rightarrow> bool" where
  "session_typed C P S \<longleftrightarrow> pred_option (db_typed C P) (ss_db S) \<and> rows_typed C P (fst (ss_answer S)) (snd (ss_answer S))"

fun stmt_columns :: "sql_statement \<Rightarrow> column list" where
  "stmt_columns (CREATE_TABLE s) = map convert_column (ct_columns s)"
| "stmt_columns _ = []"

definition stmt_typed :: "(column \<Rightarrow> bool) \<Rightarrow> (svalue \<Rightarrow> bool) \<Rightarrow> sql_statement \<Rightarrow> bool" where
  "stmt_typed C P st \<longleftrightarrow> stmt_wf st \<and> (\<forall>c \<in> set (stmt_columns st). C c)
     \<and> (\<forall>(v, b) \<in> set (stmt_literals st). P (literal_value b v))"

lemma db_typed_upd: "db_typed C P D \<Longrightarrow> relation_typed C P R \<Longrightarrow> db_typed C P (D(n \<mapsto> R))"
  and db_typed_drop: "db_typed C P D \<Longrightarrow> db_typed C P (D(n := None))"
  by (auto simp: db_typed_def)

lemma sp_delete_typed: "relation_typed C P R \<Longrightarrow> relation_typed C P (snd (sp_delete s R))"
  by (auto simp: sp_delete_def relation_typed_def rows_typed_def Let_def split: option.split)

lemma sp_update_typed:
  "relation_typed C P R \<Longrightarrow> P (literal_value (upd_set_is_int s) (upd_set_value s)) \<Longrightarrow>
   relation_typed C P (snd (sp_update s R))"
  by (auto simp: sp_update_def relation_typed_def rows_typed_def Let_def split: option.split
      dest!: set_update_subset_insert [THEN subsetD])

lemma literals_zip: "set (map2 literal_value bs vs) = (\<lambda>(v, b). literal_value b v) ` set (zip vs bs)"
  by (force simp: set_zip)

lemma sp_insert_typed:
  assumes "relation_typed C P R" and "stmt_typed C P (INSERT s)"
  shows "relation_typed C P (snd (sp_insert s R))"
proof -
  have "\<forall>v \<in> set (map2 literal_value (ins_is_int s) (ins_values s)). P v"
    using assms(2) unfolding literals_zip by (auto simp: stmt_typed_def)
  then show ?thesis
    using assms by (auto simp: sp_insert_def relation_typed_def rows_typed_def stmt_typed_def Let_def split: option.split)
qed

lemma sp_select_typed:
  assumes "relation_typed C P R" and "sp_select s R = (res, Some (cols, rs))"
  shows "rows_typed C P cols rs"
proof (cases "sel_column_name s = ''*''")
  case True
  then show ?thesis using assms
    by (auto simp: sp_select_def relation_typed_def rows_typed_def Let_def split: option.splits)
next
  case False
  then obtain k where k: "column_pos (rel_columns R) (sel_column_name s) = Some k"
    using assms(2) by (auto simp: sp_select_def unknown_target Let_def split: option.splits if_splits)
  then show ?thesis
    using False assms column_pos_less [OF k]
    by (auto simp: sp_select_def relation_typed_def rows_typed_def Let_def split: option.splits)
qed

lemma in_session_typed:
  assumes "session_typed C P S" and "\<And>D. db_typed C P D \<Longrightarrow> db_typed C P (snd (f D))"
  shows "session_typed C P (snd (in_session f S))"
  using assms by (cases "ss_db S") (auto simp: in_session_def session_typed_def case_prod_unfold Let_def)

lemma on_relation_typed:
  assumes "db_typed C P D" and "\<And>R. relation_typed C P R \<Longrightarrow> relation_typed C P (snd (f R))"
  shows "db_typed C P (snd (on_relation n f D))"
proof (cases "D n")
  case (Some R)
  then have "relation_typed C P (snd (f R))" using assms by (simp add: db_typed_def)
  then show ?thesis using Some assms(1) by (simp add: on_relation_def case_prod_unfold db_typed_upd Let_def)
qed (use assms(1) in \<open>simp add: on_relation_def\<close>)

lemma sp_create_table_typed:
  "db_typed C P D \<Longrightarrow> \<forall>c \<in> set (ct_columns s). C (convert_column c) \<Longrightarrow> db_typed C P (snd (sp_create_table s D))"
  by (auto simp: sp_create_table_def Let_def relation_typed_def rows_typed_def intro!: db_typed_upd)

lemma sp_query_typed:
  assumes "session_typed C P S"
  shows "session_typed C P (snd (sp_query s S))"
proof (cases "ss_db S")
  case None
  then show ?thesis using assms by (simp add: sp_query_def in_session_def)
next
  case (Some D)
  show ?thesis
  proof (cases "D (sel_table_name s)")
    case None
    then show ?thesis using assms Some by (simp add: sp_query_def)
  next
    case (Some R)
    have R: "relation_typed C P R" using assms Some \<open>ss_db S = Some D\<close> by (auto simp: session_typed_def db_typed_def)
    obtain res a where a: "sp_select s R = (res, a)" by fastforce
    show ?thesis
      using sp_select_typed [OF R, of s res] a assms Some \<open>ss_db S = Some D\<close>
      by (cases a) (auto simp: sp_query_def session_typed_def)
  qed
qed

lemma sp_execute_typed:
  assumes "session_typed C P S" and "stmt_typed C P st"
  shows "session_typed C P (snd (sp_execute ok st S))"
proof (cases st)
  case (CREATE_TABLE s)
  then have "\<forall>c \<in> set (ct_columns s). C (convert_column c)" using assms(2) by (simp add: stmt_typed_def)
  then show ?thesis using assms(1) CREATE_TABLE in_session_typed sp_create_table_typed by simp
next
  case (DROP_TABLE n)
  have "db_typed C P (snd (sp_drop_table n D))" if "db_typed C P D" for D
    using that db_typed_drop by (simp add: sp_drop_table_def)
  then show ?thesis using assms(1) DROP_TABLE in_session_typed by simp
next
  case (SELECT s)
  then show ?thesis using assms(1) by (simp add: sp_query_typed)
next
  case (DELETE s)
  then show ?thesis using assms(1) by (simp add: in_session_typed on_relation_typed sp_delete_typed)
next
  case (INSERT s)
  then show ?thesis using assms by (simp add: in_session_typed on_relation_typed sp_insert_typed)
next
  case (UPDATE s)
  then have "P (literal_value (upd_set_is_int s) (upd_set_value s))" using assms(2) by (simp add: stmt_typed_def)
  then show ?thesis using assms(1) UPDATE by (simp add: in_session_typed on_relation_typed sp_update_typed)
qed (use assms(1) in \<open>auto simp: session_typed_def db_typed_def\<close>)

lemma session_typed_mono:
  assumes "session_typed C P S" and mono: "\<And>c. C c \<Longrightarrow> C' c" "\<And>v. P v \<Longrightarrow> P' v"
  shows "session_typed C' P' S"
proof -
  have rows: "rows_typed C P cols rs \<Longrightarrow> rows_typed C' P' cols rs" for cols rs
    using mono by (auto simp: rows_typed_def)
  then have "db_typed C P D \<Longrightarrow> db_typed C' P' D" for D by (auto simp: db_typed_def relation_typed_def)
  then show ?thesis using assms(1) rows by (cases "ss_db S") (auto simp: session_typed_def)
qed

text \<open>Every literal is a 32-bit integer or a text; there is no NONE.\<close>

definition cell_ok :: "svalue \<Rightarrow> bool" where
  "cell_ok v \<longleftrightarrow> v \<noteq> V_NONE \<and> value_in_range v"

definition session_sane :: "session \<Rightarrow> bool" where
  "session_sane = session_typed (\<lambda>_. True) cell_ok"

lemma literal_cell_ok [simp]: "cell_ok (literal_value b s)"
  by (simp add: cell_ok_def literal_value_def value_in_range_def)

lemma stmt_typed_sane: "stmt_wf st \<Longrightarrow> stmt_typed (\<lambda>_. True) cell_ok st"
  by (auto simp: stmt_typed_def)

end
