(* ===== verification/Relational.thy ===== *)
theory Relational
  imports Relational_Spec
begin

text \<open>
  The engine refines its specification: \<open>execute\<close> on vectors, positions, loops and a sorted
  index computes exactly the function \<open>sp_execute\<close> of the abstract session
  (\<open>execute_refines\<close>), asks of the file system exactly what \<open>os_effect\<close> says, and is never
  undefined.
\<close>

section \<open>The abstraction\<close>

definition abs_table :: "table \<Rightarrow> index \<Rightarrow> relation" where
  "abs_table t x = \<lparr>rel_columns = tb_columns t, rel_rows = tb_rows t, rel_keys = dom (index_map x)\<rparr>"

definition abs_db :: "database \<Rightarrow> rel_db" where
  "abs_db db n =
     (case get_table db n of
        None \<Rightarrow> None
      | Some i \<Rightarrow> Some (abs_table (db_tables db ! i) (db_indexes db ! i)))"

definition abs_session :: "'w executor \<Rightarrow> session" where
  "abs_session ex = \<lparr>ss_name = ex_current_db_name ex, ss_db = map_option abs_db (ex_current_db ex),
     ss_answer = (tb_columns (ex_result ex), tb_rows (ex_result ex))\<rparr>"

text \<open>Every table's file is the one \<open>drop_table\<close> would remove.\<close>

definition paths_ok :: "database \<Rightarrow> bool" where
  "paths_ok db \<longleftrightarrow> (\<forall>t \<in> set (db_tables db). tb_data_path t = db_data_dir db @ ''/'' @ tb_name t @ ''.dat'')"

definition exec_inv :: "'w executor \<Rightarrow> bool" where
  "exec_inv ex \<longleftrightarrow> (ex_current_db ex = None \<longleftrightarrow> ex_current_db_name ex = [])
     \<and> (\<forall>db. ex_current_db ex = Some db \<longrightarrow> db_inv db \<and> paths_ok db
          \<and> db_data_dir db = make_db_path (ex_data_root ex) (ex_current_db_name ex))"

lemma abs_table_simps [simp]:
  "rel_columns (abs_table t x) = tb_columns t" "rel_rows (abs_table t x) = tb_rows t"
  "rel_keys (abs_table t x) = dom (index_map x)"
  by (simp_all add: abs_table_def)

lemma abs_session_simps [simp]:
  "ss_name (abs_session ex) = ex_current_db_name ex"
  "ss_db (abs_session ex) = map_option abs_db (ex_current_db ex)"
  "ss_answer (abs_session ex) = (tb_columns (ex_result ex), tb_rows (ex_result ex))"
  by (simp_all add: abs_session_def)

lemma exec_inv_new: "exec_inv (executor_new os root w)"
  by (simp add: exec_inv_def executor_new_def)

section \<open>Positions\<close>

definition as_int :: "nat option \<Rightarrow> int" where
  "as_int p = (case p of None \<Rightarrow> - 1 | Some i \<Rightarrow> int i)"

lemma as_int_simps [simp]:
  "as_int None = - 1" "as_int (Some i) = int i" "as_int p < 0 \<longleftrightarrow> p = None" "0 \<le> as_int p \<longleftrightarrow> p \<noteq> None"
  "as_int p = as_int q \<longleftrightarrow> p = q" "nat (as_int p) = (case p of None \<Rightarrow> 0 | Some i \<Rightarrow> i)"
  by (auto simp: as_int_def split: option.splits)

lemma find_column_from_pos:
  "find_column_from i cs n = (case column_pos cs n of None \<Rightarrow> - 1 | Some j \<Rightarrow> int (i + j))"
  by (induction cs arbitrary: i) (auto simp: column_pos_def split: option.split)

lemma primary_key_from_pos:
  "primary_key_from i cs = (case key_pos cs of None \<Rightarrow> - 1 | Some j \<Rightarrow> int (i + j))"
  by (induction cs arbitrary: i) (auto simp: key_pos_def split: option.split)

lemma find_column_pos: "find_column t n = as_int (column_pos (tb_columns t) n)"
  by (simp add: find_column_def find_column_from_pos as_int_def split: option.split)

lemma primary_key_pos: "primary_key_index t = as_int (key_pos (tb_columns t))"
  by (simp add: primary_key_index_def primary_key_from_pos as_int_def split: option.split)

lemma table_inv_row: "table_inv t \<Longrightarrow> r \<in> set (tb_rows t) \<Longrightarrow> length r = length (tb_columns t)"
  by (simp add: table_inv_def)

section \<open>The loops in abstract terms\<close>

text \<open>The WHERE of the code is \<open>satisfies\<close> on the rows of a well-formed table.\<close>

lemma where_column_spec:
  "where_column t n wh =
     (case unknown_column (abs_table t x) None wh of
        Some c \<Rightarrow> Inl (no_column c n)
      | None \<Rightarrow> Inr (case wh of None \<Rightarrow> - 1 | Some wc \<Rightarrow> as_int (column_pos (tb_columns t) (wc_column wc))))"
  by (auto simp: where_column_def unknown_column_def find_column_pos Let_def split: option.splits)

lemma selects_satisfies:
  assumes "where_column t n wh = Inr c" and "table_inv t" and "r \<in> set (tb_rows t)"
  shows "selects c wh r = satisfies (tb_columns t) wh r"
proof (cases wh)
  case (Some wc)
  with assms(1) obtain j where j: "column_pos (tb_columns t) (wc_column wc) = Some j" "c = int j"
    by (auto simp: where_column_def find_column_pos Let_def split: if_splits)
  have "j < length r" using column_pos_less [OF j(1)] table_inv_row [OF assms(2,3)] by simp
  with Some j show ?thesis by (simp add: satisfies_def)
qed (simp add: satisfies_def)

lemma filter_selects:
  assumes "where_column t n wh = Inr c" and "table_inv t"
  shows "filter (selects c wh) (tb_rows t) = filter (satisfies (tb_columns t) wh) (tb_rows t)"
    and "filter (\<lambda>r. \<not> selects c wh r) (tb_rows t) = filter (\<lambda>r. \<not> satisfies (tb_columns t) wh r) (tb_rows t)"
    and "map (set_if (selects c wh) k v) (tb_rows t)
       = map (\<lambda>r. if satisfies (tb_columns t) wh r then r[nat k := v] else r) (tb_rows t)"
  using selects_satisfies [OF assms] by (auto simp: set_if_def intro!: filter_cong)

lemma keys_of_int_keys:
  "keys_of (primary_key_index t) rs = int_keys (tb_columns t) rs"
proof (cases "key_pos (tb_columns t)")
  case (Some c)
  have "key_of (primary_key_index t) r = Some k \<longleftrightarrow> r ! c = V_INT k" for r k
    using Some by (cases "r ! c") (auto simp: key_of_def primary_key_pos)
  then show ?thesis using Some by (simp add: keys_of_def int_keys_def)
qed (simp add: keys_of_def key_of_def int_keys_def primary_key_pos)

section \<open>Tables of a database in abstract terms\<close>

lemma abs_db_None: "abs_db db n = None \<longleftrightarrow> get_table db n = None"
  by (simp add: abs_db_def split: option.split)

lemma abs_db_Some: "get_table db n = Some i \<Longrightarrow> abs_db db n = Some (abs_table (db_tables db ! i) (db_indexes db ! i))"
  by (simp add: abs_db_def)

lemma write_back_simps [row_simps]:
  "db_tables (write_back i t (Some x) db) = (db_tables db)[i := t]"
  "db_indexes (write_back i t (Some x) db) = (db_indexes db)[i := x]"
  "get_table (write_back i t (Some x) db) n = get_table db n"
  "db_data_dir (write_back i t (Some x) db) = db_data_dir db"
  by (simp_all add: write_back_def row_simps)

lemma abs_db_write_back:
  assumes "db_inv db" and "get_table db n = Some i"
  shows "abs_db (write_back i t (Some x) db) = (abs_db db)(n \<mapsto> abs_table t x)"
proof
  fix m
  show "abs_db (write_back i t (Some x) db) m = ((abs_db db)(n \<mapsto> abs_table t x)) m"
  proof (cases "m = n")
    case True
    then show ?thesis using assms get_table_inv(1,2) [OF assms] by (simp add: abs_db_def row_simps)
  next
    case False
    have "get_table db m \<noteq> Some i"
      using False get_table_Some [OF assms(2)] get_table_Some [of db m i] by auto
    with False show ?thesis by (auto simp: abs_db_def row_simps split: option.split)
  qed
qed

lemma write_back_inv:
  assumes "db_inv db" and "get_table db n = Some i"
    and "table_inv t" and "tb_name t = n" and "index_inv x"
  shows "db_inv (write_back i t (Some x) db)"
  using db_inv_put [OF assms] by (simp add: write_back_def)

lemma write_back_paths:
  assumes "paths_ok db" and "i < length (db_tables db)"
    and "tb_name t = tb_name (db_tables db ! i)" and "tb_data_path t = tb_data_path (db_tables db ! i)"
  shows "paths_ok (write_back i t (Some x) db)"
  using assms by (auto simp: paths_ok_def row_simps dest!: set_update_subset_insert [THEN subsetD])

lemma index_of_found:
  assumes "db_inv db" and "get_table db n = Some i"
  shows "index_of db n = Some (Some (db_indexes db ! i))"
  using assms get_table_inv(2) [OF assms] by (simp add: index_of_def get_index_get_table)

section \<open>The handlers refine the specification\<close>

definition refines :: "'w executor \<Rightarrow> (exec_result \<times> 'w executor) option \<Rightarrow> exec_result \<times> session \<Rightarrow> bool" where
  "refines ex m spec \<longleftrightarrow> (\<exists>res ex'. m = Some (res, ex') \<and> exec_inv ex' \<and> spec = (res, abs_session ex')
     \<and> ex_data_root ex' = ex_data_root ex)"

lemma on_db_cases:
  "exec_inv ex \<Longrightarrow> on_db f ex =
     (case ex_current_db ex of
        None \<Rightarrow> Some (result_error (''No database selected. Use '' @ squote ''use <dbname>'' @ '' first.''), ex)
      | Some db \<Rightarrow> f db)"
  by (cases "ex_current_db ex") (auto simp: on_db_def require_db_def exec_inv_def)

lemma exec_inv_db: "exec_inv ex \<Longrightarrow> ex_current_db ex = Some db \<Longrightarrow>
    db_inv db \<and> paths_ok db \<and> db_data_dir db = make_db_path (ex_data_root ex) (ex_current_db_name ex)"
  by (simp add: exec_inv_def)

lemma on_table_cases:
  assumes "exec_inv ex"
  shows "on_table n f ex =
     (case ex_current_db ex of
        None \<Rightarrow> Some (result_error (''No database selected. Use '' @ squote ''use <dbname>'' @ '' first.''), ex)
      | Some db \<Rightarrow> (case get_table db n of None \<Rightarrow> Some (no_table n, ex) | Some i \<Rightarrow> f db i (db_tables db ! i)))"
proof (cases "ex_current_db ex")
  case (Some db)
  then have "get_table db n = Some i \<Longrightarrow> i < length (db_tables db)" for i
    using exec_inv_db [OF assms] get_table_inv(1) by blast
  with Some show ?thesis by (auto simp: on_table_def on_db_cases [OF assms] split: option.split)
qed (simp add: on_table_def on_db_cases [OF assms])

lemma write_back_same: "db_inv db \<Longrightarrow> get_table db n = Some i \<Longrightarrow>
    write_back i (db_tables db ! i) (Some (db_indexes db ! i)) db = db"
  by (simp add: write_back_def put_table_def put_index_def)

text \<open>What a handler that works on one table has to do to refine a function of its relation.\<close>

definition table_refines ::
  "'w executor \<Rightarrow> database \<Rightarrow> nat \<Rightarrow> (exec_result \<times> 'w executor) option \<Rightarrow> (relation \<Rightarrow> exec_result \<times> relation) \<Rightarrow> bool" where
  "table_refines ex db i m g \<longleftrightarrow>
     (\<exists>res t x. m = Some (res, ex\<lparr>ex_current_db := Some (write_back i t (Some x) db)\<rparr>)
        \<and> table_inv t \<and> index_inv x \<and> tb_name t = tb_name (db_tables db ! i)
        \<and> tb_data_path t = tb_data_path (db_tables db ! i)
        \<and> g (abs_table (db_tables db ! i) (db_indexes db ! i)) = (res, abs_table t x))"

lemma table_refines_refused:
  assumes "db_inv db" and "get_table db n = Some i" and "ex_current_db ex = Some db"
    and "m = Some (res, ex)"
    and "g (abs_table (db_tables db ! i) (db_indexes db ! i)) = (res, abs_table (db_tables db ! i) (db_indexes db ! i))"
  shows "table_refines ex db i m g"
  using assms get_table_inv [OF assms(1,2)] write_back_same [OF assms(1,2)]
  unfolding table_refines_def
  by (intro exI [of _ res] exI [of _ "db_tables db ! i"] exI [of _ "db_indexes db ! i"]) simp

lemma on_table_refines:
  assumes inv: "exec_inv ex"
    and step: "\<And>db i. ex_current_db ex = Some db \<Longrightarrow> db_inv db \<Longrightarrow> get_table db n = Some i \<Longrightarrow>
       table_refines ex db i (f db i (db_tables db ! i)) g"
  shows "refines ex (on_table n f ex) (in_session (on_relation n g) (abs_session ex))"
proof (cases "ex_current_db ex")
  case None
  then show ?thesis using inv by (simp add: refines_def on_table_cases in_session_def)
next
  case (Some db)
  note db = exec_inv_db [OF inv Some]
  have same: "abs_session ex = (abs_session ex)\<lparr>ss_db := Some (abs_db db)\<rparr>"
    using Some by (simp add: abs_session_def)
  show ?thesis
  proof (cases "get_table db n")
    case None
    then have "abs_db db n = None" by (simp add: abs_db_None)
    then show ?thesis using inv Some None same
      by (simp add: refines_def on_table_cases in_session_def on_relation_def)
  next
    case (Some i)
    note i = get_table_inv [OF conjunct1 [OF db] Some]
    obtain res t x where m: "f db i (db_tables db ! i) = Some (res, ex\<lparr>ex_current_db := Some (write_back i t (Some x) db)\<rparr>)"
      and ok: "table_inv t" "index_inv x" "tb_name t = tb_name (db_tables db ! i)"
        "tb_data_path t = tb_data_path (db_tables db ! i)"
      and g: "g (abs_table (db_tables db ! i) (db_indexes db ! i)) = (res, abs_table t x)"
      using step [OF \<open>ex_current_db ex = Some db\<close> conjunct1 [OF db] Some] unfolding table_refines_def by blast
    let ?ex = "ex\<lparr>ex_current_db := Some (write_back i t (Some x) db)\<rparr>"
    have "exec_inv ?ex"
      using inv db write_back_inv [OF conjunct1 [OF db] Some ok(1) _ ok(2)] write_back_paths [of db i t x] i ok
        \<open>ex_current_db ex = Some db\<close>
      by (simp add: exec_inv_def row_simps)
    moreover have "in_session (on_relation n g) (abs_session ex) = (res, abs_session ?ex)"
      using \<open>ex_current_db ex = Some db\<close> Some abs_db_write_back [OF conjunct1 [OF db] Some, of t x] g
      by (simp add: in_session_def on_relation_def abs_db_Some abs_session_def)
    ultimately show ?thesis
      using m inv \<open>ex_current_db ex = Some db\<close> Some by (simp add: refines_def on_table_cases)
  qed
qed

lemma exec_delete_refines:
  assumes "exec_inv ex"
  shows "refines ex (exec_delete s ex) (in_session (on_relation (del_table_name s) (sp_delete s)) (abs_session ex))"
  unfolding exec_delete_def
proof (rule on_table_refines [OF assms], goal_cases)
  case db: (1 db i)
  let ?t = "db_tables db ! i" and ?x = "db_indexes db ! i"
  let ?hit = "satisfies (tb_columns ?t) (del_where s)"
  note i = get_table_inv [OF db(2,3)]
  have pk: "\<forall>r \<in> set (tb_rows ?t). primary_key_index ?t \<ge> 0 \<longrightarrow> nat (primary_key_index ?t) < length r"
    using primary_key_range [of ?t] i(4) by (simp add: table_inv_def)
  show ?case
  proof (cases "where_column ?t (del_table_name s) (del_where s)")
    case (Inl err)
    then show ?thesis
      using index_of_found [OF db(2,3)] where_column_spec [of ?t "del_table_name s" "del_where s" ?x]
      by (intro table_refines_refused [OF db(2,3,1)])
        (auto simp: sp_delete_def Let_def split: option.splits)
  next
    case (Inr c)
    note f = filter_selects [OF Inr i(4)]
    from delete_loop [OF i(5) pk, of c "del_where s"] obtain y where
      loop: "for_down (length (tb_rows ?t)) (delete_step c (del_where s) (primary_key_index ?t)) (?t, Some ?x, 0)
        = Some (?t\<lparr>tb_rows := filter (\<lambda>r. \<not> ?hit r) (tb_rows ?t)\<rparr>, Some y, int (length (filter ?hit (tb_rows ?t))))"
      and y: "index_inv y"
        "index_map y = index_map ?x |` (- int_keys (tb_columns ?t) (filter ?hit (tb_rows ?t)))"
      unfolding f keys_of_int_keys by blast
    have none: "unknown_column (abs_table ?t ?x) None (del_where s) = None"
      using Inr where_column_spec [of ?t "del_table_name s" "del_where s" ?x] by (auto split: option.splits)
    have "table_inv (?t\<lparr>tb_rows := filter (\<lambda>r. \<not> ?hit r) (tb_rows ?t)\<rparr>)"
      using i(4) by (auto simp: table_inv_def)
    then show ?thesis
      using index_of_found [OF db(2,3)] Inr loop y none
      unfolding table_refines_def
      by (intro exI [of _ "?t\<lparr>tb_rows := filter (\<lambda>r. \<not> ?hit r) (tb_rows ?t)\<rparr>"] exI [of _ y] exI)
        (auto simp: sp_delete_def Let_def abs_table_def)
  qed
qed

lemma table_refines_done:
  assumes "m = Some (res, ex\<lparr>ex_current_db := Some (write_back i t (Some x) db)\<rparr>)"
    and "table_inv t" and "index_inv x" and "tb_name t = tb_name (db_tables db ! i)"
    and "tb_data_path t = tb_data_path (db_tables db ! i)"
    and "g (abs_table (db_tables db ! i) (db_indexes db ! i)) = (res, abs_table t x)"
  shows "table_refines ex db i m g"
  using assms unfolding table_refines_def by blast

lemma check_key_found:
  assumes "key_pos (tb_columns t) = Some c" and "index_inv x" and "c < length r"
  shows "check_key (primary_key_index t) (Some x) r
    = Some (int_value (r ! c), is_int (r ! c) \<and> int_value (r ! c) \<in> dom (index_map x))"
  using assms pk.find_ok [OF assms(2)]
  by (cases "r ! c") (auto simp: check_key_def primary_key_pos get_value_def)

lemma exec_insert_refines:
  assumes "exec_inv ex" and len: "length (ins_values s) = length (ins_is_int s)"
  shows "refines ex (exec_insert s ex) (in_session (on_relation (ins_table_name s) (sp_insert s)) (abs_session ex))"
  unfolding exec_insert_def
proof (rule on_table_refines [OF assms(1)], goal_cases)
  case db: (1 db i)
  let ?t = "db_tables db ! i" and ?x = "db_indexes db ! i"
  let ?r = "map2 literal_value (ins_is_int s) (ins_values s)"
  note i = get_table_inv [OF db(2,3)]
  note idx = index_of_found [OF db(2,3)]
  show ?case
  proof (cases "length (ins_values s) = length (tb_columns ?t)")
    case False
    then show ?thesis by (intro table_refines_refused [OF db(2,3,1)]) (auto simp: sp_insert_def Let_def)
  next
    case True
    have t1: "table_inv (insert_row ?r ?t)" using i(4) True len by (intro table_inv_insert) simp_all
    show ?thesis
    proof (cases "key_pos (tb_columns ?t)")
      case None
      then show ?thesis
        using True idx i(5) t1 build_row_values [OF len]
        by (intro table_refines_done [where t = "insert_row ?r ?t" and x = ?x])
          (simp_all add: primary_key_pos check_key_def sp_insert_def row_simps abs_table_def Let_def)
    next
      case (Some c)
      let ?v = "?r ! c"
      have "c < length ?r" using key_pos_less [OF Some] True len by simp
      note check = check_key_found [OF Some i(5) this]
      show ?thesis
      proof (cases "is_int ?v \<and> int_value ?v \<in> dom (index_map ?x)")
        case dup: True
        then show ?thesis
          using True Some idx check build_row_values [OF len]
          by (intro table_refines_refused [OF db(2,3,1)]) (auto simp: sp_insert_def Let_def)
      next
        case fresh: False
        from pk.insert_keys [OF i(5), of "int_value ?v" "wrap32 (int (length (tb_rows ?t)))"]
        obtain y where y: "index_insert (int_value ?v) (wrap32 (int (length (tb_rows ?t)))) ?x = Some y" "index_inv y"
          "dom (index_map y) = insert (int_value ?v) (dom (index_map ?x))" by blast
        show ?thesis
          using True Some idx check build_row_values [OF len] fresh y t1
          by (intro table_refines_done [where t = "insert_row ?r ?t" and x = y])
            (auto simp: primary_key_pos sp_insert_def row_simps abs_table_def Let_def)
      qed
    qed
  qed
qed

lemma exec_update_refines:
  assumes "exec_inv ex"
  shows "refines ex (exec_update s ex) (in_session (on_relation (upd_table_name s) (sp_update s)) (abs_session ex))"
  unfolding exec_update_def
proof (rule on_table_refines [OF assms], goal_cases)
  case db: (1 db i)
  let ?t = "db_tables db ! i" and ?x = "db_indexes db ! i"
  let ?hit = "satisfies (tb_columns ?t) (upd_where s)"
  let ?v = "literal_value (upd_set_is_int s) (upd_set_value s)"
  note i = get_table_inv [OF db(2,3)]
  note wspec = where_column_spec [of ?t "upd_table_name s" "upd_where s" ?x]
  show ?case
  proof (cases "column_pos (tb_columns ?t) (upd_set_column s)")
    case None
    then show ?thesis
      by (intro table_refines_refused [OF db(2,3,1)])
        (auto simp: sp_update_def Let_def find_column_pos unknown_target)
  next
    case col: (Some k)
    show ?thesis
    proof (cases "where_column ?t (upd_table_name s) (upd_where s)")
      case (Inl err)
      then show ?thesis
        using col wspec
        by (intro table_refines_refused [OF db(2,3,1)])
          (auto simp: sp_update_def Let_def find_column_pos unknown_target split: option.splits)
    next
      case (Inr c)
      note f = filter_selects [OF Inr i(4)]
      have len: "\<forall>r \<in> set (tb_rows ?t). nat (int k) < length r"
        using column_pos_less [OF col] i(4) by (simp add: table_inv_def)
      let ?t1 = "?t\<lparr>tb_rows := map (\<lambda>r. if ?hit r then r[k := ?v] else r) (tb_rows ?t)\<rparr>"
      from update_loop [OF i(5) len, of c "upd_where s" "primary_key_index ?t" ?v] obtain y where
        loop: "for_range 0 (length (tb_rows ?t)) (update_step c (upd_where s) (int k) (primary_key_index ?t) ?v)
            (?t, Some ?x, 0) = Some (?t1, Some y, int (length (filter ?hit (tb_rows ?t))))"
        and y: "index_inv y" "dom (index_map y) = dom (index_map ?x)
            \<union> new_keys (int k = primary_key_index ?t) ?v (filter ?hit (tb_rows ?t))"
        unfolding f nat_int by blast
      have pk: "int k = primary_key_index ?t \<longleftrightarrow> key_pos (tb_columns ?t) = Some k"
        by (auto simp: primary_key_pos as_int_def split: option.split)
      have none: "unknown_column (abs_table ?t ?x) (Some (upd_set_column s)) (upd_where s) = None"
        using Inr wspec col by (auto simp: unknown_target split: option.splits)
      have "table_inv ?t1" using i(4) by (auto simp: table_inv_def)
      then show ?thesis
        using index_of_found [OF db(2,3)] col Inr loop y none pk
        by (intro table_refines_done [where t = ?t1 and x = y])
          (auto simp: sp_update_def Let_def find_column_pos abs_table_def)
    qed
  qed
qed

lemma exec_select_found:
  assumes "table_inv t" and "where_column t (sel_table_name s) (sel_where s) = Inr c"
    and "star = (sel_column_name s = ''*'')"
    and "target = (if star then - 1 else find_column t (sel_column_name s))" and "star \<or> 0 \<le> target"
  shows "for_range 0 (length (tb_rows t)) (select_step t star target c (sel_where s)) res
    = Some (res\<lparr>tb_rows := tb_rows res
        @ map (project star target) (filter (satisfies (tb_columns t) (sel_where s)) (tb_rows t))\<rparr>)"
proof -
  have "star \<or> (\<forall>r \<in> set (tb_rows t). nat target < length r)"
    using assms find_column_range [of t "sel_column_name s"] by (auto simp: table_inv_def)
  from select_loop [OF this] show ?thesis by (simp add: filter_selects [OF assms(2,1)])
qed

lemma project_simps [simp]: "project True c = (\<lambda>r. r)" "project False c = (\<lambda>r. [r ! nat c])"
  by (simp_all add: project_def fun_eq_iff)

lemma answer_simps [simp]:
  "exec_inv (ex\<lparr>ex_result := q\<rparr>) = exec_inv ex"
  "abs_session (ex\<lparr>ex_result := q\<rparr>) = (abs_session ex)\<lparr>ss_answer := (tb_columns q, tb_rows q)\<rparr>"
  by (simp_all add: exec_inv_def abs_session_def)

lemma exec_select_refines:
  assumes inv: "exec_inv ex"
  shows "refines ex (exec_select s ex) (sp_query s (abs_session ex))"
proof (cases "ex_current_db ex")
  case None
  then show ?thesis using inv by (simp add: exec_select_def refines_def on_table_cases sp_query_def in_session_def)
next
  case (Some db)
  note db = exec_inv_db [OF inv Some]
  show ?thesis
  proof (cases "get_table db (sel_table_name s)")
    case None
    then show ?thesis using inv Some abs_db_None [of db "sel_table_name s"]
      by (simp add: exec_select_def refines_def on_table_cases sp_query_def)
  next
    case tab: (Some i)
    let ?t = "db_tables db ! i" and ?x = "db_indexes db ! i"
    let ?star = "sel_column_name s = ''*''"
    let ?target = "if ?star then - 1 else find_column ?t (sel_column_name s)"
    note i = get_table_inv [OF conjunct1 [OF db] tab]
    note wspec = where_column_spec [of ?t "sel_table_name s" "sel_where s" ?x]
    have abs: "abs_db db (sel_table_name s) = Some (abs_table ?t ?x)" using tab by (rule abs_db_Some)
    show ?thesis
    proof (cases "unknown_column (abs_table ?t ?x) (if ?star then None else Some (sel_column_name s)) (sel_where s)")
      case unknown: (Some n)
      then show ?thesis using inv Some tab abs wspec
        by (auto simp: exec_select_def refines_def on_table_cases sp_query_def sp_select_def Let_def
            find_column_pos unknown_target split: if_splits option.splits)
    next
      case known: None
      then obtain c where c: "where_column ?t (sel_table_name s) (sel_where s) = Inr c"
        using wspec by (auto simp: unknown_target split: if_splits option.splits)
      have target: "?star \<or> 0 \<le> ?target"
        using known by (auto simp: find_column_pos unknown_target split: if_splits)
      note loop = exec_select_found [OF i(4) c refl refl target]
      show ?thesis
      proof (cases ?star)
        case True
        then show ?thesis using inv Some tab abs known c loop
          by (simp add: exec_select_def refines_def on_table_cases sp_query_def sp_select_def Let_def
              fold_add_column table_new_def)
      next
        case False
        then obtain k where k: "column_pos (tb_columns ?t) (sel_column_name s) = Some k"
          using target by (auto simp: find_column_pos)
        have len: "k < length (tb_columns ?t)" by (rule column_pos_less [OF k])
        show ?thesis using inv Some tab abs known c loop False k len
          by (simp add: exec_select_def refines_def on_table_cases sp_query_def sp_select_def Let_def
              add_column_def table_new_def find_column_pos)
      qed
    qed
  qed
qed

lemma abs_db_create_table:
  assumes "get_table db n = None" and "length (db_tables db) = length (db_table_names db)"
    and "length (db_indexes db) = length (db_table_names db)"
  shows "abs_db (snd (create_table n cs db)) = (abs_db db)(n \<mapsto> \<lparr>rel_columns = cs, rel_rows = [], rel_keys = {}\<rparr>)"
proof
  fix m
  have snoc: "name_pos i (ms @ [n]) m = (case name_pos i ms m of None \<Rightarrow> if n = m then Some (i + length ms) else None | Some j \<Rightarrow> Some j)" for i ms
    by (induction ms arbitrary: i) (auto split: option.split)
  have small: "get_table db m = Some j \<Longrightarrow> j < length (db_table_names db)" for j by (rule get_table_Some)
  show "abs_db (snd (create_table n cs db)) m = ((abs_db db)(n \<mapsto> \<lparr>rel_columns = cs, rel_rows = [], rel_keys = {}\<rparr>)) m"
    using assms small
    by (auto simp: abs_db_def create_table_new get_table_def snoc nth_append abs_table_def index_map_def split: option.splits)
qed

lemma exec_create_table_refines:
  assumes inv: "exec_inv ex"
  shows "refines ex (exec_create_table s ex) (in_session (sp_create_table s) (abs_session ex))"
proof (cases "ex_current_db ex")
  case None
  then show ?thesis using inv by (simp add: exec_create_table_def refines_def on_db_cases in_session_def)
next
  case (Some db)
  note db = exec_inv_db [OF inv Some]
  let ?n = "ct_table_name s" and ?cs = "map convert_column (ct_columns s)"
  show ?thesis
  proof (cases "get_table db ?n")
    case None
    have "db_inv (snd (create_table ?n ?cs db))" using db create_table_inv by (metis prod.collapse)
    moreover have "paths_ok (snd (create_table ?n ?cs db))"
      using db None by (auto simp: paths_ok_def create_table_new)
    moreover have "abs_db (snd (create_table ?n ?cs db)) = (abs_db db)(?n \<mapsto> \<lparr>rel_columns = ?cs, rel_rows = [], rel_keys = {}\<rparr>)"
      using db None by (intro abs_db_create_table) (simp_all add: db_inv_def)
    ultimately show ?thesis
      using inv Some db None abs_db_None [of db ?n]
      by (simp add: exec_create_table_def refines_def on_db_cases in_session_def sp_create_table_def
          create_table_new exec_inv_def abs_session_def Let_def)
  next
    case (Some i)
    then show ?thesis
      using inv \<open>ex_current_db ex = Some db\<close> abs_db_Some [OF Some]
      by (simp add: exec_create_table_def refines_def on_db_cases in_session_def sp_create_table_def
          create_table_existing exec_inv_def abs_session_def)
  qed
qed

lemma abs_db_remove_nth:
  assumes "db_inv db" and "get_table db n = Some i"
  shows "abs_db (db\<lparr>db_table_names := remove_nth i (db_table_names db),
    db_tables := remove_nth i (db_tables db), db_indexes := remove_nth i (db_indexes db)\<rparr>) = (abs_db db)(n := None)"
    (is "abs_db ?db' = _")
proof
  fix m
  note i = get_table_Some [OF assms(2)] get_table_inv(1,2) [OF assms]
  have inv': "db_inv ?db'" using db_inv_remove_nth [OF assms(1) i(1)] .
  have names: "set (db_table_names ?db') = set (db_table_names db) - {n}"
    using assms(1) i by (simp add: set_remove_nth db_inv_def)
  have old: "k < length ys \<Longrightarrow> remove_nth k ys ! j = ys ! (if j < k then j else Suc j)" for k j and ys :: "'b list"
    by (simp add: remove_nth_def nth_append min_def)
  show "abs_db ?db' m = ((abs_db db)(n := None)) m"
  proof (cases rule: get_table_cases [of ?db' m])
    case missing
    then have "m = n \<or> get_table db m = None" using names get_table_Some [of db m] nth_mem by fastforce
    with missing(1) show ?thesis by (auto simp: abs_db_def)
  next
    case (found j)
    let ?k = "if j < i then j else Suc j"
    have k: "?k < length (db_table_names db)" "db_table_names db ! ?k = m"
      using found(1,3) i(1) by (auto simp: remove_nth_def nth_append min_def split: if_splits)
    then have "get_table db m = Some ?k" using get_table_nth [of db ?k] assms(1) by (simp add: db_inv_def)
    moreover have "m \<noteq> n" using names found nth_mem by fastforce
    moreover have "db_tables ?db' ! j = db_tables db ! ?k" "db_indexes ?db' ! j = db_indexes db ! ?k"
      using i by (simp_all add: remove_nth_def nth_append min_def)
    ultimately show ?thesis using found(2) by (simp add: abs_db_def)
  qed
qed

lemma paths_ok_remove_nth:
  "paths_ok db \<Longrightarrow> paths_ok (db\<lparr>db_table_names := ns, db_tables := remove_nth i (db_tables db), db_indexes := xs\<rparr>)"
  using set_remove_nth_subset [of i "db_tables db"] by (auto simp: paths_ok_def)

lemma exec_drop_table_refines:
  assumes inv: "exec_inv ex"
  shows "refines ex (exec_drop_table os n ex) (in_session (sp_drop_table n) (abs_session ex))"
proof (cases "ex_current_db ex")
  case None
  then show ?thesis using inv by (simp add: exec_drop_table_def refines_def on_db_cases in_session_def)
next
  case (Some db)
  note db = exec_inv_db [OF inv Some]
  show ?thesis
  proof (cases "get_table db n")
    case None
    then show ?thesis
      using inv Some abs_db_None [of db n] drop_table_missing [OF None, of os "ex_world ex"]
      by (simp add: exec_drop_table_def refines_def on_db_cases in_session_def sp_drop_table_def
          exec_inv_def abs_session_def)
  next
    case tab: (Some i)
    let ?db = "db\<lparr>db_table_names := remove_nth i (db_table_names db),
      db_tables := remove_nth i (db_tables db), db_indexes := remove_nth i (db_indexes db)\<rparr>"
    obtain w where w: "drop_table os n db (ex_world ex) = Some (True, ?db, w)"
      using drop_table_found [OF conjunct1 [OF db] tab, of os "ex_world ex"] by blast
    have "db_inv ?db" using db db_inv_remove_nth get_table_Some(1) [OF tab] by blast
    moreover have "paths_ok ?db" using db by (simp add: paths_ok_remove_nth)
    moreover have "abs_db ?db = (abs_db db)(n := None)" using db tab by (simp add: abs_db_remove_nth)
    ultimately show ?thesis
      using inv Some db w abs_db_Some [OF tab]
      by (simp add: exec_drop_table_def refines_def on_db_cases in_session_def sp_drop_table_def
          exec_inv_def abs_session_def)
  qed
qed

lemma abs_db_new: "abs_db (set_data_dir d (database_new n)) = Map.empty"
  by (simp add: abs_db_def set_data_dir_def database_new_def get_table_def fun_eq_iff)

lemma exec_use_refines:
  "n \<noteq> [] \<Longrightarrow> refines ex (exec_use os n ex) (sp_execute ok (USE n) (abs_session ex))"
  by (simp add: exec_use_def refines_def exec_inv_def abs_session_def abs_db_new make_db_path_def paths_ok_def
      set_data_dir_def [symmetric]) (simp add: set_data_dir_def database_new_def Let_def)

text \<open>
  What a statement asks of the file system: the operating system's answer, which decides the
  two statements on databases, and the state it leaves. Selecting a database, or dropping the
  selected one, saves the tables first; every other statement but DROP TABLE leaves the files alone.
\<close>

definition saved :: "'w os \<Rightarrow> 'w executor \<Rightarrow> 'w" where
  "saved os ex = (case ex_current_db ex of None \<Rightarrow> ex_world ex | Some db \<Rightarrow> snd (save_all os db (ex_world ex)))"

fun os_effect :: "'w os \<Rightarrow> sql_statement \<Rightarrow> 'w executor \<Rightarrow> bool \<times> 'w" where
  "os_effect os (CREATE_DATABASE n) ex =
     os_mkdir os (make_db_path (ex_data_root ex) n) (snd (os_mkdir os (ex_data_root ex) (ex_world ex)))"
| "os_effect os (DROP_DATABASE n) ex =
     os_rmdir os (make_db_path (ex_data_root ex) n) (if ex_current_db_name ex = n then saved os ex else ex_world ex)"
| "os_effect os (USE n) ex = (True, saved os ex)"
| "os_effect os (DROP_TABLE n) ex =
     (True, case ex_current_db ex of
              None \<Rightarrow> ex_world ex
            | Some db \<Rightarrow> if abs_db db n = None then ex_world ex else removed_files os n db (ex_world ex))"
| "os_effect os _ ex = (True, ex_world ex)"

lemma exec_create_database_refines:
  assumes "exec_inv ex"
  shows "refines ex (exec_create_database os n ex)
    (sp_execute (fst (os_effect os (CREATE_DATABASE n) ex)) (CREATE_DATABASE n) (abs_session ex))"
  using assms
  by (simp add: exec_create_database_def create_database_def refines_def exec_inv_def abs_session_def case_prod_beta Let_def)

lemma exec_drop_database_refines:
  assumes "exec_inv ex" and "n \<noteq> []"
  shows "refines ex (exec_drop_database os n ex)
    (sp_execute (fst (os_effect os (DROP_DATABASE n) ex)) (DROP_DATABASE n) (abs_session ex))"
proof (cases "ex_current_db_name ex = n")
  case True
  then obtain db where "ex_current_db ex = Some db" using assms by (auto simp: exec_inv_def)
  then show ?thesis
    using assms True
    by (simp add: exec_drop_database_def refines_def exec_inv_def abs_session_def make_db_path_def saved_def
        case_prod_beta Let_def)
next
  case False
  then show ?thesis
    using assms
    by (simp add: exec_drop_database_def refines_def exec_inv_def abs_session_def make_db_path_def
        case_prod_beta Let_def)
qed

lemma execute_refines_spec:
  assumes "exec_inv ex" and "stmt_wf st"
  shows "refines ex (execute os st ex) (sp_execute (fst (os_effect os st ex)) st (abs_session ex))"
proof (cases st)
  case (CREATE_DATABASE n)
  then show ?thesis using exec_create_database_refines [OF assms(1), of os n] by simp
next
  case (DROP_DATABASE n)
  then show ?thesis using exec_drop_database_refines [OF assms(1), of n os] assms(2) by simp
next
  case (USE n)
  then show ?thesis using exec_use_refines [of n ex os "fst (os_effect os st ex)"] assms(2) by simp
next
  case (CREATE_TABLE s)
  then show ?thesis using exec_create_table_refines [OF assms(1), of s] by simp
next
  case (DROP_TABLE n)
  then show ?thesis using exec_drop_table_refines [OF assms(1), of os n] by simp
next
  case (SELECT s)
  then show ?thesis using exec_select_refines [OF assms(1), of s] by simp
next
  case (DELETE s)
  then show ?thesis using exec_delete_refines [OF assms(1), of s] by simp
next
  case (INSERT s)
  then show ?thesis using exec_insert_refines [OF assms(1), of s] assms(2) by simp
next
  case (UPDATE s)
  then show ?thesis using exec_update_refines [OF assms(1), of s] by simp
next
  case (INVALID e)
  then show ?thesis using assms(1) by (simp add: refines_def)
qed

text \<open>The files of the world a statement leaves.\<close>

lemma on_table_world:
  assumes "on_table n f ex = Some (res, ex')"
    and "\<And>db i t. f db i t = Some (res, ex') \<Longrightarrow> ex_world ex' = ex_world ex"
  shows "ex_world ex' = ex_world ex"
  using assms by (auto simp: on_table_def on_db_def split: option.splits)

text \<open>The table a statement works on.\<close>

fun table_name_of :: "sql_statement \<Rightarrow> string option" where
  "table_name_of (DROP_TABLE n) = Some n"
| "table_name_of (SELECT s) = Some (sel_table_name s)"
| "table_name_of (DELETE s) = Some (del_table_name s)"
| "table_name_of (INSERT s) = Some (ins_table_name s)"
| "table_name_of (UPDATE s) = Some (upd_table_name s)"
| "table_name_of _ = None"

lemma row_statement_world:
  assumes "execute os st ex = Some (res, ex')" and "table_name_of st \<noteq> None" and "\<And>n. st \<noteq> DROP_TABLE n"
  shows "ex_world ex' = ex_world ex"
proof (cases st)
  case (SELECT s)
  show ?thesis using assms(1) unfolding SELECT execute.simps exec_select_def
  proof (rule on_table_world, goal_cases)
    case (1 db i t)
    then show ?case
      by (cases "where_column t (sel_table_name s) (sel_where s)") (auto simp: Let_def split: if_splits)
  qed
next
  case (DELETE s)
  show ?thesis using assms(1) unfolding DELETE execute.simps exec_delete_def
  proof (rule on_table_world, goal_cases)
    case (1 db i t)
    then show ?case
      by (cases "where_column t (del_table_name s) (del_where s)") (auto simp: Let_def split: if_splits)
  qed
next
  case (INSERT s)
  show ?thesis using assms(1) unfolding INSERT execute.simps exec_insert_def
    by (rule on_table_world) (auto simp: Let_def split: if_splits)
next
  case (UPDATE s)
  show ?thesis using assms(1) unfolding UPDATE execute.simps exec_update_def
  proof (rule on_table_world, goal_cases)
    case (1 db i t)
    then show ?case
      by (cases "where_column t (upd_table_name s) (upd_where s)") (auto simp: Let_def split: if_splits)
  qed
qed (use assms in simp_all)

lemma execute_world:
  assumes "exec_inv ex" and "stmt_wf st" and "execute os st ex = Some (res, ex')"
  shows "ex_world ex' = snd (os_effect os st ex)"
proof (cases st)
  case (CREATE_DATABASE n)
  then show ?thesis using assms(3)
    by (auto simp: exec_create_database_def create_database_def case_prod_beta Let_def split: if_splits)
next
  case (DROP_DATABASE n)
  then show ?thesis using assms(3)
    by (auto simp: exec_drop_database_def saved_def make_db_path_def case_prod_beta Let_def split: if_splits)
next
  case (USE n)
  then show ?thesis using assms(3) by (auto simp: exec_use_def saved_def Let_def split: option.splits)
next
  case (CREATE_TABLE s)
  then show ?thesis using assms(3)
    by (auto simp: exec_create_table_def on_db_def case_prod_beta Let_def split: option.splits if_splits)
next
  case (DROP_TABLE n)
  show ?thesis
  proof (cases "ex_current_db ex")
    case None
    then show ?thesis using DROP_TABLE assms by (auto simp: exec_drop_table_def on_db_cases)
  next
    case (Some db)
    then have "db_inv db" using exec_inv_db [OF assms(1)] by blast
    then show ?thesis using DROP_TABLE Some assms
      by (cases "get_table db n")
        (auto simp: exec_drop_table_def on_db_cases drop_table_missing drop_table_found abs_db_None)
  qed
next
  case (SELECT s)
  then show ?thesis using row_statement_world [OF assms(3)] by simp
next
  case (DELETE s)
  then show ?thesis using row_statement_world [OF assms(3)] by simp
next
  case (INSERT s)
  then show ?thesis using row_statement_world [OF assms(3)] by simp
next
  case (UPDATE s)
  then show ?thesis using row_statement_world [OF assms(3)] by simp
next
  case (INVALID e)
  then show ?thesis using assms(3) by simp
qed

section \<open>Runs\<close>

text \<open>The statements a session executes one after the other.\<close>

fun run_statements :: "'w os \<Rightarrow> sql_statement list \<Rightarrow> 'w executor \<Rightarrow> (exec_result list \<times> 'w executor) option" where
  "run_statements os [] ex = Some ([], ex)"
| "run_statements os (st # sts) ex = do {
     (r, ex1) \<leftarrow> execute os st ex;
     (rs, ex2) \<leftarrow> run_statements os sts ex1;
     Some (r # rs, ex2)
   }"

lemma run_refines:
  assumes "exec_inv ex" and "list_all stmt_wf sts"
  shows "\<exists>oks rs ex'. run_statements os sts ex = Some (rs, ex') \<and> exec_inv ex' \<and> length oks = length sts
    \<and> sp_run oks sts (abs_session ex) = (rs, abs_session ex')"
  using assms
proof (induction sts arbitrary: ex)
  case (Cons st sts)
  from Cons.prems execute_refines_spec [of ex st os] obtain ok r ex1 where
    1: "execute os st ex = Some (r, ex1)" "exec_inv ex1" "sp_execute ok st (abs_session ex) = (r, abs_session ex1)"
    by (auto simp: refines_def)
  from Cons.IH [OF 1(2)] Cons.prems obtain oks rs ex2 where
    2: "run_statements os sts ex1 = Some (rs, ex2)" "exec_inv ex2" "length oks = length sts"
      "sp_run oks sts (abs_session ex1) = (rs, abs_session ex2)" by auto
  show ?case
    using 1 2 by (intro exI [of _ "ok # oks"] exI [of _ "r # rs"] exI [of _ ex2]) simp
qed simp

lemma session_typed_new: "session_typed C P (abs_session (executor_new os root w))"
  by (simp add: session_typed_def rows_typed_def executor_new_def abs_session_def table_new_def)

lemma session_sane_new: "session_sane (abs_session (executor_new os root w))"
  by (simp add: session_sane_def session_typed_new)

lemma execute_keeps_typed:
  assumes "exec_inv ex" and "session_typed C P (abs_session ex)" and "stmt_typed C P st" and "execute os st ex = Some (r, ex1)"
  shows "exec_inv ex1 \<and> session_typed C P (abs_session ex1)"
proof -
  have "stmt_wf st" using assms(3) by (simp add: stmt_typed_def)
  then obtain ok where "exec_inv ex1" "sp_execute ok st (abs_session ex) = (r, abs_session ex1)"
    using execute_refines_spec [OF assms(1), of st os] assms(4) by (auto simp: refines_def)
  with sp_execute_typed [OF assms(2,3), of ok] show ?thesis by simp
qed

lemma run_keeps_typed:
  assumes "exec_inv ex" and "session_typed C P (abs_session ex)" and "list_all (stmt_typed C P) sts"
    and "run_statements os sts ex = Some (rs, ex1)"
  shows "exec_inv ex1 \<and> session_typed C P (abs_session ex1)"
  using assms
proof (induction sts arbitrary: ex rs)
  case (Cons st sts)
  then obtain r ex2 rs' where "execute os st ex = Some (r, ex2)" "run_statements os sts ex2 = Some (rs', ex1)"
    by auto
  with Cons.IH [of ex2 rs'] execute_keeps_typed [of ex C P st os r ex2] Cons.prems(1-3) show ?case by simp
qed simp

lemma run_keeps:
  assumes "exec_inv ex" and "session_sane (abs_session ex)" and "list_all stmt_wf sts"
    and "run_statements os sts ex = Some (rs, ex1)"
  shows "exec_inv ex1 \<and> session_sane (abs_session ex1)"
  using run_keeps_typed [OF assms(1) _ _ assms(4), of "\<lambda>_. True" cell_ok] assms(2,3)
  by (auto simp: session_sane_def list_all_iff stmt_typed_sane)

text \<open>A statement on an existing table, on the engine's state.\<close>

lemma execute_on_relation:
  assumes "exec_inv ex" and "stmt_wf st" and "ex_current_db ex = Some db" and "abs_db db n = Some R"
    and spec: "\<And>ok. sp_execute ok st (abs_session ex) = in_session (on_relation n f) (abs_session ex)"
  shows "\<exists>ex' db'. execute os st ex = Some (fst (f R), ex') \<and> exec_inv ex' \<and> ex_current_db ex' = Some db'
    \<and> abs_db db' = (abs_db db)(n \<mapsto> snd (f R))"
proof -
  obtain ok res ex' where ex': "execute os st ex = Some (res, ex')" "exec_inv ex'"
      "sp_execute ok st (abs_session ex) = (res, abs_session ex')"
    using execute_refines_spec [OF assms(1,2), of os] by (auto simp: refines_def)
  have "in_session (on_relation n f) (abs_session ex)
      = (fst (f R), (abs_session ex)\<lparr>ss_db := Some ((abs_db db)(n \<mapsto> snd (f R)))\<rparr>)"
    using assms(3,4) by (cases "f R") (simp add: in_session_def on_relation_def)
  then have "res = fst (f R)" "abs_session ex' = (abs_session ex)\<lparr>ss_db := Some ((abs_db db)(n \<mapsto> snd (f R)))\<rparr>"
    using ex'(3) unfolding spec by simp_all
  moreover from arg_cong [OF this(2), of ss_db]
  have "map_option abs_db (ex_current_db ex') = Some ((abs_db db)(n \<mapsto> snd (f R)))" by simp
  ultimately show ?thesis using ex'(1,2) by auto
qed

section \<open>Properties\<close>

text \<open>C1. The engine refines its specification, and is never undefined: from every state that
  satisfies the invariant, every statement the parser can produce is executed without a null or
  out-of-range access, leaves the invariant, answers and changes the abstract database (a map
  from names to schemas, rows and keys) as the specification says, and asks of the file system
  exactly the effect of its kind: a directory made or removed, the tables of the database that is
  left saved, the two files of a dropped table removed, and nothing else.\<close>

theorem execute_refines:
  assumes "exec_inv ex" and "stmt_wf st"
  shows "\<exists>res ex'. execute os st ex = Some (res, ex') \<and> exec_inv ex'
    \<and> sp_execute (fst (os_effect os st ex)) st (abs_session ex) = (res, abs_session ex')
    \<and> ex_world ex' = snd (os_effect os st ex)"
  using execute_refines_spec [OF assms, of os] execute_world [OF assms, of os] by (auto simp: refines_def)

theorem execute_refines_witness:
  "\<exists>res ex'. execute mem_os (USE ''d'') (executor_new mem_os ''data'' mem_empty) = Some (res, ex') \<and> exec_inv ex'
     \<and> ss_db (abs_session ex') = Some Map.empty \<and> mf_dirs (ex_world ex') = [''data'']"
proof -
  let ?ex = "executor_new mem_os ''data'' mem_empty"
  have wf: "stmt_wf (USE ''d'')" by simp
  obtain res ex' where ex': "execute mem_os (USE ''d'') ?ex = Some (res, ex')" "exec_inv ex'"
      "sp_execute True (USE ''d'') (abs_session ?ex) = (res, abs_session ex')" "ex_world ex' = saved mem_os ?ex"
    using execute_refines [OF exec_inv_new wf, of mem_os mem_os "''data''" mem_empty] by auto
  have "abs_session ex' = snd (sp_execute True (USE ''d'') (abs_session ?ex))" using ex'(3) by simp
  then have "ss_db (abs_session ex') = Some Map.empty" by simp
  moreover have "mf_dirs (saved mem_os ?ex) = [''data'']" by code_simp
  ultimately show ?thesis using ex'(1,2,4) by auto
qed

text \<open>C9. SELECT: on an existing table with known columns the answer has the chosen column (or all of
  them) and, in order, the projections of exactly the rows that satisfy the WHERE; the database,
  the files and the session are untouched.\<close>

theorem select_filters_and_projects:
  assumes "exec_inv ex" and "ex_current_db ex = Some db" and "get_table db (sel_table_name s) = Some i"
    and "t = db_tables db ! i" and "star = (sel_column_name s = ''*'')"
    and "star \<or> column_pos (tb_columns t) (sel_column_name s) = Some c"
    and "where_column t (sel_table_name s) (sel_where s) = Inr wcol"
  shows "\<exists>q. execute os (SELECT s) ex = Some ((result_ok ''Query OK'')\<lparr>res_table := True\<rparr>, ex\<lparr>ex_result := q\<rparr>)
    \<and> tb_columns q = (if star then tb_columns t else [tb_columns t ! c])
    \<and> tb_rows q = map (\<lambda>r. if star then r else [r ! c]) (filter (satisfies (tb_columns t) (sel_where s)) (tb_rows t))"
proof -
  let ?target = "if star then - 1 else find_column t (sel_column_name s)"
  have inv: "table_inv t" using get_table_inv(4) [OF _ assms(3)] exec_inv_db [OF assms(1,2)] assms(4) by simp
  have target: "star \<or> 0 \<le> ?target" using assms(6) by (auto simp: find_column_pos)
  note loop = exec_select_found [OF inv assms(7,5) refl target]
  show ?thesis
  proof (cases star)
    case True
    then show ?thesis using assms loop
      by (simp add: exec_select_def on_table_cases Let_def fold_add_column table_new_def)
        (rule exI, rule conjI, rule refl, simp)
  next
    case False
    then have c: "column_pos (tb_columns t) (sel_column_name s) = Some c" using assms(6) by simp
    show ?thesis using assms loop False c column_pos_less [OF c]
      by (simp add: exec_select_def on_table_cases Let_def add_column_def table_new_def find_column_pos)
        (rule exI, rule conjI, rule refl, simp)
  qed
qed

text \<open>A state with one table, for the witnesses.\<close>

definition sample_columns :: "column_def list" where
  "sample_columns = [\<lparr>cd_name = ''id'', cd_type = ''int'', cd_is_primary = True\<rparr>,
     \<lparr>cd_name = ''name'', cd_type = ''string'', cd_is_primary = False\<rparr>]"

definition sample_script :: "sql_statement list" where
  "sample_script = [USE ''d'', CREATE_TABLE \<lparr>ct_table_name = ''t'', ct_columns = sample_columns\<rparr>,
     INSERT \<lparr>ins_table_name = ''t'', ins_values = [''1'', ''a''], ins_is_int = [True, False]\<rparr>,
     INSERT \<lparr>ins_table_name = ''t'', ins_values = [''2'', ''b''], ins_is_int = [True, False]\<rparr>]"

definition sample_exec :: "mem_fs executor" where
  "sample_exec = snd (the (run_statements mem_os sample_script (executor_new mem_os ''data'' mem_empty)))"

lemma sample_exec_inv: "exec_inv sample_exec" "session_sane (abs_session sample_exec)"
proof -
  have wf: "list_all stmt_wf sample_script" by code_simp
  obtain rs ex where run: "run_statements mem_os sample_script (executor_new mem_os ''data'' mem_empty) = Some (rs, ex)"
    using run_refines [OF exec_inv_new wf, of mem_os mem_os "''data''" mem_empty] by blast
  then have "sample_exec = ex" by (simp add: sample_exec_def)
  with run_keeps [OF exec_inv_new session_sane_new wf run]
  show "exec_inv sample_exec" "session_sane (abs_session sample_exec)" by simp_all
qed

definition sample_select :: select_stmt where
  "sample_select = \<lparr>sel_column_name = ''name'', sel_table_name = ''t'',
     sel_where = Some \<lparr>wc_column = ''id'', wc_op = ''>'', wc_const_value = ''1'', wc_is_int_literal = True\<rparr>\<rparr>"

definition sample_table_state :: table where
  "sample_table_state = hd (db_tables (the (ex_current_db sample_exec)))"

lemma sample_state:
  "ex_current_db sample_exec = Some (the (ex_current_db sample_exec))"
  "get_table (the (ex_current_db sample_exec)) ''t'' = Some 0"
  "column_pos (tb_columns sample_table_state) ''name'' = Some 1"
  "where_column sample_table_state ''t'' (sel_where sample_select) = Inr 0"
  "map (\<lambda>r. [r ! 1]) (filter (satisfies (tb_columns sample_table_state) (sel_where sample_select)) (tb_rows sample_table_state))
     = [[V_STRING ''b'']]"
  "sample_table_state = db_tables (the (ex_current_db sample_exec)) ! 0"
  by (code_simp)+

theorem select_filters_and_projects_witness:
  "\<exists>ex'. execute mem_os (SELECT sample_select) sample_exec = Some ((result_ok ''Query OK'')\<lparr>res_table := True\<rparr>, ex')
     \<and> tb_rows (ex_result ex') = [[V_STRING ''b'']]"
  using select_filters_and_projects [OF sample_exec_inv(1) sample_state(1), of sample_select 0 sample_table_state
      "sel_column_name sample_select = ''*''" 1 0 mem_os] sample_state(2-6)
  by (auto simp: sample_select_def)

text \<open>Without a selected database, every statement on tables is answered with the same error and
  changes nothing; with one, a statement on an unknown table is answered with an error that
  names the table and changes nothing.\<close>

lemma unknown_tables_are_refused:
  assumes "exec_inv ex" and "table_name_of st = Some n"
    and "ex_current_db ex = None \<or> n \<notin> set (db_table_names (the (ex_current_db ex)))"
  shows "execute os st ex = Some (if ex_current_db ex = None
     then result_error (''No database selected. Use '' @ squote ''use <dbname>'' @ '' first.'') else no_table n, ex)"
proof (cases "ex_current_db ex")
  case None
  then show ?thesis using assms(1,2)
    by (cases st) (simp_all add: exec_drop_table_def exec_select_def exec_delete_def exec_insert_def exec_update_def
        on_db_cases on_table_cases)
next
  case (Some db)
  then have none: "get_table db n = None" using assms(3) by (cases rule: get_table_cases [of db n]) auto
  have "ex\<lparr>ex_current_db := Some db, ex_world := ex_world ex\<rparr> = ex" using Some by simp
  then show ?thesis using assms(1,2) Some none
    by (cases st) (simp_all add: exec_drop_table_def exec_select_def exec_delete_def exec_insert_def exec_update_def
        on_db_cases on_table_cases drop_table_missing)
qed

lemma unknown_tables_are_refused_witness:
  "execute mem_os (DROP_TABLE ''nope'') sample_exec = Some (no_table ''nope'', sample_exec)"
proof -
  have "''nope'' \<notin> set (db_table_names (the (ex_current_db sample_exec)))" by code_simp
  moreover have "ex_current_db sample_exec \<noteq> None" using sample_state(1) by auto
  ultimately show ?thesis
    using unknown_tables_are_refused [OF sample_exec_inv(1), of "DROP_TABLE ''nope''" "''nope''" mem_os]
    by (cases "ex_current_db sample_exec") simp_all
qed

text \<open>C10. DELETE on an existing table keeps, in order, exactly the rows that do not satisfy the WHERE,
  reports how many are gone, frees their keys, and leaves the other tables alone.\<close>

theorem delete_keeps_the_rest:
  assumes "exec_inv ex" and "ex_current_db ex = Some db" and "abs_db db (del_table_name s) = Some R"
    and "unknown_column R None (del_where s) = None"
    and "hit = satisfies (rel_columns R) (del_where s)"
  shows "\<exists>ex' db'. execute os (DELETE s) ex
      = Some (result_ok (snprintf 256 (show_int (int (length (filter hit (rel_rows R)))) @ '' row(s) deleted'')), ex')
    \<and> ex_current_db ex' = Some db'
    \<and> abs_db db' = (abs_db db)(del_table_name s \<mapsto> R\<lparr>rel_rows := filter (\<lambda>r. \<not> hit r) (rel_rows R),
        rel_keys := rel_keys R - int_keys (rel_columns R) (filter hit (rel_rows R))\<rparr>)"
  using execute_on_relation [OF assms(1) _ assms(2,3), of "DELETE s" "sp_delete s" os] assms(4,5)
  by (simp add: sp_delete_def Let_def) blast

theorem delete_keeps_the_rest_witness:
  "\<exists>ex'. execute mem_os (DELETE \<lparr>del_table_name = ''t'', del_where = sel_where sample_select\<rparr>) sample_exec
     = Some (result_ok ''1 row(s) deleted'', ex')"
proof -
  let ?s = "\<lparr>del_table_name = ''t'', del_where = sel_where sample_select\<rparr>" and ?t = sample_table_state
  let ?x = "db_indexes (the (ex_current_db sample_exec)) ! 0"
  have R: "abs_db (the (ex_current_db sample_exec)) (del_table_name ?s) = Some (abs_table ?t ?x)"
    using sample_state(2,6) by (simp add: abs_db_def)
  have "column_pos (tb_columns ?t) ''id'' = Some 0" by code_simp
  then have U: "unknown_column (abs_table ?t ?x) None (del_where ?s) = None"
    by (simp add: unknown_column_def sample_select_def)
  have "snprintf 256 (show_int (int (length (filter (satisfies (tb_columns ?t) (sel_where sample_select)) (tb_rows ?t))))
      @ '' row(s) deleted'') = ''1 row(s) deleted''" by code_simp
  with delete_keeps_the_rest [OF sample_exec_inv(1) sample_state(1) R U refl, of mem_os] show ?thesis by auto
qed

end
