(* ===== verification/Key_Integrity.thy ===== *)
theory Key_Integrity
  imports Relational
begin

text \<open>
  Primary keys. The engine checks uniqueness against the index only, and only for integer
  values, so integrity is a property of the statements as well as of the code: \<open>key_safe\<close>
  says which statements keep it. For those, on every reachable state, the key column holds
  distinct integers and the index holds exactly these; so INSERT refuses a key exactly when
  a row has it. The theory then shows what the other statements do.
\<close>

definition relation_ok :: "relation \<Rightarrow> bool" where
  "relation_ok R \<longleftrightarrow> (\<forall>r \<in> set (rel_rows R). length r = length (rel_columns R))
     \<and> (case key_pos (rel_columns R) of
          None \<Rightarrow> True
        | Some c \<Rightarrow> (\<forall>r \<in> set (rel_rows R). is_int (r ! c))
            \<and> distinct (map (\<lambda>r. r ! c) (rel_rows R))
            \<and> rel_keys R = int_keys (rel_columns R) (rel_rows R))"

definition session_ok :: "session \<Rightarrow> bool" where
  "session_ok S \<longleftrightarrow> (\<forall>D n R. ss_db S = Some D \<and> D n = Some R \<longrightarrow> relation_ok R)"

text \<open>The relation a statement is about.\<close>

definition session_table :: "session \<Rightarrow> string \<Rightarrow> relation option" where
  "session_table S n = (case ss_db S of None \<Rightarrow> None | Some D \<Rightarrow> D n)"

definition session_schema :: "session \<Rightarrow> string \<Rightarrow> column list option" where
  "session_schema S n = map_option rel_columns (session_table S n)"

text \<open>Safe, given the schemas: INSERT gives an integer for the key, UPDATE sets another column.\<close>

fun key_safe :: "(string \<Rightarrow> column list option) \<Rightarrow> sql_statement \<Rightarrow> bool" where
  "key_safe schema (INSERT s) =
     (case schema (ins_table_name s) of
        None \<Rightarrow> True
      | Some cols \<Rightarrow> (case key_pos cols of
                     None \<Rightarrow> True
                   | Some c \<Rightarrow> c < length (ins_is_int s) \<longrightarrow> ins_is_int s ! c))"
| "key_safe schema (UPDATE s) =
     (case schema (upd_table_name s) of
        None \<Rightarrow> True
      | Some cols \<Rightarrow> key_pos cols = None \<or> column_pos cols (upd_set_column s) \<noteq> key_pos cols)"
| "key_safe schema _ = True"

text \<open>The schemas of the engine's selected database.\<close>

definition schema_of :: "'w executor \<Rightarrow> string \<Rightarrow> column list option" where
  "schema_of ex n =
     (case ex_current_db ex of
        None \<Rightarrow> None
      | Some db \<Rightarrow> map_option (\<lambda>i. tb_columns (db_tables db ! i)) (get_table db n))"

lemma session_schema_of: "session_schema (abs_session ex) = schema_of ex"
  by (auto simp: session_schema_def session_table_def schema_of_def abs_db_def fun_eq_iff split: option.split)

lemma int_keys_Some: "key_pos cols = Some c \<Longrightarrow> int_keys cols rs = {k. V_INT k \<in> (\<lambda>r. r ! c) ` set rs}"
  by (simp add: int_keys_def image_iff eq_commute [of "V_INT _"])

lemma relation_okI:
  assumes "\<And>r. r \<in> set (rel_rows R) \<Longrightarrow> length r = length (rel_columns R)"
    and "\<And>c. key_pos (rel_columns R) = Some c \<Longrightarrow> (\<forall>r \<in> set (rel_rows R). is_int (r ! c))
      \<and> distinct (map (\<lambda>r. r ! c) (rel_rows R)) \<and> rel_keys R = {k. V_INT k \<in> (\<lambda>r. r ! c) ` set (rel_rows R)}"
  shows "relation_ok R"
  using assms by (auto simp: relation_ok_def int_keys_Some split: option.split)

lemma relation_ok_key:
  assumes "relation_ok R" and "key_pos (rel_columns R) = Some c"
  shows "\<forall>r \<in> set (rel_rows R). is_int (r ! c)" "distinct (map (\<lambda>r. r ! c) (rel_rows R))"
    "rel_keys R = {k. V_INT k \<in> (\<lambda>r. r ! c) ` set (rel_rows R)}"
  using assms by (simp_all add: relation_ok_def int_keys_Some)

lemma relation_ok_width: "relation_ok R \<Longrightarrow> r \<in> set (rel_rows R) \<Longrightarrow> length r = length (rel_columns R)"
  by (simp add: relation_ok_def)

section \<open>Each statement\<close>

lemma sp_delete_ok:
  assumes "relation_ok R"
  shows "relation_ok (snd (sp_delete s R))"
proof (cases "unknown_column R None (del_where s)")
  case None
  let ?hit = "satisfies (rel_columns R) (del_where s)"
  let ?R = "R\<lparr>rel_rows := filter (\<lambda>r. \<not> ?hit r) (rel_rows R),
    rel_keys := rel_keys R - int_keys (rel_columns R) (filter ?hit (rel_rows R))\<rparr>"
  have "relation_ok ?R"
  proof (rule relation_okI)
    fix r assume "r \<in> set (rel_rows ?R)"
    then show "length r = length (rel_columns ?R)" using relation_ok_width [OF assms] by simp
  next
    fix c assume "key_pos (rel_columns ?R) = Some c"
    then have c: "key_pos (rel_columns R) = Some c" by simp
    note ok = relation_ok_key [OF assms c]
    have inj: "inj_on (\<lambda>r. r ! c) (set (rel_rows R))" using ok(2) by (simp add: distinct_map)
    have "rel_keys ?R = {k. V_INT k \<in> (\<lambda>r. r ! c) ` set (rel_rows ?R)}"
      using ok(3) inj by (auto simp: int_keys_Some [OF c] inj_on_def)
    then show "(\<forall>r \<in> set (rel_rows ?R). is_int (r ! c)) \<and> distinct (map (\<lambda>r. r ! c) (rel_rows ?R))
        \<and> rel_keys ?R = {k. V_INT k \<in> (\<lambda>r. r ! c) ` set (rel_rows ?R)}"
      using ok(1,2) by (simp add: distinct_map_filter)
  qed
  then show ?thesis using None by (simp add: sp_delete_def Let_def)
qed (use assms in \<open>simp add: sp_delete_def Let_def\<close>)

lemma sp_insert_ok:
  assumes "relation_ok R" and "length (ins_values s) = length (ins_is_int s)"
    and safe: "\<And>c. key_pos (rel_columns R) = Some c \<Longrightarrow> c < length (ins_is_int s) \<Longrightarrow> ins_is_int s ! c"
  shows "relation_ok (snd (sp_insert s R))"
proof (cases "length (ins_values s) = length (rel_columns R)")
  case True
  let ?r = "map2 literal_value (ins_is_int s) (ins_values s)"
  show ?thesis
  proof (cases "key_pos (rel_columns R)")
    case None
    then show ?thesis using True assms(1,2) by (simp add: sp_insert_def Let_def relation_ok_def)
  next
    case (Some c)
    note ok = relation_ok_key [OF assms(1) Some]
    have len: "c < length (ins_is_int s)" using key_pos_less [OF Some] True assms(2) by simp
    then obtain k where k: "?r ! c = V_INT k" using safe [OF Some len] assms(2) by (simp add: literal_value_def)
    show ?thesis
    proof (cases "k \<in> rel_keys R")
      case True
      then show ?thesis using \<open>length (ins_values s) = length (rel_columns R)\<close> Some k assms(1)
        by (simp add: sp_insert_def Let_def)
    next
      case False
      let ?R = "R\<lparr>rel_rows := rel_rows R @ [?r], rel_keys := insert k (rel_keys R)\<rparr>"
      have "relation_ok ?R"
      proof (rule relation_okI)
        fix r assume "r \<in> set (rel_rows ?R)"
        then show "length r = length (rel_columns ?R)" using relation_ok_width [OF assms(1)] True assms(2) by auto
      next
        fix d assume "key_pos (rel_columns ?R) = Some d"
        then have d: "d = c" using Some by simp
        show "(\<forall>r \<in> set (rel_rows ?R). is_int (r ! d)) \<and> distinct (map (\<lambda>r. r ! d) (rel_rows ?R))
            \<and> rel_keys ?R = {k. V_INT k \<in> (\<lambda>r. r ! d) ` set (rel_rows ?R)}"
          using ok k False unfolding d by (auto simp: image_iff)
      qed
      then show ?thesis using True Some k False by (simp add: sp_insert_def Let_def)
    qed
  qed
qed (use assms in \<open>simp add: sp_insert_def Let_def\<close>)

lemma sp_update_ok:
  assumes "relation_ok R"
    and safe: "key_pos (rel_columns R) = None \<or> column_pos (rel_columns R) (upd_set_column s) \<noteq> key_pos (rel_columns R)"
  shows "relation_ok (snd (sp_update s R))"
proof (cases "unknown_column R (Some (upd_set_column s)) (upd_where s)")
  case None
  then obtain d where d: "column_pos (rel_columns R) (upd_set_column s) = Some d"
    by (auto simp: unknown_target split: if_splits)
  let ?v = "literal_value (upd_set_is_int s) (upd_set_value s)"
  let ?f = "\<lambda>r. if satisfies (rel_columns R) (upd_where s) r then r[d := ?v] else r"
  have ne: "key_pos (rel_columns R) \<noteq> Some d" using safe d by auto
  have "relation_ok (R\<lparr>rel_rows := map ?f (rel_rows R)\<rparr>)"
  proof (rule relation_okI)
    fix r assume "r \<in> set (rel_rows (R\<lparr>rel_rows := map ?f (rel_rows R)\<rparr>))"
    then show "length r = length (rel_columns (R\<lparr>rel_rows := map ?f (rel_rows R)\<rparr>))"
      using relation_ok_width [OF assms(1)] by auto
  next
    fix c assume "key_pos (rel_columns (R\<lparr>rel_rows := map ?f (rel_rows R)\<rparr>)) = Some c"
    then have c: "key_pos (rel_columns R) = Some c" "d \<noteq> c" using ne by auto
    have same: "?f r ! c = r ! c" for r using c(2) by simp
    have col: "map (\<lambda>r. r ! c) (map ?f (rel_rows R)) = map (\<lambda>r. r ! c) (rel_rows R)"
      using same by simp
    have img: "(\<lambda>r. r ! c) ` set (map ?f (rel_rows R)) = (\<lambda>r. r ! c) ` set (rel_rows R)"
      using arg_cong [OF col, of set] by (simp only: set_map)
    have ints: "\<forall>r \<in> set (map ?f (rel_rows R)). is_int (r ! c)"
      using relation_ok_key(1) [OF assms(1) c(1)] c(2) by auto
    show "(\<forall>r \<in> set (rel_rows (R\<lparr>rel_rows := map ?f (rel_rows R)\<rparr>)). is_int (r ! c))
        \<and> distinct (map (\<lambda>r. r ! c) (rel_rows (R\<lparr>rel_rows := map ?f (rel_rows R)\<rparr>)))
        \<and> rel_keys (R\<lparr>rel_rows := map ?f (rel_rows R)\<rparr>)
          = {k. V_INT k \<in> (\<lambda>r. r ! c) ` set (rel_rows (R\<lparr>rel_rows := map ?f (rel_rows R)\<rparr>))}"
      using relation_ok_key [OF assms(1) c(1)] col img ints by (simp del: map_map set_map)
  qed
  then show ?thesis using None d ne by (simp add: sp_update_def Let_def new_keys_def)
qed (use assms in \<open>simp add: sp_update_def Let_def\<close>)

section \<open>The invariant of a session\<close>

lemma session_okD: "session_ok S \<Longrightarrow> session_table S n = Some R \<Longrightarrow> relation_ok R"
  by (auto simp: session_ok_def session_table_def split: option.splits)

lemma on_relation_ok:
  assumes "session_ok S"
    and "\<And>R. session_table S n = Some R \<Longrightarrow> relation_ok R \<Longrightarrow> relation_ok (snd (f R))"
  shows "session_ok (snd (in_session (on_relation n f) S))"
proof (cases "ss_db S")
  case (Some D)
  show ?thesis
  proof (cases "D n")
    case None
    then show ?thesis using assms(1) Some by (simp add: in_session_def on_relation_def session_ok_def)
  next
    case (Some R)
    then have R: "session_table S n = Some R" using \<open>ss_db S = Some D\<close> by (simp add: session_table_def)
    have "relation_ok (snd (f R))" using assms(2) [OF R] session_okD [OF assms(1) R] .
    then show ?thesis using assms(1) Some \<open>ss_db S = Some D\<close>
      by (auto simp: in_session_def on_relation_def session_ok_def split: prod.splits if_splits)
  qed
qed (use assms(1) in \<open>simp add: in_session_def\<close>)

lemma sp_query_db: "ss_db (snd (sp_query s S)) = ss_db S"
  by (auto simp: sp_query_def in_session_def split: option.splits prod.splits)

lemma relation_ok_empty: "relation_ok \<lparr>rel_columns = cols, rel_rows = [], rel_keys = {}\<rparr>"
  by (auto simp: relation_ok_def int_keys_def split: option.split)

lemma sp_execute_ok:
  assumes "session_ok S" and "stmt_wf st" and "key_safe (session_schema S) st"
  shows "session_ok (snd (sp_execute ok st S))"
proof (cases st)
  case (INSERT s)
  then show ?thesis
    using assms by (auto simp: session_schema_def intro!: on_relation_ok sp_insert_ok)
next
  case (UPDATE s)
  then show ?thesis
    using assms by (auto simp: session_schema_def intro!: on_relation_ok sp_update_ok)
next
  case (DELETE s)
  then show ?thesis
    using assms by (auto intro!: on_relation_ok sp_delete_ok)
next
  case (CREATE_TABLE s)
  then show ?thesis
    using assms(1) relation_ok_empty
    by (auto simp: in_session_def sp_create_table_def session_ok_def Let_def split: option.splits)
next
  case (DROP_TABLE n)
  then show ?thesis
    using assms(1) by (auto simp: in_session_def sp_drop_table_def session_ok_def split: option.splits if_splits)
next
  case (SELECT s)
  then show ?thesis using assms(1) by (simp add: session_ok_def sp_query_db)
qed (use assms(1) in \<open>auto simp: session_ok_def\<close>)

text \<open>A run all of whose statements are safe where they are executed.\<close>

fun safe_run :: "'w os \<Rightarrow> sql_statement list \<Rightarrow> 'w executor \<Rightarrow> bool" where
  "safe_run os [] ex = True"
| "safe_run os (st # sts) ex =
     (stmt_wf st \<and> key_safe (schema_of ex) st
        \<and> (case execute os st ex of None \<Rightarrow> True | Some (r, ex1) \<Rightarrow> safe_run os sts ex1))"

lemma safe_run_ok:
  assumes "exec_inv ex" and "session_ok (abs_session ex)" and "safe_run os sts ex"
    and "run_statements os sts ex = Some (rs, ex')"
  shows "exec_inv ex' \<and> session_ok (abs_session ex')"
  using assms
proof (induction sts arbitrary: ex rs)
  case (Cons st sts)
  from Cons.prems execute_refines_spec [of ex st os] obtain ok r ex1 where
    1: "execute os st ex = Some (r, ex1)" "exec_inv ex1" "sp_execute ok st (abs_session ex) = (r, abs_session ex1)"
    by (auto simp: refines_def)
  have "session_ok (abs_session ex1)"
    using sp_execute_ok [of "abs_session ex" st ok] Cons.prems 1(3) by (simp add: session_schema_of)
  with Cons.IH [OF 1(2)] Cons.prems(3,4) 1(1) show ?case by auto
qed simp

lemma session_ok_new: "session_ok (abs_session (executor_new os root w))"
  by (simp add: session_ok_def executor_new_def abs_session_def)

section \<open>Properties\<close>

text \<open>C2. Primary-key integrity: after any run of statements that give INSERT an integer literal for
  the key column and never UPDATE that column, started from a new engine, the key column of
  every table holds distinct integers, and the index holds exactly these keys.\<close>

theorem primary_keys_stay_unique:
  assumes "safe_run os sts (executor_new os root w)"
    and "run_statements os sts (executor_new os root w) = Some (rs, ex)"
    and "ex_current_db ex = Some db" and "get_table db n = Some i" and "t = db_tables db ! i"
    and "key_pos (tb_columns t) = Some c"
  shows "distinct (map (\<lambda>r. r ! c) (tb_rows t)) \<and> (\<forall>r \<in> set (tb_rows t). is_int (r ! c))
    \<and> dom (index_map (db_indexes db ! i)) = {k. V_INT k \<in> (\<lambda>r. r ! c) ` set (tb_rows t)}"
proof -
  have "session_ok (abs_session ex)"
    using safe_run_ok [OF exec_inv_new session_ok_new assms(1,2)] by simp
  moreover have "session_table (abs_session ex) n = Some (abs_table t (db_indexes db ! i))"
    using assms(3-5) by (simp add: session_table_def abs_db_def)
  ultimately have "relation_ok (abs_table t (db_indexes db ! i))" by (rule session_okD)
  from relation_ok_key [OF this, of c] assms(6) show ?thesis by simp
qed

lemma sample_safe: "safe_run mem_os sample_script (executor_new mem_os ''data'' mem_empty)"
  by code_simp

lemma sample_run:
  "run_statements mem_os sample_script (executor_new mem_os ''data'' mem_empty)
   = Some (fst (the (run_statements mem_os sample_script (executor_new mem_os ''data'' mem_empty))), sample_exec)"
  using run_refines [OF exec_inv_new [of mem_os "''data''" mem_empty], of sample_script mem_os]
  by (auto simp: sample_exec_def list_all_iff sample_script_def)

lemma sample_key: "key_pos (tb_columns sample_table_state) = Some 0"
  by code_simp

theorem primary_keys_stay_unique_witness:
  "distinct (map (\<lambda>r. r ! 0) (tb_rows sample_table_state)) \<and> list_all (\<lambda>r. is_int (r ! 0)) (tb_rows sample_table_state)"
  using primary_keys_stay_unique [OF sample_safe sample_run sample_state(1,2,6) sample_key] by (simp add: list_all_iff)

text \<open>C11. In a state with that integrity, INSERT of a row with an integer key is refused, and changes
  nothing, exactly when some row of the table already has the key; otherwise the row is
  appended.\<close>

theorem insert_refuses_duplicates:
  assumes "exec_inv ex" and "ex_current_db ex = Some db" and "abs_db db (ins_table_name s) = Some R" and "relation_ok R"
    and "length (ins_values s) = length (rel_columns R)" and "length (ins_values s) = length (ins_is_int s)"
    and "key_pos (rel_columns R) = Some c" and "ins_is_int s ! c" and "k = atoi (ins_values s ! c)"
  shows "\<exists>ex' db'. ex_current_db ex' = Some db' \<and>
    (if V_INT k \<in> (\<lambda>r. r ! c) ` set (rel_rows R)
     then execute os (INSERT s) ex
        = Some (result_error (snprintf 256 (''Duplicate primary key: '' @ show_int k)), ex') \<and> abs_db db' = abs_db db
     else execute os (INSERT s) ex = Some (result_ok ''1 row inserted'', ex')
       \<and> abs_db db' = (abs_db db)(ins_table_name s \<mapsto> R\<lparr>rel_rows := rel_rows R @ [map2 literal_value (ins_is_int s) (ins_values s)],
           rel_keys := insert k (rel_keys R)\<rparr>))"
proof -
  obtain ex' db' where ex': "execute os (INSERT s) ex = Some (fst (sp_insert s R), ex')" "ex_current_db ex' = Some db'"
      "abs_db db' = (abs_db db)(ins_table_name s \<mapsto> snd (sp_insert s R))"
    using execute_on_relation [OF assms(1) _ assms(2,3), of "INSERT s" "sp_insert s" os] assms(6) by auto
  have "c < length (ins_is_int s)" using key_pos_less [OF assms(7)] assms(5,6) by simp
  then have lit: "map2 literal_value (ins_is_int s) (ins_values s) ! c = V_INT k"
    using assms(6,8,9) by (simp add: literal_value_def)
  have "k \<in> rel_keys R \<longleftrightarrow> V_INT k \<in> (\<lambda>r. r ! c) ` set (rel_rows R)"
    using relation_ok_key(3) [OF assms(4,7)] by simp
  moreover have "(abs_db db)(ins_table_name s \<mapsto> R) = abs_db db" using assms(3) by (rule map_upd_triv)
  ultimately show ?thesis
    using ex' lit assms(5,7) by (auto simp: sp_insert_def Let_def split: if_splits)
qed

lemma sample_relation:
  "abs_db (the (ex_current_db sample_exec)) ''t'' = Some (abs_table sample_table_state (db_indexes (the (ex_current_db sample_exec)) ! 0))"
  "relation_ok (abs_table sample_table_state (db_indexes (the (ex_current_db sample_exec)) ! 0))"
proof -
  show r: "abs_db (the (ex_current_db sample_exec)) ''t'' = Some (abs_table sample_table_state (db_indexes (the (ex_current_db sample_exec)) ! 0))"
    using sample_state(2,6) by (simp add: abs_db_def)
  have "session_ok (abs_session sample_exec)"
    using safe_run_ok [OF exec_inv_new session_ok_new sample_safe sample_run] by simp
  then show "relation_ok (abs_table sample_table_state (db_indexes (the (ex_current_db sample_exec)) ! 0))"
    using r sample_state(1) by (metis abs_session_simps(2) option.simps(9) session_ok_def)
qed

definition sample_insert :: insert_stmt where
  "sample_insert = \<lparr>ins_table_name = ''t'', ins_values = [''2'', ''z''], ins_is_int = [True, False]\<rparr>"

theorem insert_refuses_duplicates_witness:
  "\<exists>ex'. execute mem_os (INSERT sample_insert) sample_exec = Some (result_error ''Duplicate primary key: 2'', ex')"
proof -
  have n: "ins_table_name sample_insert = ''t''" by (simp add: sample_insert_def)
  have len: "length (ins_values sample_insert) = length (tb_columns sample_table_state)"
    "length (ins_values sample_insert) = length (ins_is_int sample_insert)" "ins_is_int sample_insert ! 0"
    "atoi (ins_values sample_insert ! 0) = 2"
    "V_INT 2 \<in> set (map (\<lambda>r. r ! 0) (tb_rows sample_table_state))"
    "snprintf 256 (''Duplicate primary key: '' @ show_int 2) = ''Duplicate primary key: 2''"
    by (code_simp)+
  show ?thesis
    using insert_refuses_duplicates [OF sample_exec_inv(1) sample_state(1), of sample_insert
        "abs_table sample_table_state (db_indexes (the (ex_current_db sample_exec)) ! 0)" 0 2 mem_os]
      sample_relation sample_key len unfolding n by auto
qed

text \<open>C37. Where integrity ends, 1: a text in the key column is not compared with anything and is
  indexed under 0, so after such an INSERT an INSERT with the integer key 0 is refused although
  no row has it.\<close>

theorem text_key_blocks_zero:
  assumes "exec_inv ex" and "ex_current_db ex = Some db" and "abs_db db (ins_table_name s) = Some R"
    and "key_pos (rel_columns R) = Some c" and "length (ins_values s) = length (rel_columns R)"
    and "length (ins_is_int s) = length (rel_columns R)" and "\<not> ins_is_int s ! c"
    and "length (ins_values z) = length (rel_columns R)" and "length (ins_is_int z) = length (rel_columns R)"
    and "ins_is_int z ! c" and "atoi (ins_values z ! c) = 0" and "ins_table_name z = ins_table_name s"
  shows "\<exists>ex'. run_statements os [INSERT s, INSERT z] ex
    = Some ([result_ok ''1 row inserted'', result_error (snprintf 256 (''Duplicate primary key: '' @ show_int 0))], ex')"
proof -
  let ?R = "snd (sp_insert s R)"
  have c: "c < length (rel_columns R)" by (rule key_pos_less [OF assms(4)])
  then have sp: "fst (sp_insert s R) = result_ok ''1 row inserted''" "rel_columns ?R = rel_columns R" "0 \<in> rel_keys ?R"
    using assms(4-7) by (simp_all add: sp_insert_def Let_def literal_value_def)
  obtain ex1 db1 where 1: "execute os (INSERT s) ex = Some (result_ok ''1 row inserted'', ex1)" "exec_inv ex1"
      "ex_current_db ex1 = Some db1" "abs_db db1 (ins_table_name z) = Some ?R"
    using execute_on_relation [OF assms(1) _ assms(2,3), of "INSERT s" "sp_insert s" os] assms(5,6,12) sp by auto
  have "fst (sp_insert z ?R) = result_error (snprintf 256 (''Duplicate primary key: '' @ show_int 0))"
    using sp(2,3) assms(4,8-11) c by (simp add: sp_insert_def [of z] Let_def literal_value_def)
  then show ?thesis
    using 1(1) execute_on_relation [OF 1(2) _ 1(3,4), of "INSERT z" "sp_insert z" os] assms(8,9) by auto
qed

theorem text_key_blocks_zero_witness:
  "\<exists>ex'. run_statements mem_os [INSERT \<lparr>ins_table_name = ''t'', ins_values = [''x'', ''y''], ins_is_int = [False, False]\<rparr>,
      INSERT \<lparr>ins_table_name = ''t'', ins_values = [''0'', ''y''], ins_is_int = [True, False]\<rparr>] sample_exec
    = Some ([result_ok ''1 row inserted'', result_error (snprintf 256 (''Duplicate primary key: '' @ show_int 0))], ex')"
proof -
  let ?s = "\<lparr>ins_table_name = ''t'', ins_values = [''x'', ''y''], ins_is_int = [False, False]\<rparr>"
  let ?z = "\<lparr>ins_table_name = ''t'', ins_values = [''0'', ''y''], ins_is_int = [True, False]\<rparr>"
  let ?R = "abs_table sample_table_state (db_indexes (the (ex_current_db sample_exec)) ! 0)"
  have R: "abs_db (the (ex_current_db sample_exec)) (ins_table_name ?s) = Some ?R" using sample_relation(1) by simp
  have key: "key_pos (rel_columns ?R) = Some 0" using sample_key by simp
  have cols: "length (rel_columns ?R) = 2"
  proof -
    have "length (tb_columns sample_table_state) = 2" by code_simp
    then show ?thesis by simp
  qed
  have zero: "atoi (ins_values ?z ! 0) = 0" by code_simp
  show ?thesis
    using text_key_blocks_zero [OF sample_exec_inv(1) sample_state(1) R key, of ?z mem_os] cols zero by simp
qed

text \<open>C38. Where integrity ends, 2: an UPDATE of the key column, with any WHERE on a column of the
  table, writes the value to the key of every selected row without a check, so all of them get
  the same one, and leaves the other rows as they are. The keys the rows had stay in the index;
  the new one is entered when it is an integer literal, and a text is not.\<close>

theorem key_update_duplicates:
  assumes "exec_inv ex" and "ex_current_db ex = Some db" and "abs_db db (upd_table_name s) = Some R"
    and "key_pos (rel_columns R) = Some c" and "column_pos (rel_columns R) (upd_set_column s) = Some c"
    and "unknown_column R None (upd_where s) = None"
    and "\<forall>r \<in> set (rel_rows R). c < length r"
  shows "\<exists>res ex' db' R'. execute os (UPDATE s) ex = Some (res, ex') \<and> res_status res = OK
    \<and> ex_current_db ex' = Some db' \<and> abs_db db' (upd_table_name s) = Some R'
    \<and> length (rel_rows R') = length (rel_rows R)
    \<and> (\<forall>i < length (rel_rows R).
         if satisfies (rel_columns R) (upd_where s) (rel_rows R ! i)
         then rel_rows R' ! i ! c = literal_value (upd_set_is_int s) (upd_set_value s)
         else rel_rows R' ! i = rel_rows R ! i)
    \<and> rel_keys R' = rel_keys R \<union>
        (if upd_set_is_int s \<and> (\<exists>r \<in> set (rel_rows R). satisfies (rel_columns R) (upd_where s) r)
         then {atoi (upd_set_value s)} else {})"
proof -
  let ?v = "literal_value (upd_set_is_int s) (upd_set_value s)"
  have known: "unknown_column R (Some (upd_set_column s)) (upd_where s) = None"
    using assms(5,6) by (simp add: unknown_column_def split: option.splits)
  have "new_keys True ?v (filter (satisfies (rel_columns R) (upd_where s)) (rel_rows R))
      = (if upd_set_is_int s \<and> (\<exists>r \<in> set (rel_rows R). satisfies (rel_columns R) (upd_where s) r) then {atoi (upd_set_value s)} else {})"
    by (auto simp: new_keys_def literal_value_def filter_empty_conv)
  then have "res_status (fst (sp_update s R)) = OK"
    "rel_rows (snd (sp_update s R)) = map (\<lambda>r. if satisfies (rel_columns R) (upd_where s) r then r[c := ?v] else r) (rel_rows R)"
    "rel_keys (snd (sp_update s R)) = rel_keys R \<union>
      (if upd_set_is_int s \<and> (\<exists>r \<in> set (rel_rows R). satisfies (rel_columns R) (upd_where s) r) then {atoi (upd_set_value s)} else {})"
    using assms(4,5) by (simp_all add: sp_update_def known Let_def result_ok_def)
  moreover obtain ex' db' where "execute os (UPDATE s) ex = Some (fst (sp_update s R), ex')" "ex_current_db ex' = Some db'"
      "abs_db db' = (abs_db db)(upd_table_name s \<mapsto> snd (sp_update s R))"
    using execute_on_relation [OF assms(1) _ assms(2,3), of "UPDATE s" "sp_update s" os] by auto
  ultimately show ?thesis using assms(7) by simp
qed

theorem key_update_duplicates_witness:
  "\<exists>res ex' db' R'. execute mem_os (UPDATE \<lparr>upd_table_name = ''t'', upd_set_column = ''id'', upd_set_value = ''7'',
      upd_set_is_int = True, upd_where = None\<rparr>) sample_exec = Some (res, ex') \<and> res_status res = OK
     \<and> ex_current_db ex' = Some db' \<and> abs_db db' ''t'' = Some R'
     \<and> (\<forall>i < length (tb_rows sample_table_state). rel_rows R' ! i ! 0 = V_INT 7)"
proof -
  let ?s = "\<lparr>upd_table_name = ''t'', upd_set_column = ''id'', upd_set_value = ''7'', upd_set_is_int = True, upd_where = None\<rparr>"
  let ?R = "abs_table sample_table_state (db_indexes (the (ex_current_db sample_exec)) ! 0)"
  have R: "abs_db (the (ex_current_db sample_exec)) (upd_table_name ?s) = Some ?R" using sample_relation(1) by simp
  have "column_pos (tb_columns sample_table_state) ''id'' = Some 0"
    "list_all (\<lambda>r. 0 < length r) (tb_rows sample_table_state)" "literal_value True ''7'' = V_INT 7" by (code_simp)+
  then show ?thesis
    using key_update_duplicates [OF sample_exec_inv(1) sample_state(1) R, of 0 mem_os] sample_key
    by (auto simp: list_all_iff unknown_column_def satisfies_def)
qed

text \<open>An integer literal as the code reads it: \<open>atoi\<close> is \<open>strtol\<close>, which stops at \<open>2 ^ 63 - 1\<close>, cut to 32 bits.\<close>

definition literal_bits :: "int \<Rightarrow> int" where
  "literal_bits n = (if n < 2 ^ 63 then n mod 2 ^ 32 else 2 ^ 32 - 1)"

lemma atoi_bits:
  assumes "ds \<noteq> []" and "list_all is_digit ds"
  shows "atoi ds = wrap32 (literal_bits (horner_digits 0 ds))"
proof -
  have "wrap32 (n mod 2 ^ 32) = wrap32 n" for n :: int by (simp add: wrap32_def mod_add_left_eq)
  moreover have "wrap32 (2 ^ 32 - 1) = - 1" by (simp add: wrap32_def)
  ultimately show ?thesis using atoi_decimal [OF assms] by (simp add: literal_bits_def)
qed

text \<open>C29. Integer literals beyond 32 bits alias: the value of a literal of decimal digits is its number
  cut to the low 32 bits, taken as signed, below \<open>2 ^ 63\<close>, and -1 from there on. So an INSERT is
  executed exactly as the one with any other literal with the same bits: the same row, the same
  key, the same refusal of a duplicate.\<close>

theorem integer_literals_alias:
  assumes "a \<noteq> []" "list_all is_digit a" and "b \<noteq> []" "list_all is_digit b"
    and "literal_bits (horner_digits 0 a) = literal_bits (horner_digits 0 b)"
    and "length (ins_values s) = length (ins_is_int s)" and "ins_is_int s ! i"
  shows "literal_value True a = V_INT (wrap32 (literal_bits (horner_digits 0 a)))
    \<and> execute os (INSERT (s\<lparr>ins_values := (ins_values s)[i := a]\<rparr>)) ex
      = execute os (INSERT (s\<lparr>ins_values := (ins_values s)[i := b]\<rparr>)) ex"
proof -
  let ?a = "s\<lparr>ins_values := (ins_values s)[i := a]\<rparr>" and ?b = "s\<lparr>ins_values := (ins_values s)[i := b]\<rparr>"
  have same: "atoi a = atoi b" using atoi_bits [OF assms(1,2)] atoi_bits [OF assms(3,4)] assms(5) by simp
  have "map2 literal_value (ins_is_int s) ((ins_values s)[i := a]) = map2 literal_value (ins_is_int s) ((ins_values s)[i := b])"
  proof (rule nth_equalityI)
    fix j assume "j < length (map2 literal_value (ins_is_int s) ((ins_values s)[i := a]))"
    then show "map2 literal_value (ins_is_int s) ((ins_values s)[i := a]) ! j
        = map2 literal_value (ins_is_int s) ((ins_values s)[i := b]) ! j"
      using assms(7) same by (cases "j = i") (simp_all add: literal_value_def)
  qed simp
  then have row: "build_row ?a = build_row ?b"
    using assms(6) by (simp add: build_row_values)
  have "ins_table_name ?a = ins_table_name ?b" "length (ins_values ?a) = length (ins_values ?b)" by simp_all
  then have "execute os (INSERT ?a) ex = execute os (INSERT ?b) ex" by (simp only: execute.simps exec_insert_def row)
  then show ?thesis using atoi_bits [OF assms(1,2)] by (simp add: literal_value_def)
qed

theorem integer_literals_alias_witness:
  "\<exists>ex'. execute mem_os (INSERT \<lparr>ins_table_name = ''t'', ins_values = [''4294967297'', ''c''], ins_is_int = [True, False]\<rparr>) sample_exec
     = Some (result_error (snprintf 256 (''Duplicate primary key: '' @ show_int 1)), ex')"
proof -
  let ?s = "\<lparr>ins_table_name = ''t'', ins_values = [[], ''c''], ins_is_int = [True, False]\<rparr>"
  have a: "list_all is_digit ''4294967297''" "list_all is_digit ''1''" "literal_bits (horner_digits 0 ''4294967297'') = literal_bits (horner_digits 0 ''1'')"
    by (simp_all add: is_digit_def digit_val_def literal_bits_def)
  have "fst (the (execute mem_os (INSERT \<lparr>ins_table_name = ''t'', ins_values = [''1'', ''c''], ins_is_int = [True, False]\<rparr>) sample_exec))
      = result_error (snprintf 256 (''Duplicate primary key: '' @ show_int 1))
      \<and> execute mem_os (INSERT \<lparr>ins_table_name = ''t'', ins_values = [''1'', ''c''], ins_is_int = [True, False]\<rparr>) sample_exec \<noteq> None"
    by code_simp
  then obtain ex' where one: "execute mem_os (INSERT \<lparr>ins_table_name = ''t'', ins_values = [''1'', ''c''], ins_is_int = [True, False]\<rparr>) sample_exec
      = Some (result_error (snprintf 256 (''Duplicate primary key: '' @ show_int 1)), ex')" by auto
  show ?thesis
    using integer_literals_alias [of "''4294967297''" "''1''" ?s 0 mem_os sample_exec] a one by auto
qed

end
