(* ===== verification/Sessions.thy ===== *)
theory Sessions
  imports Key_Integrity Sql_Print
begin

text \<open>
  The engine over time: sessions of SQL texts and the types they keep, and the life of a
  database (selected, saved, dropped). The lemmas tie the engine's state to the files: every table of a reachable state
  has a file path of its own, so what a switch or a shutdown saves can be loaded back.
\<close>

section \<open>Files\<close>

lemma data_paths:
  assumes "db_inv db" and "paths_ok db"
  shows "distinct (map tb_data_path (db_tables db))"
    and "t \<in> set (db_tables db) \<Longrightarrow> tb_data_path t = tb_data_path (table_new_in (tb_name t) (db_data_dir db))"
proof -
  have "map tb_data_path (db_tables db) = map (\<lambda>n. db_data_dir db @ ''/'' @ n @ ''.dat'') (map tb_name (db_tables db))"
    using assms(2) by (simp add: paths_ok_def)
  moreover have "map tb_name (db_tables db) = db_table_names db" "distinct (db_table_names db)"
    using assms(1) by (simp_all add: db_inv_def)
  moreover have "inj_on (\<lambda>n. db_data_dir db @ ''/'' @ n @ ''.dat'') X" for X by (auto simp: inj_on_def)
  ultimately show "distinct (map tb_data_path (db_tables db))" by (simp add: distinct_map)
  show "t \<in> set (db_tables db) \<Longrightarrow> tb_data_path t = tb_data_path (table_new_in (tb_name t) (db_data_dir db))"
    using assms(2) by (simp add: paths_ok_def)
qed

lemma saved_state:
  assumes "exec_inv ex" and "ex_current_db ex = Some db" and "reads_back os" and "keeps_others os"
    and "fst (save_all os db (ex_world ex))" and "t \<in> set (db_tables db)"
  shows "os_read os (tb_data_path t) (snd (save_all os db (ex_world ex))) = Some (table_text t)"
proof -
  have "save_tables os (db_tables db) (ex_world ex) = (True, snd (save_all os db (ex_world ex)))"
    using assms(5) by (auto simp: save_all_def split: if_splits) (metis prod.collapse)
  then show ?thesis
    using save_tables_reads [OF assms(3,4) data_paths(1)] exec_inv_db [OF assms(1,2)] assms(6) by blast
qed

section \<open>Properties\<close>

text \<open>The statements a list of texts gives; those that do not parse are INVALID.\<close>

definition statements_of :: "string list \<Rightarrow> sql_statement list" where
  "statements_of sqls = map (\<lambda>s. the (parse_sql (Some s))) sqls"

text \<open>Whole sessions of SQL texts: starting a new engine and executing any texts one after the
  other (those that do not parse give an INVALID statement) is defined, returns one result per
  text, and answers as a run of the specification does.\<close>

lemma sessions_run:
  "\<exists>oks rs ex'. run_statements os (statements_of sqls) (executor_new os root w) = Some (rs, ex')
     \<and> exec_inv ex' \<and> length rs = length sqls
     \<and> sp_run oks (statements_of sqls) (abs_session (executor_new os root w)) = (rs, abs_session ex')"
proof -
  have "stmt_wf (the (parse_sql (Some s)))" for s
    using parse_sql_total [of "Some s"] is_error_wf by fastforce
  then have "list_all stmt_wf (statements_of sqls)" by (simp add: statements_of_def list_all_iff)
  from run_refines [OF exec_inv_new this, of os os root w] obtain oks rs ex'
    where r: "run_statements os (statements_of sqls) (executor_new os root w) = Some (rs, ex')" "exec_inv ex'"
      "sp_run oks (statements_of sqls) (abs_session (executor_new os root w)) = (rs, abs_session ex')" by blast
  have "run_statements os sts ex = Some (qs, ex') \<Longrightarrow> length qs = length sts" for sts ex qs
    by (induction sts arbitrary: ex qs) auto
  from this [OF r(1)] have "length rs = length sqls" by (simp add: statements_of_def)
  with r show ?thesis by blast
qed

text \<open>What a statement can put into a cell.\<close>

definition sql_cell :: "svalue \<Rightarrow> bool" where
  "sql_cell v = (case v of V_INT i \<Rightarrow> in_int32 i | V_STRING s \<Rightarrow> DQUOTE \<notin> set s \<and> NUL \<notin> set s | V_NONE \<Rightarrow> False)"

lemma stmt_ok_sql_typed: "is_error st \<or> stmt_ok st \<Longrightarrow> stmt_typed (\<lambda>c. ident (col_name c)) sql_cell st"
proof -
  assume st: "is_error st \<or> stmt_ok st"
  have wh: "pred_option where_ok w \<Longrightarrow> \<forall>(v, b) \<in> set (where_literals w). literal_ok v b" for w
    by (cases w) (auto simp: where_ok_def)
  have lit: "sql_cell (literal_value b v)" if "literal_ok v b" for v b
    using that by (cases b) (simp_all add: sql_cell_def literal_value_def literal_ok_def)
  have "stmt_ok st \<Longrightarrow> \<forall>(v, b) \<in> set (stmt_literals st). literal_ok v b"
    using wh by (cases st) (auto simp: list_all2_iff)
  moreover have "stmt_ok st \<Longrightarrow> \<forall>c \<in> set (stmt_columns st). ident (col_name c)"
    by (cases st) (auto simp: convert_column_def list_all_iff column_ok_def)
  ultimately show ?thesis using st lit stmt_ok_wf by (fastforce simp: stmt_typed_def is_error_def)
qed

text \<open>C18. The types a session keeps: after any texts executed one after the other, every row of every
  table has exactly one value per column of the schema, each value is a 32-bit integer or a text
  that holds no quote and no terminator, never NONE, and every column has the name of an
  identifier. (The kind of a value need not be the type of its column.)\<close>

theorem tables_stay_typed:
  assumes "run_statements os (statements_of sqls) (executor_new os root w) = Some (rs, ex)"
    and "ex_current_db ex = Some db" and "t \<in> set (db_tables db)"
  shows "(\<forall>r \<in> set (tb_rows t). length r = length (tb_columns t)
      \<and> (\<forall>v \<in> set r. (\<exists>i. v = V_INT i \<and> in_int32 i) \<or> (\<exists>s. v = V_STRING s \<and> DQUOTE \<notin> set s \<and> NUL \<notin> set s)))
    \<and> (\<forall>c \<in> set (tb_columns t). ident (col_name c))"
proof -
  have "is_error st \<or> stmt_ok st" if st: "st \<in> set (statements_of sqls)" for st
  proof -
    obtain s where "st = the (parse_sql (Some s))" using st by (auto simp: statements_of_def)
    then show ?thesis using parse_sql_total [of "Some s"] by auto
  qed
  then have "list_all (stmt_typed (\<lambda>c. ident (col_name c)) sql_cell) (statements_of sqls)"
    by (auto simp: list_all_iff intro: stmt_ok_sql_typed)
  from run_keeps_typed [OF exec_inv_new session_typed_new this assms(1)]
  have ex: "exec_inv ex" "session_typed (\<lambda>c. ident (col_name c)) sql_cell (abs_session ex)" by simp_all
  obtain i where i: "i < length (db_tables db)" "t = db_tables db ! i" using assms(3) by (auto simp: in_set_conv_nth)
  have inv: "db_inv db" using exec_inv_db [OF ex(1) assms(2)] by blast
  then have "get_table db (db_table_names db ! i) = Some i" using i(1) get_table_nth [of db i] by (simp add: db_inv_def)
  then have "abs_db db (db_table_names db ! i) = Some (abs_table t (db_indexes db ! i))" using i(2) abs_db_Some by simp
  then have "rows_typed (\<lambda>c. ident (col_name c)) sql_cell (tb_columns t) (tb_rows t)"
    using ex(2) assms(2) by (fastforce simp: session_typed_def db_typed_def relation_typed_def)
  moreover have "sql_cell v \<Longrightarrow> (\<exists>i. v = V_INT i \<and> in_int32 i) \<or> (\<exists>s. v = V_STRING s \<and> DQUOTE \<notin> set s \<and> NUL \<notin> set s)" for v
    by (cases v) (simp_all add: sql_cell_def)
  ultimately show ?thesis by (simp add: rows_typed_def)
qed

text \<open>A text in an integer column.\<close>

definition loose_texts :: "string list" where
  "loose_texts = [''use d'', ''create table t (n int)'', ''insert into t values ('' @ [DQUOTE, CHR ''x'', DQUOTE] @ '')'']"

definition loose_exec :: "mem_fs executor" where
  "loose_exec = snd (the (run_statements mem_os (statements_of loose_texts) (executor_new mem_os ''data'' mem_empty)))"

definition loose_table :: table where
  "loose_table = hd (db_tables (the (ex_current_db loose_exec)))"

theorem tables_stay_typed_witness:
  "tb_rows loose_table = [[V_STRING ''x'']] \<and> map col_type (tb_columns loose_table) = [CT_INT]
   \<and> length (tb_columns loose_table) = length (hd (tb_rows loose_table))"
proof -
  obtain rs where run: "run_statements mem_os (statements_of loose_texts) (executor_new mem_os ''data'' mem_empty) = Some (rs, loose_exec)"
    using sessions_run [of mem_os loose_texts "''data''" mem_empty] by (auto simp: loose_exec_def)
  have db: "ex_current_db loose_exec \<noteq> None" "loose_table \<in> set (db_tables (the (ex_current_db loose_exec)))" by code_simp+
  have rows: "tb_rows loose_table = [[V_STRING ''x'']]" "map col_type (tb_columns loose_table) = [CT_INT]" by code_simp+
  show ?thesis
    using tables_stay_typed [OF run _ db(2)] db(1) rows by auto
qed

text \<open>C39. USE forgets, and the next save overwrites: the database it selects has no tables, whatever was
  saved under its name, so any statement on any table is answered that the table does not exist;
  a CREATE TABLE under the name of a saved table succeeds, and if the saving at the next shutdown
  succeeds, the table's file holds the empty table, whatever it held before.\<close>

theorem use_forgets_saved_tables:
  assumes "n \<noteq> []" and "reads_back os" and "keeps_others os"
    and "dir = make_db_path (ex_data_root ex) n" and "name = ct_table_name s"
    and "fresh = (table_new_in name dir)\<lparr>tb_columns := map convert_column (ct_columns s)\<rparr>"
  shows "\<exists>ex1 ex2 db. execute os (USE n) ex = Some (result_ok (snprintf 512 (''Using database '' @ squote n)), ex1)
    \<and> (\<forall>st t. table_name_of st = Some t \<longrightarrow> execute os st ex1 = Some (no_table t, ex1))
    \<and> execute os (CREATE_TABLE s) ex1 = Some (result_ok (snprintf 512 (''Table '' @ squote name @ '' created'')), ex2)
    \<and> ex_current_db ex2 = Some db
    \<and> (fst (save_all os db (ex_world ex2)) \<longrightarrow> os_read os (tb_data_path fresh) (ex_world (shutdown os ex2)) = Some (table_text fresh))"
proof -
  let ?db1 = "set_data_dir dir (database_new n)"
  let ?db2 = "snd (create_table name (map convert_column (ct_columns s)) ?db1)"
  obtain ex1 where ex1: "execute os (USE n) ex = Some (result_ok (snprintf 512 (''Using database '' @ squote n)), ex1)"
      "exec_inv ex1" "ex_current_db ex1 = Some ?db1"
    using exec_use_refines [OF assms(1), of ex os True] assms(4) by (auto simp: refines_def exec_use_def make_db_path_def Let_def)
  have none: "get_table ?db1 t = None" for t by (simp add: get_table_def set_data_dir_def database_new_def)
  have "ex1\<lparr>ex_current_db := Some ?db1, ex_world := ex_world ex1\<rparr> = ex1" using ex1(3) by simp
  then have unknown: "execute os st ex1 = Some (no_table t, ex1)" if "table_name_of st = Some t" for st t
    using that ex1(2,3) none
    by (cases st) (simp_all add: exec_drop_table_def exec_select_def exec_delete_def exec_insert_def exec_update_def
        on_db_cases on_table_cases drop_table_missing)
  let ?ex2 = "ex1\<lparr>ex_current_db := Some ?db2\<rparr>"
  have created: "execute os (CREATE_TABLE s) ex1 = Some (result_ok (snprintf 512 (''Table '' @ squote name @ '' created'')), ?ex2)"
    using ex1(2,3) assms(5) by (simp add: exec_create_table_def on_db_cases create_table_new [OF none] Let_def)
  then have inv: "exec_inv ?ex2" using exec_create_table_refines [OF ex1(2), of s] by (simp add: refines_def)
  have fresh: "fresh \<in> set (db_tables ?db2)"
    unfolding assms(6) create_table_new [OF none] by (simp add: set_data_dir_def database_new_def)
  have saved: "os_read os (tb_data_path fresh) (ex_world (shutdown os ?ex2)) = Some (table_text fresh)"
    if "fst (save_all os ?db2 (ex_world ?ex2))"
    using saved_state [OF inv _ assms(2,3) that fresh] by (simp add: shutdown_def)
  show ?thesis
    using ex1(1) unknown created saved
    by (intro exI [of _ ex1] exI [of _ ?ex2] exI [of _ ?db2]) simp
qed

theorem use_forgets_saved_tables_witness:
  "\<exists>ex1. execute mem_os (USE ''d'') sample_exec = Some (result_ok (snprintf 512 (''Using database '' @ squote ''d'')), ex1)
     \<and> execute mem_os (SELECT sample_select) ex1 = Some (no_table ''t'', ex1)"
proof -
  have "table_name_of (SELECT sample_select) = Some ''t''" by (simp add: sample_select_def)
  then show ?thesis
    using use_forgets_saved_tables [OF _ mem_os_laws(1,2) refl refl refl, of "''d''" sample_exec
        "\<lparr>ct_table_name = ''t'', ct_columns = sample_columns\<rparr>"] by blast
qed

lemma shutdown_loads:
  assumes "exec_inv ex" and "ex_current_db ex = Some db" and "reads_back os" and "keeps_others os"
    and "fst (save_all os db (ex_world ex))" and "t \<in> set (db_tables db)" and "persistable t"
  shows "\<exists>u. load_from_file os (table_new_in (tb_name t) (ex_data_root ex @ ''/'' @ current_db_name ex)) (ex_world (shutdown os ex))
      = (True, u) \<and> tb_columns u = tb_columns t \<and> tb_rows u = tb_rows t"
proof -
  note db = exec_inv_db [OF assms(1,2)]
  have dir: "db_data_dir db = ex_data_root ex @ ''/'' @ current_db_name ex"
    using db by (simp add: make_db_path_def current_db_name_def)
  have "os_read os (tb_data_path t) (ex_world (shutdown os ex)) = Some (table_text t)"
    using saved_state [OF assms(1-6)] assms(2) by (simp add: shutdown_def)
  moreover have "tb_data_path (table_new_in (tb_name t) (ex_data_root ex @ ''/'' @ current_db_name ex)) = tb_data_path t"
    using data_paths(2) [of db t] db assms(6) unfolding dir by simp
  ultimately show ?thesis
    unfolding load_from_file_def by (simp add: load_text_table_text [OF assms(7)] del: table_new_in_simps(4))
qed

text \<open>C21. Shutdown makes the tables durable: on a file system where a write is read back and leaves
  other files alone, if the saving succeeds, every table the text format can represent is
  loaded, under its name and the database's directory, with its schema and rows.\<close>

theorem shutdown_is_durable:
  assumes "exec_inv ex" and "ex_current_db ex = Some db" and "reads_back os" and "keeps_others os"
    and "fst (save_all os db (ex_world ex))" and "t \<in> set (db_tables db)" and "persistable t"
  shows "\<exists>u. load_from_file os (table_new_in (tb_name t) (ex_data_root ex @ ''/'' @ current_db_name ex)) (ex_world (shutdown os ex))
      = (True, u) \<and> tb_columns u = tb_columns t \<and> tb_rows u = tb_rows t"
  by (rule shutdown_loads [OF assms])

theorem shutdown_is_durable_witness:
  "\<exists>u. load_from_file mem_os (table_new_in ''t'' ''data/d'') (ex_world (shutdown mem_os sample_exec)) = (True, u)
     \<and> tb_rows u = [[V_INT 1, V_STRING ''a''], [V_INT 2, V_STRING ''b'']]"
proof -
  have s: "fst (save_all mem_os (the (ex_current_db sample_exec)) (ex_world sample_exec))"
    "sample_table_state \<in> set (db_tables (the (ex_current_db sample_exec)))" "persistable sample_table_state"
    "tb_name sample_table_state = ''t''" "ex_data_root sample_exec @ ''/'' @ current_db_name sample_exec = ''data/d''"
    "tb_rows sample_table_state = [[V_INT 1, V_STRING ''a''], [V_INT 2, V_STRING ''b'']]"
    by (code_simp)+
  show ?thesis
    using shutdown_is_durable [OF sample_exec_inv(1) sample_state(1) mem_os_laws(1,2) s(1-3)] s(4-6) by auto
qed

text \<open>C40. DROP DATABASE of the selected database fails once it has a table: its tables are saved
  first, and a directory with a file in it cannot be removed. The database is deselected all
  the same.\<close>

theorem drop_selected_database_fails:
  assumes "exec_inv ex" and "ex_current_db ex = Some db" and "reads_back os" and "keeps_others os" and "rmdir_needs_empty os"
    and "fst (save_all os db (ex_world ex))" and "db_tables db \<noteq> []" and "n = ex_current_db_name ex"
  shows "\<exists>ex'. execute os (DROP_DATABASE n) ex = Some (result_error (snprintf 512 (''Failed to drop database '' @ squote n)), ex')
    \<and> ex_current_db ex' = None"
proof -
  let ?w = "snd (save_all os db (ex_world ex))"
  obtain t where t: "t \<in> set (db_tables db)" using assms(7) by (cases "db_tables db") auto
  note db = exec_inv_db [OF assms(1,2)]
  have "tb_data_path t = (ex_data_root ex @ ''/'' @ n) @ ''/'' @ (tb_name t @ ''.dat'')"
    using db t assms(8) by (simp add: paths_ok_def make_db_path_def)
  then have "os_read os ((ex_data_root ex @ ''/'' @ n) @ ''/'' @ (tb_name t @ ''.dat'')) ?w \<noteq> None"
    using saved_state [OF assms(1-4,6) t] by simp
  then have "\<not> fst (os_rmdir os (ex_data_root ex @ ''/'' @ n) ?w)"
    using assms(5) unfolding rmdir_needs_empty_def by blast
  then show ?thesis
    using assms(2,8) by (auto simp: exec_drop_database_def split: prod.split)
qed

theorem drop_selected_database_fails_witness:
  "\<exists>ex'. execute mem_os (DROP_DATABASE ''d'') sample_exec
     = Some (result_error (snprintf 512 (''Failed to drop database '' @ squote ''d'')), ex') \<and> ex_current_db ex' = None"
proof -
  have s: "fst (save_all mem_os (the (ex_current_db sample_exec)) (ex_world sample_exec))"
    "db_tables (the (ex_current_db sample_exec)) \<noteq> []" "''d'' = ex_current_db_name sample_exec"
    by (code_simp)+
  show ?thesis
    by (rule drop_selected_database_fails [OF sample_exec_inv(1) sample_state(1) mem_os_laws s])
qed

end
