(* ===== verification/Server.thy ===== *)
theory Server
  imports Protocol Sessions
begin

text \<open>
  The network layer (src/network/server.cpp, client.cpp): line transport, the client's
  request, one request at the server, and the server's accept and request loops as a step
  relation. The sockets are the environment: the bytes a client has sent are a string, and a
  \<open>write\<close> may fail or end the process (a broken pipe). A request is specified by \<open>sp_request\<close>, on the abstract session; the
  reachable states keep the engine's invariant and tables of what a request can bring into
  them, so no request is undefined and each gets the reply of the specification.
\<close>

section \<open>Lines\<close>

definition max_msg :: nat where
  "max_msg = 8192"

text \<open>
  \<open>recv_line\<close> reads byte by byte: up to \<open>MAX_MSG - 1\<close> bytes are kept, a line feed or the end
  of the stream stops it, carriage returns are skipped.
\<close>

fun recv_loop :: "nat \<Rightarrow> string \<Rightarrow> string \<times> string" where
  "recv_loop 0 s = ([], s)"
| "recv_loop (Suc n) [] = ([], [])"
| "recv_loop (Suc n) (c # cs) =
     (if c = LF then ([], cs)
      else if c = CR then recv_loop (Suc n) cs
      else (let (l, r) = recv_loop n cs in (c # l, r)))"

definition recv_line :: "string \<Rightarrow> string \<times> string" where
  "recv_line s = (let (l, r) = recv_loop (max_msg - 1) s in (c_str l, r))"

text \<open>
  \<open>send_line\<close> writes the message, then a line feed; \<open>n1\<close> and \<open>n2\<close> are what the two calls of
  \<open>write\<close> return. Negative is a failure; a short write is not noticed.
\<close>

definition send_line :: "int \<Rightarrow> int \<Rightarrow> string \<Rightarrow> string \<Rightarrow> bool \<times> string" where
  "send_line n1 n2 msg out =
     (if n1 < 0 then (False, out)
      else if n2 < 0 then (False, out @ take (nat n1) msg)
      else (True, out @ take (nat n1) msg @ take (nat n2) [LF]))"

text \<open>
  client.cpp has copies of its own of the two functions, in its static \<open>recv_line\<close> and
  \<open>send_line\<close>; the two ends agree on what a line is as long as the copies do.
\<close>

fun client_recv_loop :: "nat \<Rightarrow> string \<Rightarrow> string \<times> string" where
  "client_recv_loop 0 s = ([], s)"
| "client_recv_loop (Suc n) [] = ([], [])"
| "client_recv_loop (Suc n) (c # cs) =
     (if c = LF then ([], cs)
      else if c = CR then client_recv_loop (Suc n) cs
      else (let (l, r) = client_recv_loop n cs in (c # l, r)))"

definition client_max_msg :: nat where
  "client_max_msg = 8192"

definition client_recv_line :: "string \<Rightarrow> string \<times> string" where
  "client_recv_line s = (let (l, r) = client_recv_loop (client_max_msg - 1) s in (c_str l, r))"

definition client_send_line :: "int \<Rightarrow> int \<Rightarrow> string \<Rightarrow> string \<Rightarrow> bool \<times> string" where
  "client_send_line n1 n2 msg out =
     (if n1 < 0 then (False, out)
      else if n2 < 0 then (False, out @ take (nat n1) msg)
      else (True, out @ take (nat n1) msg @ take (nat n2) [LF]))"

lemma client_recv_loop_eq: "client_recv_loop = recv_loop"
proof (intro ext)
  show "client_recv_loop n s = recv_loop n s" for n s
    by (induction n s rule: recv_loop.induct) simp_all
qed

lemma client_lines [simp]:
  "client_max_msg = max_msg" "client_recv_line = recv_line" "client_send_line = send_line"
  by (simp_all add: fun_eq_iff client_max_msg_def max_msg_def client_recv_line_def recv_line_def
      client_recv_loop_eq client_send_line_def send_line_def)

section \<open>The client's messages\<close>

definition client_request :: "string \<Rightarrow> string" where
  "client_request sql = snprintf client_max_msg
     (CHR ''{'' # quoted ''type'' @ CHR '':'' # quoted ''sql'' @ CHR '','' # quoted ''sql'' @ CHR '':'' # quoted sql @ ''}'')"

definition exit_request :: string where
  "exit_request = CHR ''{'' # quoted ''type'' @ CHR '':'' # quoted ''exit'' @ ''}''"

definition connect_failed :: string where
  "connect_failed = serialize_status ''error'' ''Failed to connect to server''"

definition send_failed :: string where
  "send_failed = serialize_status ''error'' ''Failed to send request''"

text \<open>
  \<open>send_sql\<close>: \<open>connected\<close> is whether the connection was made, \<open>reply\<close> what the server's side
  of the stream then holds, given what was written.
\<close>

definition send_sql :: "bool \<Rightarrow> int \<Rightarrow> int \<Rightarrow> (string \<Rightarrow> string) \<Rightarrow> string \<Rightarrow> string" where
  "send_sql connected n1 n2 reply sql =
     (if \<not> connected then connect_failed
      else (let (ok, sent) = client_send_line n1 n2 (client_request sql) []
            in if \<not> ok then send_failed else fst (client_recv_line (reply sent))))"

definition send_exit :: "bool \<Rightarrow> int \<Rightarrow> int \<Rightarrow> (string \<Rightarrow> string) \<Rightarrow> string" where
  "send_exit connected n1 n2 reply =
     (if \<not> connected then []
      else (let (ok, sent) = client_send_line n1 n2 exit_request [] in fst (client_recv_line (reply sent))))"

section \<open>One request at the server\<close>

datatype reply = Goodbye (reply_text: string) | Reply (reply_text: string)

definition handle_request :: "'w os \<Rightarrow> string \<Rightarrow> 'w executor \<Rightarrow> (reply \<times> 'w executor) option" where
  "handle_request os request ex =
     (if is_exit_request request then Some (Goodbye (serialize_status ''ok'' ''goodbye''), ex)
      else (let sql = parse_request_sql request
            in if sql = []
               then Some (Reply (serialize_error (''Invalid request: missing '' @ squote ''sql'' @ '' field'')), ex)
               else do {
                 stmt \<leftarrow> parse_sql (Some sql);
                 case stmt of
                   INVALID e \<Rightarrow> Some (Reply (serialize_error (if e = [] then ''Parse error'' else e)), ex)
                 | _ \<Rightarrow> do {
                     (result, ex1) \<leftarrow> execute os stmt ex;
                     response \<leftarrow> serialize_exec_result result (ex_result ex1);
                     Some (Reply response, ex1)
                   }
               }))"

section \<open>The server loop\<close>

datatype phase = Listening | Connected | Stopped | Killed

record 'w server =
  sv_phase :: phase
  sv_input :: string
  sv_output :: string
  sv_exec :: "'w executor"

definition default_data_root :: string where
  "default_data_root = ''data''"

definition server_start :: "'w os \<Rightarrow> 'w \<Rightarrow> 'w server" where
  "server_start os w = \<lparr>sv_phase = Listening, sv_input = [], sv_output = [],
     sv_exec = executor_new os default_data_root w\<rparr>"

text \<open>
  \<open>accept\<close> connects a client, whose bytes are any string, or fails; an empty line (or the
  end of the stream) ends the connection; an exit request is answered, whether or not the
  answer is written, and stops the server, which saves; any other request is answered, and
  a failed write ends the connection.
  The code does not ignore SIGPIPE, so a write to a connection whose client is gone need not
  fail: it may end the process, with no, a part or all of the response written, and the
  executor then goes as it is. A client may leave at any moment, also between its request and the
  answer, so the state does not record whether it has.
\<close>

inductive server_step :: "'w os \<Rightarrow> 'w server \<Rightarrow> 'w server \<Rightarrow> bool" for os where
  accept: "sv_phase s = Listening \<Longrightarrow>
    server_step os s (s\<lparr>sv_phase := Connected, sv_input := bytes, sv_output := []\<rparr>)"
| accept_fails: "sv_phase s = Listening \<Longrightarrow> server_step os s s"
| hang_up: "sv_phase s = Connected \<Longrightarrow> recv_line (sv_input s) = ([], rest) \<Longrightarrow>
    server_step os s (s\<lparr>sv_phase := Listening, sv_input := rest\<rparr>)"
| exit: "sv_phase s = Connected \<Longrightarrow> recv_line (sv_input s) = (request, rest) \<Longrightarrow> request \<noteq> [] \<Longrightarrow>
    handle_request os request (sv_exec s) = Some (Goodbye msg, ex) \<Longrightarrow>
    send_line n1 n2 msg (sv_output s) = (sent, out) \<Longrightarrow>
    server_step os s \<lparr>sv_phase = Stopped, sv_input = rest, sv_output = out, sv_exec = shutdown os ex\<rparr>"
| request: "sv_phase s = Connected \<Longrightarrow> recv_line (sv_input s) = (request, rest) \<Longrightarrow> request \<noteq> [] \<Longrightarrow>
    handle_request os request (sv_exec s) = Some (Reply msg, ex) \<Longrightarrow>
    send_line n1 n2 msg (sv_output s) = (sent, out) \<Longrightarrow>
    server_step os s \<lparr>sv_phase = (if sent then Connected else Listening), sv_input = rest,
      sv_output = out, sv_exec = ex\<rparr>"
| broken_pipe: "sv_phase s = Connected \<Longrightarrow> recv_line (sv_input s) = (request, rest) \<Longrightarrow> request \<noteq> [] \<Longrightarrow>
    handle_request os request (sv_exec s) = Some (r, ex) \<Longrightarrow>
    server_step os s \<lparr>sv_phase = Killed, sv_input = rest,
      sv_output = sv_output s @ take n (reply_text r), sv_exec = ex\<rparr>"

inductive server_reachable :: "'w os \<Rightarrow> 'w \<Rightarrow> 'w server \<Rightarrow> bool" for os w where
  start: "server_reachable os w (server_start os w)"
| step: "server_reachable os w s \<Longrightarrow> server_step os s t \<Longrightarrow> server_reachable os w t"

inductive_cases server_stepE: "server_step os s t"
inductive_simps server_step_iff: "server_step os s t"

section \<open>The transport\<close>

definition line_text :: "string \<Rightarrow> bool" where
  "line_text s \<longleftrightarrow> set s \<inter> {NUL, LF, CR} = {}"

lemma recv_loop_line:
  "line_text l \<Longrightarrow> length l < n \<Longrightarrow> recv_loop n (l @ LF # r) = (l, r)"
proof (induction l arbitrary: n)
  case Nil
  then show ?case by (cases n) (auto simp: line_text_def)
next
  case (Cons c l)
  then obtain m where "n = Suc m" by (cases n) auto
  with Cons show ?case by (auto simp: line_text_def)
qed

lemma recv_loop_full:
  "line_text l \<Longrightarrow> recv_loop (length l) (l @ r) = (l, r)"
  by (induction l) (auto simp: line_text_def)

lemma recv_loop_bound: "recv_loop n s = (l, r) \<Longrightarrow> length l \<le> n"
  by (induction n s arbitrary: l r rule: recv_loop.induct) (auto split: if_splits prod.splits)

lemma recv_line_text:
  assumes "line_text l" and "length l < max_msg"
  shows "recv_line (l @ LF # r) = (l, if length l < max_msg - 1 then r else LF # r)"
proof (cases "length l < max_msg - 1")
  case True
  then show ?thesis using assms by (simp add: recv_line_def recv_loop_line c_str_id line_text_def)
next
  case False
  then have "length l = max_msg - 1" using assms(2) by simp
  then show ?thesis using recv_loop_full [OF assms(1), of "LF # r"] assms(1) False
    by (simp add: recv_line_def c_str_id line_text_def)
qed

lemma client_request_prefix:
  "client_request sql = snprintf max_msg (request_prefix @ sql @ [DQUOTE, CHR ''}''])"
  by (simp add: client_request_def request_prefix_def quoted_def)

definition sql_room :: nat where
  "sql_room = max_msg - 1 - length request_prefix"

lemma request_prefix_length: "length request_prefix = 21"
  by (simp add: request_prefix_def quoted_def)

lemma client_request_take:
  "client_request sql = request_prefix @ take sql_room (sql @ [DQUOTE, CHR ''}''])"
  by (simp add: client_request_prefix snprintf_def sql_room_def request_prefix_length max_msg_def)

lemma takeWhile_take: "takeWhile P (take n s) = take n (takeWhile P s)"
  by (induction s arbitrary: n) (auto simp: take_Cons' split: if_splits)

text \<open>What the server reads as the SQL of a client's request.\<close>

lemma quote_in_take:
  "c \<notin> set v \<Longrightarrow> c \<in> set (take n (v @ c # t)) \<longleftrightarrow> length v < n"
  by (auto simp: take_Cons' dest: in_set_takeD split: if_splits)

lemma takeWhile_quoted: "takeWhile (\<lambda>x. x \<noteq> c) (s @ c # t) = takeWhile (\<lambda>x. x \<noteq> c) s"
  by (induction s) auto

lemma split_at_quote:
  "\<exists>u. s @ c # t = takeWhile (\<lambda>x. x \<noteq> c) s @ c # u"
  by (induction s) auto

lemma request_sql:
  "parse_request_sql (client_request sql)
   = (let v = takeWhile (\<lambda>c. c \<noteq> DQUOTE) sql in if length v < sql_room then v else [])"
proof -
  let ?v = "takeWhile (\<lambda>c. c \<noteq> DQUOTE) sql" and ?s = "sql @ DQUOTE # [CHR ''}'']"
  obtain u where u: "?s = ?v @ DQUOTE # u" using split_at_quote [of sql DQUOTE "[CHR ''}'']"] by blast
  have "DQUOTE \<notin> set ?v" by (auto dest: set_takeWhileD)
  then have here: "DQUOTE \<in> set (take sql_room ?s) \<longleftrightarrow> length ?v < sql_room"
    unfolding u by (rule quote_in_take)
  have until: "takeWhile (\<lambda>c. c \<noteq> DQUOTE) (take sql_room ?s) = take sql_room ?v"
    by (simp only: takeWhile_take takeWhile_quoted)
  show ?thesis
    unfolding client_request_take parse_request_prefix here until Let_def by simp
qed

text \<open>A request that is cut off on its way gives its whole SQL or none.\<close>

lemma json_get_string_subset: "set (json_get_string json k) \<subseteq> set json"
proof (cases "strstr json (snprintf 256 (DQUOTE # k @ [DQUOTE, CHR '':'', DQUOTE]))")
  case (Some t)
  then obtain u where "json = u @ t" using strstr_Some by blast
  then show ?thesis
    using Some by (auto simp: json_get_string_def Let_def dest!: in_set_takeD in_set_dropD split: option.splits)
qed (simp add: json_get_string_def Let_def)

lemma cut_prefix:
  assumes "k < 21"
  shows "parse_request_sql (take k request_prefix) = []" and "\<not> is_exit_request (take k request_prefix)"
proof -
  let ?p = "DQUOTE # ''sql'' @ [DQUOTE, CHR '':'', DQUOTE]"
  have "strstr (take 20 request_prefix) ?p = None" by (simp add: request_prefix_def quoted_def eval_nat_numeral)
  then have "strstr (take k (take 20 request_prefix)) ?p = None" by (rule strstr_take) simp
  moreover have "take k (take 20 request_prefix) = take k request_prefix" using assms by (simp add: min_def)
  ultimately have "json_get_string (take k request_prefix) ''sql'' = []"
    by (simp add: json_get_string_def snprintf_def Let_def)
  then show "parse_request_sql (take k request_prefix) = []" by (simp add: parse_request_sql_def Let_def)
  have "CHR ''x'' \<notin> set (take k request_prefix)"
    by (auto simp: request_prefix_def quoted_def dest!: in_set_takeD)
  then show "\<not> is_exit_request (take k request_prefix)"
    using json_get_string_subset [of "take k request_prefix" "''type''"] by (auto simp: is_exit_request_def)
qed

lemma cut_request:
  "parse_request_sql (take k (client_request sql)) \<in> {[], parse_request_sql (client_request sql)}
   \<and> \<not> is_exit_request (take k (client_request sql))"
proof (cases "k < 21")
  case True
  then have "take k (client_request sql) = take k request_prefix"
    by (simp add: client_request_take request_prefix_length)
  then show ?thesis using cut_prefix [OF True] by simp
next
  case False
  let ?r = "take sql_room (sql @ [DQUOTE, CHR ''}''])"
  have cut: "take k (client_request sql) = request_prefix @ take (k - 21) ?r"
    using False by (simp add: client_request_take request_prefix_length)
  have found: "takeWhile (\<lambda>c. c \<noteq> DQUOTE) (take m r) = takeWhile (\<lambda>c. c \<noteq> DQUOTE) r \<and> DQUOTE \<in> set r"
    if "DQUOTE \<in> set (take m r)" for m and r :: string
  proof -
    have "takeWhile (\<lambda>c. c \<noteq> DQUOTE) (take m r @ drop m r) = takeWhile (\<lambda>c. c \<noteq> DQUOTE) (take m r)"
      using that by (intro takeWhile_append1) auto
    then show ?thesis using that by (auto dest: in_set_takeD)
  qed
  have whole: "parse_request_sql (client_request sql) = (if DQUOTE \<in> set ?r then takeWhile (\<lambda>c. c \<noteq> DQUOTE) ?r else [])"
    by (simp only: client_request_take parse_request_prefix)
  have part: "parse_request_sql (take k (client_request sql))
      = (if DQUOTE \<in> set (take (k - 21) ?r) then takeWhile (\<lambda>c. c \<noteq> DQUOTE) (take (k - 21) ?r) else [])"
    by (simp only: cut parse_request_prefix)
  show ?thesis
  proof (cases "DQUOTE \<in> set (take (k - 21) ?r)")
    case True
    show ?thesis unfolding part whole using found [OF True] True by (simp only: cut not_exit_prefix) simp
  next
    case False
    then show ?thesis unfolding part by (simp only: cut not_exit_prefix) simp
  qed
qed

lemma client_not_exit: "\<not> is_exit_request (client_request sql)"
  by (simp add: client_request_take not_exit_prefix)

lemma exit_request_exits: "is_exit_request exit_request"
  by (simp add: is_exit_request_def exit_request_def json_get_string_def quoted_def snprintf_def strchr_until)

section \<open>The specification of a request\<close>

text \<open>The text the server sends for a result, with the answer of a SELECT.\<close>

definition answer_text :: "exec_result \<Rightarrow> column list \<times> row list \<Rightarrow> string" where
  "answer_text res a =
     (if res_status res = ERROR then serialize_status ''error'' (res_message res)
      else if res_table res \<and> fst a \<noteq> [] then
        head_json (res_message res)
        @ CHR '','' # quoted ''column_count'' @ CHR '':'' # show_int (wrap32 (int (length (fst a))))
        @ CHR '','' # quoted ''row_count'' @ CHR '':'' # show_int (wrap32 (int (length (snd a))))
        @ CHR '','' # quoted ''columns'' @ CHR '':'' # ''['' @ commas (map column_fragment (fst a)) @ '']''
        @ CHR '','' # quoted ''rows'' @ CHR '':'' # bare_text (rows_json (snd a)) @ ''}''
      else serialize_status ''ok'' (res_message res))"

lemma serialize_answer:
  assumes "session_sane (abs_session ex)"
  shows "serialize_exec_result res (ex_result ex) = Some (answer_text res (ss_answer (abs_session ex)))"
proof -
  have rows: "\<forall>r \<in> set (tb_rows (ex_result ex)). \<forall>v \<in> set r. value_in_range v"
    using assms by (auto simp: session_sane_def session_typed_def rows_typed_def cell_ok_def)
  consider "res_status res = ERROR" | "res_status res = OK" "\<not> res_table res \<or> tb_columns (ex_result ex) = []"
    | "res_status res = OK" "res_table res" "tb_columns (ex_result ex) \<noteq> []"
    by (cases "res_status res") auto
  then show ?thesis
  proof cases
    case 1
    then show ?thesis by (simp add: serialize_exec_result_def answer_text_def serialize_error_status)
  next
    case 2
    then show ?thesis using serialize_result_plain [OF 2] by (auto simp: answer_text_def)
  next
    case 3
    then show ?thesis using serialize_result_table [OF 3 rows] by (simp add: answer_text_def)
  qed
qed

text \<open>The statement of a request, and what the specification makes of the request.\<close>

definition request_statement :: "string \<Rightarrow> sql_statement option" where
  "request_statement req = (let sql = parse_request_sql req in if sql = [] then None else parse_sql (Some sql))"

definition sp_request :: "bool \<Rightarrow> string \<Rightarrow> session \<Rightarrow> reply \<times> session" where
  "sp_request os_ok req S =
     (if is_exit_request req then (Goodbye (serialize_status ''ok'' ''goodbye''), S)
      else (case request_statement req of
              None \<Rightarrow> (Reply (serialize_status ''error'' (''Invalid request: missing '' @ squote ''sql'' @ '' field'')), S)
            | Some st \<Rightarrow> (case sp_execute os_ok st S of (res, S1) \<Rightarrow> (Reply (answer_text res (ss_answer S1)), S1))))"

definition request_effect :: "'w os \<Rightarrow> string \<Rightarrow> 'w executor \<Rightarrow> bool \<times> 'w" where
  "request_effect os req ex =
     (case request_statement req of
        Some st \<Rightarrow> if is_exit_request req then (True, ex_world ex) else os_effect os st ex
      | None \<Rightarrow> (True, ex_world ex))"

section \<open>What a request can bring into a table\<close>

text \<open>
  The text of a request ends at its first quote, so no statement of a request has a text literal:
  a value that reaches a table is an integer, or the empty text of a missing literal.
\<close>

definition plain_cell :: "svalue \<Rightarrow> bool" where
  "plain_cell v \<longleftrightarrow> cell_ok v \<and> (is_int v \<or> v = V_STRING [])"

definition named_column :: "column \<Rightarrow> bool" where
  "named_column c \<longleftrightarrow> ident (col_name c)"

definition session_served :: "session \<Rightarrow> bool" where
  "session_served = session_typed named_column plain_cell"

lemma session_served_sane: "session_served S \<Longrightarrow> session_sane S"
  using session_typed_mono [of named_column plain_cell S "\<lambda>_. True" cell_ok]
  by (simp add: session_served_def session_sane_def plain_cell_def)

lemma request_no_quote: "DQUOTE \<notin> set (parse_request_sql req)"
proof -
  have until: "DQUOTE \<notin> set (case strchr pos DQUOTE of None \<Rightarrow> [] | Some e \<Rightarrow> take (length pos - length e) pos)" for pos
    by (auto simp: strchr_until take_until dest: set_takeWhileD)
  have "DQUOTE \<notin> set (json_get_string json k)" for json k
    unfolding json_get_string_def Let_def using until
    by (cases "strstr json (snprintf 256 (DQUOTE # k @ [DQUOTE, CHR '':'', DQUOTE]))") (simp_all only: option.case list.set empty_iff not_False_eq_True)
  then show ?thesis by (simp add: parse_request_sql_def Let_def)
qed

lemma stmt_form_typed:
  assumes "stmt_form False st"
  shows "stmt_typed named_column plain_cell st"
proof -
  have "plain_cell (literal_value b v)" if "literal_form False v b" for v b
    using that by (cases b) (simp_all add: plain_cell_def literal_value_def literal_form_def cell_ok_def value_in_range_def)
  moreover have "\<forall>c \<in> set (stmt_columns st). named_column c"
    using assms by (cases st) (auto simp: named_column_def convert_column_def list_all_iff column_ok_def)
  ultimately show ?thesis using assms stmt_ok_wf [of st] by (fastforce simp: stmt_typed_def stmt_form_def)
qed

lemma error_typed: "stmt_typed C P (INVALID e)"
  by (simp add: stmt_typed_def)

lemma request_statement_form: "request_statement req = Some st \<Longrightarrow> is_error st \<or> stmt_form False st"
  using parse_sql_result [of "Some (parse_request_sql req)" False] request_no_quote [of req]
  by (auto simp: request_statement_def texts_in_def stmt_result_def Let_def split: if_splits)

lemma request_statement_typed: "request_statement req = Some st \<Longrightarrow> stmt_typed named_column plain_cell st"
  using request_statement_form [of req st] stmt_form_typed [of st] error_typed by (auto simp: is_error_def)

section \<open>A request is never undefined\<close>

lemma handle_request_statement:
  assumes "\<not> is_exit_request req" and "request_statement req = Some st" and "execute os st ex = Some (res, ex1)"
    and "serialize_exec_result res (ex_result ex1) = Some resp"
  shows "handle_request os req ex = Some (Reply resp, ex1)"
proof -
  have sql: "parse_request_sql req \<noteq> []" "parse_sql (Some (parse_request_sql req)) = Some st"
    using assms(2) by (auto simp: request_statement_def Let_def split: if_splits)
  have "is_error st \<or> stmt_form False st" by (rule request_statement_form [OF assms(2)])
  then show ?thesis
    using assms(1,3,4) sql
    by (cases st) (auto simp: handle_request_def serialize_exec_result_def result_error_def Let_def)
qed

lemma handle_request_refines:
  assumes "exec_inv ex" and "session_served (abs_session ex)"
  shows "\<exists>reply ex1. handle_request os req ex = Some (reply, ex1) \<and> exec_inv ex1 \<and> session_served (abs_session ex1)
    \<and> ex_data_root ex1 = ex_data_root ex \<and> ex_world ex1 = snd (request_effect os req ex)
    \<and> sp_request (fst (request_effect os req ex)) req (abs_session ex) = (reply, abs_session ex1)
    \<and> (\<forall>st. \<not> is_exit_request req \<and> request_statement req = Some st \<longrightarrow>
         (\<exists>res. execute os st ex = Some (res, ex1) \<and> reply = Reply (answer_text res (ss_answer (abs_session ex1)))
            \<and> sp_execute (fst (os_effect os st ex)) st (abs_session ex) = (res, abs_session ex1)))"
proof (cases "is_exit_request req \<or> request_statement req = None")
  case True
  have "parse_request_sql req = []" if "request_statement req = None"
    using that parse_sql_total [of "Some (parse_request_sql req)"] by (auto simp: request_statement_def Let_def split: if_splits)
  then show ?thesis
    using True assms
    by (cases "is_exit_request req")
      (auto simp: handle_request_def sp_request_def request_effect_def serialize_error_status split: option.split)
next
  case False
  then obtain st where st: "request_statement req = Some st" "\<not> is_exit_request req" by auto
  note typed = request_statement_typed [OF st(1)]
  then have wf: "stmt_wf st" by (simp add: stmt_typed_def)
  obtain res ex1 where ex1: "execute os st ex = Some (res, ex1)" "exec_inv ex1" "ex_data_root ex1 = ex_data_root ex"
      "sp_execute (fst (os_effect os st ex)) st (abs_session ex) = (res, abs_session ex1)"
    using execute_refines_spec [OF assms(1) wf, of os] by (auto simp: refines_def)
  have served: "session_served (abs_session ex1)"
    using sp_execute_typed [OF _ typed, of "abs_session ex" "fst (os_effect os st ex)"] assms(2) ex1(4)
    by (simp add: session_served_def)
  have resp: "serialize_exec_result res (ex_result ex1) = Some (answer_text res (ss_answer (abs_session ex1)))"
    by (rule serialize_answer [OF session_served_sane [OF served]])
  show ?thesis
    using handle_request_statement [OF st(2,1) ex1(1) resp] ex1 served st execute_world [OF assms(1) wf ex1(1)]
    by (simp add: sp_request_def request_effect_def)
qed

lemma handle_request_goodbye:
  assumes "handle_request os req ex = Some (Goodbye m, ex1)"
  shows "is_exit_request req \<and> ex1 = ex"
proof (cases "is_exit_request req \<or> parse_request_sql req = []")
  case True
  then show ?thesis using assms by (auto simp: handle_request_def Let_def split: if_splits)
next
  case False
  obtain st where "parse_sql (Some (parse_request_sql req)) = Some st" using parse_sql_total by blast
  then show ?thesis using assms False by (cases st) (auto simp: handle_request_def Let_def)
qed

section \<open>The reachable states\<close>

definition server_inv :: "'w server \<Rightarrow> bool" where
  "server_inv s \<longleftrightarrow> exec_inv (sv_exec s) \<and> session_served (abs_session (sv_exec s))
     \<and> ex_data_root (sv_exec s) = default_data_root"

lemma shutdown_simps [simp]:
  "exec_inv (shutdown os ex) = exec_inv ex" "abs_session (shutdown os ex) = abs_session ex"
  "ex_data_root (shutdown os ex) = ex_data_root ex"
  by (auto simp: shutdown_def exec_inv_def abs_session_def split: option.split)

lemma handle_request_inv:
  assumes "exec_inv ex" and "session_served (abs_session ex)" and "handle_request os req ex = Some (reply, ex1)"
  shows "exec_inv ex1 \<and> session_served (abs_session ex1) \<and> ex_data_root ex1 = ex_data_root ex"
  using handle_request_refines [OF assms(1,2), of os req] assms(3) by auto

lemma server_step_inv:
  assumes "server_step os s t" and "server_inv s"
  shows "server_inv t"
  using assms
proof (cases rule: server_step.cases)
  case (exit request rest msg ex n1 n2 sent out)
  then show ?thesis using assms(2) handle_request_inv [of "sv_exec s" os request] by (simp add: server_inv_def)
next
  case (request request rest msg ex n1 n2 sent out)
  then show ?thesis using assms(2) handle_request_inv [of "sv_exec s" os request] by (simp add: server_inv_def)
next
  case (broken_pipe request rest r ex n)
  then show ?thesis using assms(2) handle_request_inv [of "sv_exec s" os request] by (simp add: server_inv_def)
qed (simp_all add: server_inv_def)

lemma server_reachable_inv: "server_reachable os w s \<Longrightarrow> server_inv s"
proof (induction rule: server_reachable.induct)
  case start
  show ?case
    by (simp add: server_inv_def server_start_def exec_inv_new session_served_def session_typed_new) (simp add: executor_new_def)
qed (rule server_step_inv)

lemma handle_request_defined:
  "server_inv s \<Longrightarrow> \<exists>reply ex1. handle_request os req (sv_exec s) = Some (reply, ex1)"
  using handle_request_refines [of "sv_exec s" os req] by (auto simp: server_inv_def)

lemma handle_request_world:
  "server_inv s \<Longrightarrow> handle_request os req (sv_exec s) = Some (reply, ex) \<Longrightarrow>
    ex_world ex = snd (request_effect os req (sv_exec s))"
  using handle_request_refines [of "sv_exec s" os req] by (auto simp: server_inv_def)

lemma server_progress:
  assumes "server_inv s" and "sv_phase s \<noteq> Stopped" and "sv_phase s \<noteq> Killed"
  shows "\<exists>t. server_step os s t"
proof (cases "sv_phase s")
  case Listening
  then show ?thesis using server_step.accept_fails by blast
next
  case Connected
  obtain request rest where line: "recv_line (sv_input s) = (request, rest)" by fastforce
  show ?thesis
  proof (cases "request = []")
    case True
    then show ?thesis using server_step.hang_up [OF Connected] line by blast
  next
    case False
    obtain reply ex where reply: "handle_request os request (sv_exec s) = Some (reply, ex)"
      using handle_request_defined [OF assms(1)] by blast
    have "\<exists>sent out. send_line 0 0 msg (sv_output s) = (sent, out)" for msg by fastforce
    then show ?thesis
      using server_step.exit [OF Connected line False] server_step.request [OF Connected line False] reply
      by (cases reply) blast+
  qed
qed (use assms in simp_all)

section \<open>Properties\<close>

text \<open>C30. The transport: a line without NUL, CR or LF that is shorter than the buffer is received as it
  was sent, and the rest of the stream is left, except that a line that fills the buffer leaves
  its line feed behind; no line is longer than the buffer allows.\<close>

theorem lines_are_received:
  assumes "line_text l" and "length l < max_msg" and "send_line (int (length l)) 1 l [] = (ok, sent)"
  shows "ok \<and> recv_line (sent @ rest) = (l, if length l < max_msg - 1 then rest else LF # rest)
    \<and> length (fst (recv_line any)) < max_msg"
proof -
  have "length (fst (recv_line any)) \<le> length (fst (recv_loop (max_msg - 1) any))"
    by (simp add: recv_line_def c_str_def length_takeWhile_le split: prod.split)
  also have "\<dots> \<le> max_msg - 1" using recv_loop_bound [of "max_msg - 1" any] by (metis prod.collapse)
  finally have "length (fst (recv_line any)) < max_msg" by (simp add: max_msg_def)
  moreover have "ok" and "sent = l @ [LF]" using assms(3) by (simp_all add: send_line_def)
  ultimately show ?thesis using recv_line_text [OF assms(1,2), of rest] by simp
qed

theorem lines_are_received_witness:
  "recv_line (''exit'' @ [LF] @ ''more'') = (''exit'', ''more'')"
  using lines_are_received [of "''exit''" True "''exit'' @ [LF]" "''more''" "[]"]
  by (simp add: line_text_def max_msg_def send_line_def)

text \<open>C31. What the server takes as the SQL of a client's request: the client's text up to its first
  quote, because the client does not escape quotes and the server stops at the first; nothing
  when the closing quote no longer fits the client's buffer. A request that is cut off anywhere
  on its way (a connection that breaks, which the server takes for the end of the line) gives the
  whole of that SQL or nothing, never a shorter statement. A client's request is never an exit
  request, cut off or not.\<close>

theorem server_reads_client_sql:
  "parse_request_sql (client_request sql)
     = (let v = takeWhile (\<lambda>c. c \<noteq> DQUOTE) sql in if length v < 8170 then v else [])
   \<and> parse_request_sql (take k (client_request sql)) \<in> {[], parse_request_sql (client_request sql)}
   \<and> \<not> is_exit_request (take k (client_request sql)) \<and> is_exit_request exit_request"
  using request_sql [of sql] cut_request [of k sql] exit_request_exits
  by (simp add: sql_room_def request_prefix_length max_msg_def)

text \<open>C8. The server is never stuck and never undefined: every state reachable from its start, whatever
  bytes clients send and however writes fail, satisfies the engine's invariant, and until it is
  stopped or killed it can always take a step; a request in it always has a response.\<close>

theorem server_never_stuck:
  assumes "server_reachable os w s"
  shows "exec_inv (sv_exec s) \<and> (sv_phase s \<noteq> Stopped \<and> sv_phase s \<noteq> Killed \<longrightarrow> (\<exists>t. server_step os s t))
    \<and> (\<exists>reply ex. handle_request os request (sv_exec s) = Some (reply, ex))"
  using server_reachable_inv [OF assms] server_progress [of s os] handle_request_defined [of s os request]
  by (auto simp: server_inv_def)

theorem server_never_stuck_witness:
  "\<exists>t. server_step mem_os (server_start mem_os mem_empty) t"
  using server_never_stuck [OF server_reachable.start [of mem_os mem_empty], of "[]"] by (simp add: server_start_def)

text \<open>C32. The server stops only on an exit request, and saves the selected database when it does. The
  only other end is a broken pipe while it answers a request: nothing is saved then, the files are
  those the request itself left, and an exit request leaves them as they were.\<close>

theorem server_stops_on_exit:
  assumes "server_reachable os w s" and "server_step os s t" and "sv_phase t = Stopped \<or> sv_phase t = Killed"
  shows "\<exists>request rest. sv_phase s = Connected \<and> recv_line (sv_input s) = (request, rest) \<and> request \<noteq> []
    \<and> (sv_phase t = Stopped \<longrightarrow> is_exit_request request \<and> sv_exec t = shutdown os (sv_exec s))
    \<and> (sv_phase t = Killed \<longrightarrow> ex_world (sv_exec t) = snd (request_effect os request (sv_exec s)))
    \<and> (sv_phase t = Killed \<and> is_exit_request request \<longrightarrow> sv_exec t = sv_exec s)"
  using assms(2)
proof (cases rule: server_step.cases)
  case (exit request rest msg ex n1 n2 sent out)
  then have "is_exit_request request \<and> ex = sv_exec s" by (auto dest: handle_request_goodbye)
  with exit show ?thesis by auto
next
  case (broken_pipe request rest r ex n)
  have "ex_world ex = snd (request_effect os request (sv_exec s))"
    using broken_pipe(5) handle_request_world [OF server_reachable_inv [OF assms(1)]] by blast
  moreover have "is_exit_request request \<longrightarrow> ex = sv_exec s"
    using broken_pipe(5) by (auto simp: handle_request_def)
  ultimately show ?thesis using broken_pipe by auto
qed (use assms(3) in \<open>auto split: if_splits\<close>)

definition exiting :: "mem_fs server" where
  "exiting = (server_start mem_os mem_empty)\<lparr>sv_phase := Connected, sv_input := exit_request @ LF # [], sv_output := []\<rparr>"

lemma exiting_reachable: "server_reachable mem_os mem_empty exiting"
  unfolding exiting_def
  by (rule server_reachable.step [OF server_reachable.start server_step.accept]) (simp add: server_start_def)

lemma exiting_line: "recv_line (sv_input exiting) = (exit_request, [])"
  using recv_line_text [of exit_request "[]"]
  by (simp add: exiting_def exit_request_def quoted_def line_text_def max_msg_def)

lemma exiting_steps: "\<exists>t. server_step mem_os exiting t \<and> sv_phase t = Stopped"
proof -
  have "exit_request \<noteq> []" by (simp add: exit_request_def)
  moreover have "handle_request mem_os exit_request (sv_exec exiting) = Some (Goodbye (serialize_status ''ok'' ''goodbye''), sv_exec exiting)"
    by (simp add: handle_request_def exit_request_exits)
  moreover have "send_line (- 1) 0 (serialize_status ''ok'' ''goodbye'') (sv_output exiting) = (False, sv_output exiting)"
    by (simp add: send_line_def)
  moreover have "sv_phase exiting = Connected" by (simp add: exiting_def)
  ultimately show ?thesis using server_step.exit exiting_line by fastforce
qed

theorem server_stops_on_exit_witness:
  "\<exists>t. server_step mem_os exiting t \<and> sv_exec t = shutdown mem_os (sv_exec exiting)"
  using exiting_steps server_stops_on_exit [OF exiting_reachable] by blast

text \<open>The statements that only change rows.\<close>

fun changes_rows :: "sql_statement \<Rightarrow> bool" where
  "changes_rows (INSERT s) = True"
| "changes_rows (DELETE s) = True"
| "changes_rows (UPDATE s) = True"
| "changes_rows _ = False"

text \<open>C33. What a broken pipe costs: whenever a request has been read, the server can be ended while
  it answers, with any part of the specified reply written, the whole of it included. It then
  stays down, and what it leaves on the disk is what the request itself wrote: nothing for an exit
  request or for an INSERT, DELETE or UPDATE, whose rows are lost although the client was told
  they are there.\<close>

theorem broken_pipe_loses_changes:
  assumes "server_reachable os w s" and "sv_phase s = Connected"
    and "recv_line (sv_input s) = (request, rest)" and "request \<noteq> []"
  shows "\<exists>reply t. sp_request (fst (request_effect os request (sv_exec s))) request (abs_session (sv_exec s))
        = (reply, abs_session (sv_exec t))
    \<and> server_step os s t \<and> sv_phase t = Killed \<and> sv_output t = sv_output s @ take n (reply_text reply)
    \<and> ex_world (sv_exec t) = snd (request_effect os request (sv_exec s))
    \<and> (is_exit_request request \<or> (\<exists>st. request_statement request = Some st \<and> changes_rows st) \<longrightarrow>
         ex_world (sv_exec t) = ex_world (sv_exec s))
    \<and> (\<nexists>u. server_step os t u)"
proof -
  obtain reply ex where r: "handle_request os request (sv_exec s) = Some (reply, ex)"
      "sp_request (fst (request_effect os request (sv_exec s))) request (abs_session (sv_exec s)) = (reply, abs_session ex)"
      "ex_world ex = snd (request_effect os request (sv_exec s))"
    using handle_request_refines [of "sv_exec s" os request] server_reachable_inv [OF assms(1)]
    by (auto simp: server_inv_def)
  let ?t = "\<lparr>sv_phase = Killed, sv_input = rest, sv_output = sv_output s @ take n (reply_text reply), sv_exec = ex\<rparr>"
  have "server_step os s ?t" by (rule server_step.broken_pipe [OF assms(2-4) r(1)])
  moreover have "\<nexists>u. server_step os ?t u" by (simp add: server_step_iff)
  moreover have "snd (request_effect os request (sv_exec s)) = ex_world (sv_exec s)" if "changes_rows st"
      and "request_statement request = Some st" for st
    using that by (cases st) (simp_all add: request_effect_def)
  moreover have "snd (request_effect os request (sv_exec s)) = ex_world (sv_exec s)" if "is_exit_request request"
    using that by (simp add: request_effect_def split: option.split)
  ultimately show ?thesis using r by (intro exI [of _ reply] exI [of _ ?t]) auto
qed

theorem broken_pipe_loses_changes_witness:
  "\<exists>t. server_step mem_os exiting t \<and> sv_phase t = Killed \<and> ex_world (sv_exec t) = ex_world (sv_exec exiting)
    \<and> sv_output t = serialize_status ''ok'' ''goodbye''"
proof -
  have facts: "sv_phase exiting = Connected" "exit_request \<noteq> []" "sv_output exiting = []"
    by (simp_all add: exiting_def exit_request_def)
  show ?thesis
    using broken_pipe_loses_changes [OF exiting_reachable facts(1) exiting_line facts(2),
        of "length (serialize_status ''ok'' ''goodbye'')"] facts
    by (auto simp: sp_request_def exit_request_exits)
qed

text \<open>C6. Every request is answered as specified: in every reachable state of the server, whatever
  line arrives, the reply, the abstract database after it and the file system are those of the
  specification of requests: goodbye for an exit request, an error for a request without SQL or
  with SQL that does not parse, and otherwise the text of the specification's result of the
  statement (with the columns and rows of a SELECT).\<close>

theorem requests_refine_spec:
  assumes "server_reachable os w s"
  shows "\<exists>reply ex. handle_request os req (sv_exec s) = Some (reply, ex)
    \<and> sp_request (fst (request_effect os req (sv_exec s))) req (abs_session (sv_exec s)) = (reply, abs_session ex)
    \<and> ex_world ex = snd (request_effect os req (sv_exec s))"
  using handle_request_refines [of "sv_exec s" os req] server_reachable_inv [OF assms] by (auto simp: server_inv_def)

lemma sample_request: "request_statement (client_request sample_text) = Some (DROP_TABLE ''t1'')"
proof -
  have fits: "sample_text \<noteq> []" "DQUOTE \<notin> set sample_text" "length sample_text < sql_room"
    by (simp_all add: sample_text_def sql_room_def request_prefix_length max_msg_def)
  have "parse_sql (Some sample_text) = Some (DROP_TABLE ''t1'')"
    using parse_sql_agrees [OF _ sample_text_lexed, of "DROP_TABLE ''t1''"] sample_drop_ok by simp
  then show ?thesis
    using fits by (simp add: request_statement_def request_sql Let_def takeWhile_neq_all)
qed

theorem requests_refine_spec_witness:
  "\<exists>ex. handle_request mem_os (client_request sample_text) (sv_exec (server_start mem_os mem_empty))
     = Some (Reply (serialize_status ''error'' (''No database selected. Use '' @ squote ''use <dbname>'' @ '' first.'')), ex)"
proof -
  have "ss_db (abs_session (sv_exec (server_start mem_os mem_empty))) = None"
    by (simp add: server_start_def executor_new_def)
  then show ?thesis
    using requests_refine_spec [OF server_reachable.start [of mem_os mem_empty], of "client_request sample_text"] sample_request
    by (auto simp: sp_request_def client_not_exit in_session_def answer_text_def result_error_def)
qed

end
