(* ===== verification/Client_Cli.thy ===== *)
theory Client_Cli
  imports Server
begin

text \<open>
  The command-line programs (src/cli/client_main.cpp, server_main.cpp): the port argument, the
  interactive loop over the lines of standard input, and the display of a response. A printed
  text is appended to the output. The network is the environment: what \<open>send_sql\<close> and
  \<open>send_exit\<close> return is a function of the text sent and of a state \<open>'n\<close>. \<open>None\<close> is a read
  beyond the end of a string.
\<close>

section \<open>The port\<close>

definition default_port :: int where
  "default_port = 3307"

text \<open>\<open>None\<close> is the exit with code 1, after the message on the error stream.\<close>

definition port_argument :: "string option \<Rightarrow> int option" where
  "port_argument arg =
     (case arg of
        None \<Rightarrow> Some default_port
      | Some s \<Rightarrow> (let port = atoi s in if port \<le> 0 \<or> port > 65535 then None else Some port))"

section \<open>Reading a line\<close>

definition max_input :: nat where
  "max_input = 8192"

definition trim_newline :: "string \<Rightarrow> string" where
  "trim_newline s = rev (dropWhile (\<lambda>c. c = LF \<or> c = CR) (rev s))"

definition read_line :: "nat \<Rightarrow> string \<Rightarrow> (string \<times> string) option" where
  "read_line n stdin =
     (case fgets n stdin of None \<Rightarrow> None | Some (l, rest) \<Rightarrow> Some (trim_newline (c_str l), rest))"

section \<open>Displaying a response\<close>

text \<open>The positions of \<open>strstr\<close> and \<open>strchr\<close> from a position of the text.\<close>

definition find_from :: "string \<Rightarrow> nat \<Rightarrow> string \<Rightarrow> nat option" where
  "find_from json i p = map_option (\<lambda>t. length json - length t) (strstr (drop i json) p)"

definition quote_from :: "string \<Rightarrow> nat \<Rightarrow> nat option" where
  "quote_from json i = map_option (\<lambda>t. length json - length t) (strchr (drop i json) DQUOTE)"

definition sub_text :: "string \<Rightarrow> nat \<Rightarrow> nat \<Rightarrow> string" where
  "sub_text json i j = take (j - i) (drop i json)"

text \<open>The text between the end of the pattern and the next quote, if both are there.\<close>

definition text_after :: "string \<Rightarrow> string \<Rightarrow> string option" where
  "text_after json p = do {
     i \<leftarrow> find_from json 0 p;
     j \<leftarrow> quote_from json (i + length p);
     Some (sub_text json (i + length p) j)
   }"

fun key_start_from :: "string \<Rightarrow> nat \<Rightarrow> nat" where
  "key_start_from json 0 = 0"
| "key_start_from json (Suc k) =
     (if json ! k \<noteq> DQUOTE \<and> json ! k \<noteq> CHR '','' then key_start_from json k else Suc k)"

definition key_before :: "string \<Rightarrow> nat \<Rightarrow> string" where
  "key_before json p =
     (let k = key_start_from json p;
          k = (if json ! k = CHR '','' \<or> json ! k = CHR ''{'' then k + 1 else k)
      in sub_text json k p)"

definition member_sep :: string where
  "member_sep = [DQUOTE, CHR '':'', DQUOTE]"

lemma find_from_bounds:
  assumes "find_from json i p = Some k" and "i \<le> length json"
  shows "i \<le> k" "k + length p \<le> length json" "take (length p) (drop k json) = p"
proof -
  obtain t u where t: "strstr (drop i json) p = Some t" "k = length json - length t"
    and u: "drop i json = u @ t" "take (length p) t = p"
    using assms(1) strstr_Some by (fastforce simp: find_from_def)
  have len: "length json - i = length u + length t" using arg_cong [OF u(1), of length] by simp
  have pt: "length p \<le> length t" using arg_cong [OF u(2), of length] by simp
  show "i \<le> k" "k + length p \<le> length json" using len pt t(2) assms(2) by auto
  have "k = i + length u" using len t(2) assms(2) by auto
  then have "drop k json = drop (length u) (drop i json)" by (simp add: add.commute)
  also have "\<dots> = t" by (simp add: u(1))
  finally show "take (length p) (drop k json) = p" using u(2) by simp
qed

lemma quote_from_bounds:
  assumes "quote_from json i = Some k" and "i \<le> length json"
  shows "i \<le> k" "k < length json"
proof -
  define t where "t = dropWhile (\<lambda>x. x \<noteq> DQUOTE) (drop i json)"
  have q: "DQUOTE \<in> set (drop i json)" "k = length json - length t"
    using assms(1) by (auto simp: quote_from_def strchr_until t_def split: if_splits)
  have "t \<noteq> []" using q(1) by (auto simp: t_def)
  then have "0 < length t" by simp
  moreover have "length t \<le> length json - i"
    using length_dropWhile_le [of "\<lambda>x. x \<noteq> DQUOTE" "drop i json"] by (simp add: t_def)
  ultimately show "i \<le> k" "k < length json" using q(2) assms(2) by linarith+
qed

text \<open>
  The loop over the members. After a separator without a closing quote the code skips one
  more character, which may be the terminating NUL: the next search would start beyond it.
\<close>

function display_members :: "string \<Rightarrow> nat \<Rightarrow> string \<Rightarrow> string option" where
  "display_members json pos out =
     (if pos > length json then None
      else case find_from json pos member_sep of
             None \<Rightarrow> Some out
           | Some p \<Rightarrow>
               (case quote_from json (p + 3) of
                  None \<Rightarrow> display_members json (p + 4) out
                | Some e \<Rightarrow>
                    (let key = key_before json p; val = sub_text json (p + 3) e;
                         line = (if key \<noteq> ''status'' \<and> key \<noteq> ''kind''
                                 then ''  '' @ key @ '': '' @ val @ [LF] else [])
                     in display_members json (e + 1) (out @ line))))"
  by pat_completeness auto
termination
proof (relation "measure (\<lambda>(json, pos, out). length json + 1 - pos)", simp, goal_cases)
  case (1 json pos out p)
  then show ?case using find_from_bounds(1) [of json pos member_sep p] by simp
next
  case (2 json pos out p e)
  have "pos \<le> p" "p + 3 \<le> length json"
    using find_from_bounds(1,2) [of json pos member_sep p] 2 by (simp_all add: member_sep_def)
  then show ?case using quote_from_bounds [of json "p + 3" e] 2 by simp
qed

declare display_members.simps [simp del]

definition status_key :: string where "status_key = DQUOTE # ''status'' @ member_sep"
definition message_key :: string where "message_key = DQUOTE # ''message'' @ member_sep"
definition kind_key :: string where "kind_key = DQUOTE # ''kind'' @ member_sep"

definition display_response :: "string \<Rightarrow> string option" where
  "display_response json =
     (case text_after json status_key of
        None \<Rightarrow> Some (json @ [LF])
      | Some status \<Rightarrow>
          if status = ''error'' then
            (case text_after json message_key of
               Some msg \<Rightarrow> Some (''ERROR: '' @ msg @ [LF])
             | None \<Rightarrow> Some (''ERROR: (unknown)'' @ [LF]))
          else display_members json 0
            (''OK'' @ [LF] @ (case text_after json kind_key of
                               Some kind \<Rightarrow> ''  Statement: '' @ kind @ [LF] | None \<Rightarrow> [])))"

section \<open>The interactive loop\<close>

definition help_text :: string where
  "help_text = concat (map (\<lambda>l. l @ [LF])
     [''Commands:'',
      ''  <SQL>  '' @ [CHR 0xE2, CHR 0x80, CHR 0x94] @ '' send SQL statement to server'',
      ''  exit   '' @ [CHR 0xE2, CHR 0x80, CHR 0x94] @ '' quit'',
      ''  help   '' @ [CHR 0xE2, CHR 0x80, CHR 0x94] @ '' show this message'',
      [],
      ''Supported SQL:'',
      ''  create database <name>'',
      ''  drop database <name>'',
      ''  use <name>'',
      ''  create table <name> (<col> <type> [primary], ...)'',
      ''  drop table <name>'',
      ''  select <col> from <table> [where <cond>]'',
      ''  delete from <table> [where <cond>]'',
      ''  insert into <table> values (<val>, ...)'',
      ''  update <table> set <col> = <val> [where <cond>]''])"

definition goodbye_text :: string where
  "goodbye_text = ''Goodbye.'' @ [LF]"

definition prompt :: string where
  "prompt = ''minidb> ''"

lemma fgets_shorter: "fgets n s = Some (l, r) \<Longrightarrow> 1 < n \<Longrightarrow> length r < length s"
proof -
  assume s: "fgets n s = Some (l, r)" and n: "1 < n"
  have le: "length (snd (fgets_loop m t)) \<le> length t" for m t
    by (induction m t rule: fgets_loop.induct) (auto split: prod.split)
  obtain m where "n - 1 = Suc m" using n by (cases "n - 1") auto
  moreover obtain c cs where "s = c # cs" using s by (cases s) (auto simp: fgets_def)
  ultimately show ?thesis
    using s le [of m cs] by (auto simp: fgets_def split: if_splits prod.splits)
qed

function client_loop :: "(string \<Rightarrow> 'n \<Rightarrow> string \<times> 'n) \<Rightarrow> ('n \<Rightarrow> string \<times> 'n) \<Rightarrow> string \<Rightarrow> 'n \<Rightarrow> string
    \<Rightarrow> (string \<times> 'n) option" where
  "client_loop send quit stdin net out =
     (case read_line max_input stdin of
        None \<Rightarrow> Some (out @ prompt @ goodbye_text, net)
      | Some (input, rest) \<Rightarrow>
          let out = out @ prompt
          in if input = [] then client_loop send quit rest net out
             else if input = ''exit'' \<or> input = ''quit'' then
               (let (resp, net1) = quit net;
                    said = (case text_after resp message_key of Some msg \<Rightarrow> msg @ [LF] | None \<Rightarrow> [])
                in Some (out @ said @ goodbye_text, net1))
             else if input = ''help'' then client_loop send quit rest net (out @ help_text)
             else (let (resp, net1) = send input net
                   in if resp = []
                      then Some (out @ ''ERROR: No response from server. Connection may be lost.'' @ [LF] @ goodbye_text, net1)
                      else do {
                        shown \<leftarrow> display_response resp;
                        client_loop send quit rest net1 (out @ shown)
                      }))"
  by pat_completeness auto
termination
proof (relation "measure (\<lambda>(send, quit, stdin, net, out). length stdin)", goal_cases)
  case 1
  then show ?case by simp
qed (auto simp: read_line_def max_input_def dest!: fgets_shorter split: option.splits)

section \<open>What is displayed\<close>

lemma port_in_range: "port_argument arg = Some port \<Longrightarrow> 0 < port \<and> port \<le> 65535"
  by (auto simp: port_argument_def default_port_def Let_def split: option.splits if_splits)

lemma text_after_strstr:
  "text_after json p =
     (case strstr json p of
        None \<Rightarrow> None
      | Some t \<Rightarrow> (let u = drop (length p) t in if DQUOTE \<in> set u then Some (takeWhile (\<lambda>c. c \<noteq> DQUOTE) u) else None))"
proof (cases "strstr json p")
  case (Some t)
  then obtain u where u: "json = u @ t" using strstr_Some by blast
  let ?r = "drop (length p) t"
  have at: "drop (length json - length t + length p) json = ?r" by (simp add: u)
  have e: "length json - length (dropWhile (\<lambda>c. c \<noteq> DQUOTE) ?r) - (length json - length t + length p)
      = length ?r - length (dropWhile (\<lambda>c. c \<noteq> DQUOTE) ?r)"
    using length_dropWhile_le [of "\<lambda>c. c \<noteq> DQUOTE" ?r] by (simp add: u)
  have "take (length ?r - length (dropWhile (\<lambda>c. c \<noteq> DQUOTE) ?r)) ?r = takeWhile (\<lambda>c. c \<noteq> DQUOTE) ?r"
    by (rule take_until)
  then show ?thesis
    using Some at e
    by (simp add: text_after_def find_from_def quote_from_def sub_text_def strchr_until Let_def)
qed (simp add: text_after_def find_from_def)

lemma display_error:
  "display_response (serialize_status ''error'' m) = Some (''ERROR: '' @ takeWhile (\<lambda>c. c \<noteq> DQUOTE) m @ [LF])"
  by (simp add: display_response_def text_after_strstr serialize_status_json quoted_def status_key_def
      message_key_def member_sep_def takeWhile_quoted Let_def)

lemma display_members_defined:
  "pos \<le> length json \<Longrightarrow> drop (length json - 3) json \<noteq> member_sep \<Longrightarrow> display_members json pos out \<noteq> None"
proof (induction json pos out rule: display_members.induct)
  case (1 json pos out)
  show ?case
  proof (cases "find_from json pos member_sep")
    case None
    then show ?thesis using 1(3) by (subst display_members.simps) simp
  next
    case (Some p)
    note p = find_from_bounds [OF Some 1(3)]
    show ?thesis
    proof (cases "quote_from json (p + 3)")
      case None
      have "p + 3 \<noteq> length json"
      proof
        assume "p + 3 = length json"
        then have "p = length json - 3" "length (drop p json) = 3" by simp_all
        then show False using p(3) 1(4) by (simp add: member_sep_def)
      qed
      then have "p + 4 \<le> length json" using p(2) by (simp add: member_sep_def)
      then have "display_members json (p + 4) out \<noteq> None"
        using 1(1) [OF _ Some None] 1(3,4) by simp
      then show ?thesis using 1(3) Some None by (subst display_members.simps) simp
    next
      case e: (Some e)
      have "e + 1 \<le> length json"
        using quote_from_bounds(2) [OF e] p(2) by (simp add: member_sep_def)
      then show ?thesis
        using 1(2) [OF _ Some e refl refl refl] 1(3,4) Some e
        by (subst display_members.simps) (simp add: Let_def)
    qed
  qed
qed

lemma display_response_defined:
  assumes "drop (length json - 3) json \<noteq> member_sep"
  shows "display_response json \<noteq> None"
  using display_members_defined [of 0 json, OF _ assms]
  unfolding display_response_def by (simp only: not_None_eq split: option.split) simp

lemma display_members_step:
  assumes "pos \<le> length json" and "find_from json pos member_sep = Some p" and "quote_from json (p + 3) = Some e"
  shows "display_members json pos out = display_members json (e + 1)
    (out @ (if key_before json p \<noteq> ''status'' \<and> key_before json p \<noteq> ''kind''
            then ''  '' @ key_before json p @ '': '' @ sub_text json (p + 3) e @ [LF] else []))"
  using assms by (subst display_members.simps) (simp add: Let_def)

lemma strstr_count:
  assumes "count_list s c < count_list p c"
  shows "strstr s p = None"
proof (cases "strstr s p")
  case (Some t)
  then obtain u where u: "s = u @ t" "take (length p) t = p" using strstr_Some by blast
  then have "t = p @ drop (length p) t" by (metis append_take_drop_id)
  then have "count_list s c = count_list u c + count_list p c + count_list (drop (length p) t) c"
    using u(1) by (metis count_list_append add.assoc)
  with assms show ?thesis by simp
qed

lemma kind_count: "count_list s DQUOTE < 3 \<Longrightarrow> strstr s kind_key = None"
  by (rule strstr_count [where c = DQUOTE]) (simp add: kind_key_def member_sep_def)

section \<open>One member after the other\<close>

text \<open>The display from the end of \<open>pre\<close> on.\<close>

definition members_from :: "string \<Rightarrow> string \<Rightarrow> string \<Rightarrow> string option" where
  "members_from pre body out = display_members (pre @ body) (length pre) out"

lemma strstr_first_separator:
  "strstr (a @ [DQUOTE, CHR '':'']) member_sep = None \<Longrightarrow> strstr (a @ member_sep @ r) member_sep = Some (member_sep @ r)"
proof (induction a)
  case Nil
  then show ?case by (simp add: member_sep_def)
next
  case (Cons c a)
  have "take 3 (c # a @ member_sep @ r) = take 3 (c # a @ [DQUOTE, CHR '':''])"
    by (cases a; cases "tl a") (simp_all add: member_sep_def)
  moreover have len: "length member_sep = 3" by (simp add: member_sep_def)
  have "take 3 (c # a @ [DQUOTE, CHR '':'']) \<noteq> member_sep" "strstr (a @ [DQUOTE, CHR '':'']) member_sep = None"
    using Cons.prems len by (simp_all split: if_splits)
  ultimately show ?case using Cons.IH len by simp
qed

lemma key_start_at:
  assumes "json ! k = DQUOTE \<or> json ! k = CHR '',''"
    and "\<And>j. k < j \<Longrightarrow> j < p \<Longrightarrow> json ! j \<noteq> DQUOTE \<and> json ! j \<noteq> CHR '',''" and "k < p"
  shows "key_start_from json p = Suc k"
  using assms(2,3)
proof (induction p)
  case (Suc p)
  then show ?case using assms(1) by (cases "p = k") auto
qed simp

lemma key_before_member:
  assumes "c = DQUOTE \<or> c = CHR '',''" and "DQUOTE \<notin> set key" and "CHR '','' \<notin> set key" and "key \<noteq> []" and "hd key \<noteq> CHR ''{''"
  shows "key_before (a @ c # key @ r) (length a + 1 + length key) = key"
proof -
  let ?json = "a @ c # key @ r"
  have inside: "?json ! j \<in> set key" if "length a < j" "j < length a + 1 + length key" for j
    using that by (auto simp: nth_append nth_Cons' intro!: nth_mem)
  have "key_start_from ?json (length a + 1 + length key) = Suc (length a)"
    by (rule key_start_at) (use assms(1-3) inside in \<open>auto, metis+\<close>)
  moreover have "?json ! Suc (length a) = hd key" using assms(4) by (simp add: nth_append hd_conv_nth)
  moreover have "hd key \<noteq> CHR '',''" using assms(3,4) by (cases key) auto
  ultimately show ?thesis using assms(5) by (simp add: key_before_def sub_text_def Let_def)
qed

lemma member_shown:
  assumes key: "c = DQUOTE \<or> c = CHR '',''" "DQUOTE \<notin> set key" "CHR '','' \<notin> set key" "key \<noteq> []" "hd key \<noteq> CHR ''{''"
    and first: "strstr (gap @ c # key @ [DQUOTE, CHR '':'']) member_sep = None" and val: "DQUOTE \<notin> set val"
  shows "members_from pre (gap @ c # key @ member_sep @ val @ DQUOTE # rest) out
    = members_from (pre @ gap @ c # key @ member_sep @ val @ [DQUOTE]) rest
        (out @ (if key \<noteq> ''status'' \<and> key \<noteq> ''kind'' then ''  '' @ key @ '': '' @ val @ [LF] else []))"
proof -
  let ?json = "pre @ gap @ c # key @ member_sep @ val @ DQUOTE # rest"
  let ?p = "length (pre @ gap) + 1 + length key"
  have "strstr (drop (length pre) ?json) member_sep = Some (member_sep @ val @ DQUOTE # rest)"
    using strstr_first_separator [of "gap @ c # key" "val @ DQUOTE # rest"] first by simp
  then have p: "find_from ?json (length pre) member_sep = Some ?p" by (simp add: find_from_def)
  have sep: "length member_sep = 3" by (simp add: member_sep_def)
  have "?p + 3 = length (pre @ gap @ c # key @ member_sep)" using sep by simp
  then have behind: "drop (?p + 3) ?json = val @ DQUOTE # rest" by (metis append.assoc append_Cons append_eq_conv_conj)
  moreover have "dropWhile (\<lambda>x. x \<noteq> DQUOTE) (val @ DQUOTE # rest) = DQUOTE # rest" using val by (induction val) auto
  ultimately have e: "quote_from ?json (?p + 3) = Some (?p + 3 + length val)" using sep by (simp add: quote_from_def strchr_until)
  have "key_before ?json ?p = key"
    using key_before_member [OF key, of "pre @ gap" "member_sep @ val @ DQUOTE # rest"] by simp
  moreover have "sub_text ?json (?p + 3) (?p + 3 + length val) = val" by (simp only: sub_text_def behind) simp
  moreover have "?json = (pre @ gap @ c # key @ member_sep @ val @ [DQUOTE]) @ rest" by simp
  moreover have "?p + 3 + length val + 1 = length (pre @ gap @ c # key @ member_sep @ val @ [DQUOTE])" using sep by simp
  ultimately show ?thesis
    using display_members_step [OF _ p e, of out] unfolding members_from_def by (metis length_append trans_le_add1 le_refl)
qed

lemma members_end: "strstr body member_sep = None \<Longrightarrow> members_from pre body out = Some out"
  unfolding members_from_def by (subst display_members.simps) (simp add: find_from_def)

section \<open>Status responses\<close>

lemma display_ok:
  assumes m: "DQUOTE \<notin> set m"
  shows "display_response (serialize_status ''ok'' m) = Some (''OK'' @ [LF] @ ''  message: '' @ m @ [LF])"
proof -
  let ?json = "serialize_status ''ok'' m"
  let ?message = "'','' @ DQUOTE # ''message'' @ member_sep @ m @ DQUOTE # ''}''"
  have json: "?json = ''{'' @ DQUOTE # ''status'' @ member_sep @ ''ok'' @ DQUOTE # ?message"
    by (simp add: serialize_status_json quoted_def member_sep_def)
  have rest: "strstr ''}'' member_sep = None" by (simp add: member_sep_def)
  have "members_from pre ?message out = Some (out @ ''  message: '' @ m @ [LF])" for pre out
    by (subst member_shown) (use m members_end [OF rest] in \<open>simp_all add: member_sep_def\<close>)
  then have "members_from [] ?json out = Some (out @ ''  message: '' @ m @ [LF])" for out
    unfolding json by (subst member_shown) (simp_all add: member_sep_def)
  then have shown: "display_members ?json 0 out = Some (out @ ''  message: '' @ m @ [LF])" for out
    by (simp add: members_from_def)
  have "text_after ?json status_key = Some ''ok''"
    by (simp add: text_after_strstr serialize_status_json quoted_def status_key_def member_sep_def Let_def)
  moreover have "count_list (DQUOTE # m @ [DQUOTE, CHR ''}'']) DQUOTE < 3" using m by simp
  then have "strstr (DQUOTE # m @ [DQUOTE, CHR ''}'']) kind_key = None" by (rule kind_count)
  then have "text_after ?json kind_key = None"
    by (simp add: text_after_strstr serialize_status_json quoted_def kind_key_def member_sep_def)
  ultimately show ?thesis using shown by (simp add: display_response_def)
qed

text \<open>A reply cut off right after the name of its message, as a full buffer would cut it.\<close>

definition cut_reply :: string where
  "cut_reply = take 26 (serialize_status ''ok'' [])"

lemma cut_reply_text: "cut_reply = ''{'' @ DQUOTE # ''status'' @ DQUOTE # '':'' @ DQUOTE # ''ok'' @ DQUOTE # '',''
    @ DQUOTE # ''message'' @ DQUOTE # '':'' @ [DQUOTE]"
  by (simp add: cut_reply_def serialize_status_json quoted_def eval_nat_numeral)

lemma cut_reply_undefined: "display_response cut_reply = None"
proof -
  have s1: "find_from cut_reply 0 member_sep = Some 8" "quote_from cut_reply (8 + 3) = Some 13"
    unfolding cut_reply_text by (simp_all add: find_from_def quote_from_def member_sep_def eval_nat_numeral)
  have s2: "find_from cut_reply (13 + 1) member_sep = Some 23" "quote_from cut_reply (23 + 3) = None"
    unfolding cut_reply_text by (simp_all add: find_from_def quote_from_def member_sep_def eval_nat_numeral)
  have len: "length cut_reply = 26" by (simp add: cut_reply_text)
  have "display_members cut_reply (23 + 4) out = None" for out
    by (subst display_members.simps) (simp add: len)
  then have "display_members cut_reply (13 + 1) out = None" for out
    using s2 len by (subst display_members.simps) simp
  then have "display_members cut_reply 0 out = None" for out
    using display_members_step [OF _ s1, of out] by simp
  moreover have "text_after cut_reply status_key = Some ''ok''"
    unfolding cut_reply_text by (simp add: text_after_strstr status_key_def member_sep_def Let_def)
  ultimately show ?thesis by (simp add: display_response_def)
qed

section \<open>What the prompt needs of the network\<close>

text \<open>
  An invariant of the network that every request keeps, and responses that do not end right
  after a separator. Then the prompt always comes to its end, and the network keeps its invariant.
\<close>

locale prompt_network =
  fixes send :: "string \<Rightarrow> 'n \<Rightarrow> string \<times> 'n" and quit :: "'n \<Rightarrow> string \<times> 'n" and inv :: "'n \<Rightarrow> bool"
  assumes send_inv: "inv n \<Longrightarrow> inv (snd (send sql n))"
    and send_ends: "inv n \<Longrightarrow> drop (length (fst (send sql n)) - 3) (fst (send sql n)) \<noteq> member_sep"
    and quit_inv: "inv n \<Longrightarrow> inv (snd (quit n))"
begin

lemma shown_response: "inv n \<Longrightarrow> \<exists>shown. display_response (fst (send sql n)) = Some shown"
  using display_response_defined [OF send_ends [of n sql]] by auto

lemma loop_ends: "inv n \<Longrightarrow> \<exists>printed n'. client_loop send quit stdin n out = Some (printed, n') \<and> inv n'"
proof (induction stdin arbitrary: n out rule: measure_induct_rule [where f = length])
  case (less stdin)
  show ?case
  proof (cases "read_line max_input stdin")
    case None
    then show ?thesis using less.prems by (subst client_loop.simps) simp
  next
    case (Some p)
    obtain input rest where p: "p = (input, rest)" by fastforce
    have "length rest < length stdin"
      using Some by (auto simp: p read_line_def max_input_def dest!: fgets_shorter split: option.splits)
    note IH = less.IH [OF this]
    obtain resp n1 where s: "send input n = (resp, n1)" by fastforce
    obtain said n2 where q: "quit n = (said, n2)" by fastforce
    have inv: "inv n1" "inv n2" using send_inv [OF less.prems, of input] quit_inv [OF less.prems] s q by simp_all
    obtain shown where "display_response resp = Some shown" using shown_response [OF less.prems, of input] s by auto
    then show ?thesis
      using IH less.prems inv s q
      by (subst client_loop.simps) (simp add: Some p Let_def split: prod.splits)
  qed
qed

end

section \<open>Properties\<close>

text \<open>What the client shows for the server's status responses: the message of an error up to its
  first quote, and the message of a success when it holds no quote.\<close>

lemma status_responses_are_displayed:
  assumes "DQUOTE \<notin> set m"
  shows "display_response (serialize_status ''ok'' m) = Some (''OK'' @ [LF] @ ''  message: '' @ m @ [LF])
    \<and> display_response (serialize_status ''error'' n) = Some (''ERROR: '' @ takeWhile (\<lambda>c. c \<noteq> DQUOTE) n @ [LF])"
  using display_ok [OF assms] display_error by simp

lemma status_responses_are_displayed_witness:
  "display_response (serialize_status ''ok'' ''goodbye'') = Some (''OK'' @ [LF] @ ''  message: goodbye'' @ [LF])"
  using status_responses_are_displayed [of "''goodbye''" "[]"] by simp

text \<open>C36. Displaying a response stays inside its text unless the text ends with the separator between a
  member's name and its value; a reply cut off there makes the client read past the end.\<close>

theorem display_stays_in_the_text:
  assumes "drop (length json - 3) json \<noteq> member_sep"
  shows "display_response json \<noteq> None \<and> display_response cut_reply = None"
  using display_response_defined [OF assms] cut_reply_undefined by simp

theorem display_stays_in_the_text_witness:
  "display_response ''plain'' \<noteq> None"
  using display_stays_in_the_text [of "''plain''"] by (simp add: member_sep_def)

end
