(* ===== verification/Select_Display.thy ===== *)
theory Select_Display
  imports Client_Cli
begin

text \<open>
  What the client (src/cli/client_main.cpp) shows of the server's answer to a SELECT
  (src/network/protocol.cpp): \<open>display_response\<close> prints only members whose value is a text, so
  the rows and the counts of the answer never reach the screen. The proof cuts the response at
  the bracket that opens the rows: searches to its left do not see what follows.
\<close>

section \<open>Searching left of a separator\<close>

lemma strstr_left:
  assumes "c \<notin> set p" and "p \<noteq> []" and "strstr b p = None"
  shows "strstr (a @ c # b) p = map_option (\<lambda>t. t @ c # b) (strstr a p)"
proof (induction a)
  case Nil
  have "take (length p) (c # b) \<noteq> p"
  proof
    assume "take (length p) (c # b) = p"
    then have "c \<in> set p" using assms(2) by (cases p) auto
    with assms(1) show False by simp
  qed
  with assms show ?case by simp
next
  case (Cons x a)
  have "take (length p) (x # a @ c # b) = p \<longleftrightarrow> take (length p) (x # a) = p"
  proof (cases "length p \<le> length (x # a)")
    case True
    then show ?thesis using take_append [of "length p" "x # a" "c # b"] by simp
  next
    case False
    then obtain k where k: "length p - length (x # a) = Suc k" by (cases "length p - length (x # a)") auto
    have "take (length p) (x # a @ c # b) = (x # a) @ c # take k b"
      using take_append [of "length p" "x # a" "c # b"] k False by simp
    moreover have "length (take (length p) (x # a)) < length p" using False by simp
    ultimately show ?thesis using assms(1) by (metis append_Cons in_set_conv_decomp less_irrefl)
  qed
  with Cons show ?case by simp
qed

lemma strstr_joined:
  "c \<notin> set p \<Longrightarrow> p \<noteq> [] \<Longrightarrow> strstr a p = None \<Longrightarrow> strstr b p = None \<Longrightarrow> strstr (a @ c # b) p = None"
  by (simp add: strstr_left)

lemma find_from_left:
  assumes "c \<notin> set p" and "p \<noteq> []" and "strstr b p = None" and "i \<le> length a"
  shows "find_from (a @ c # b) i p = find_from a i p"
  using assms(4) by (simp add: find_from_def strstr_left [OF assms(1-3)] option.map_comp comp_def)

lemma quote_from_left:
  assumes "DQUOTE \<in> set (drop i a)"
  shows "quote_from (a @ b) i = quote_from a i"
proof -
  have "dropWhile (\<lambda>x. x \<noteq> DQUOTE) (drop i a @ b) = dropWhile (\<lambda>x. x \<noteq> DQUOTE) (drop i a) @ b"
    by (rule dropWhile_append1 [OF assms]) simp
  moreover have "i \<le> length a" using assms by (cases "i \<le> length a") auto
  ultimately show ?thesis using assms by (simp add: quote_from_def strchr_until)
qed

lemma sub_text_left: "j \<le> length a \<Longrightarrow> sub_text (a @ b) i j = sub_text a i j"
  by (cases "i \<le> length a") (simp_all add: sub_text_def)

lemma key_start_left: "k \<le> length a \<Longrightarrow> key_start_from (a @ b) k = key_start_from a k"
  by (induction k) (simp_all add: nth_append)

lemma key_before_left: "p < length a \<Longrightarrow> key_before (a @ b) p = key_before a p"
proof -
  assume p: "p < length a"
  have "key_start_from a k \<le> k" for k by (induction k) auto
  then have "key_start_from a p < length a" using p le_less_trans by blast
  then show ?thesis using p by (simp add: key_before_def key_start_left nth_append sub_text_left Let_def)
qed

section \<open>Where every member is closed\<close>

text \<open>Left of the rows, a quote follows every separator, so every member that starts there ends there.\<close>

definition members_closed :: "string \<Rightarrow> bool" where
  "members_closed u \<longleftrightarrow> (\<forall>p. take 3 (drop p u) = member_sep \<longrightarrow> DQUOTE \<in> set (drop (p + 3) u))"

lemma separator_at:
  assumes "take 3 (drop p v) = member_sep"
  shows "p + 3 \<le> length v" and "v ! (p + 1) = CHR '':''" and "v ! (p + 2) = DQUOTE"
proof -
  have "length (take 3 (drop p v)) = 3" using assms by (simp add: member_sep_def)
  then show len: "p + 3 \<le> length v" by simp
  show "v ! (p + 1) = CHR '':''" "v ! (p + 2) = DQUOTE"
    using arg_cong [OF assms, of "\<lambda>s. s ! 1"] arg_cong [OF assms, of "\<lambda>s. s ! 2"] len
    by (simp_all add: member_sep_def)
qed

lemma members_closed_tail:
  assumes "x \<noteq> CHR '':''"
  shows "members_closed (u @ [x, DQUOTE, CHR '':''])"
  unfolding members_closed_def
proof (intro allI impI)
  fix p assume p: "take 3 (drop p (u @ [x, DQUOTE, CHR '':''])) = member_sep"
  let ?u = "u @ [x, DQUOTE, CHR '':'']"
  note len = separator_at(1) [OF p] and nths = separator_at(2,3) [OF p]
  have "p + 3 \<noteq> length ?u" using nths(2) by (auto simp: nth_append)
  moreover have "p + 2 \<noteq> length u + 1" using nths(1) assms by (auto simp: nth_append)
  ultimately have "p + 3 \<le> length u + 1" using len by simp
  then have "drop (p + 3) ?u = drop (p + 3) (u @ [x]) @ [DQUOTE, CHR '':'']"
    using drop_append [of "p + 3" "u @ [x]" "[DQUOTE, CHR '':'']"] by simp
  then show "DQUOTE \<in> set (drop (p + 3) ?u)" by simp
qed

lemma member_quote:
  assumes "members_closed u" and "find_from u i member_sep = Some p" and "i \<le> length u"
  shows "DQUOTE \<in> set (drop (p + 3) u)"
proof -
  have "length member_sep = 3" by (simp add: member_sep_def)
  then show ?thesis using find_from_bounds(3) [OF assms(2,3)] assms(1) by (simp add: members_closed_def)
qed

lemma display_members_left:
  assumes "members_closed u" and "c \<notin> set member_sep" and "strstr b member_sep = None" and "pos \<le> length u"
  shows "display_members (u @ c # b) pos out = display_members u pos out"
  using assms(1,4)
proof (induction u pos out rule: display_members.induct)
  case (1 u pos out)
  note left = find_from_left [OF assms(2) _ assms(3) 1(4)]
  show ?case
  proof (cases "find_from u pos member_sep")
    case None
    then show ?thesis using 1(4) left by (subst (1 2) display_members.simps) (simp add: member_sep_def)
  next
    case (Some p)
    note p = find_from_bounds(2) [OF Some 1(4)] and q = member_quote [OF 1(3) Some 1(4)]
    then obtain e where e: "quote_from u (p + 3) = Some e" "p + 3 \<le> e" "e < length u"
      using quote_from_bounds [of u "p + 3"] by (cases "quote_from u (p + 3)")
        (auto simp: quote_from_def strchr_until member_sep_def)
    have IH: "display_members (u @ c # b) (e + 1) x = display_members u (e + 1) x" if
        "x = out @ (if key_before u p \<noteq> ''status'' \<and> key_before u p \<noteq> ''kind''
            then ''  '' @ key_before u p @ '': '' @ sub_text u (p + 3) e @ [LF] else [])" for x
      using 1(2) [OF _ Some e(1) refl refl refl] 1(3,4) e(3) that by simp
    have "find_from (u @ c # b) pos member_sep = Some p" using left Some by (simp add: member_sep_def)
    moreover have "quote_from (u @ c # b) (p + 3) = Some e" using quote_from_left [OF q] e(1) by simp
    moreover have "key_before (u @ c # b) p = key_before u p"
      by (rule key_before_left) (use p in \<open>simp add: member_sep_def\<close>)
    moreover have "sub_text (u @ c # b) (p + 3) e = sub_text u (p + 3) e"
      by (rule sub_text_left) (use e(3) in simp)
    ultimately show ?thesis
      using display_members_step [OF 1(4) Some e(1), of out] display_members_step [of pos "u @ c # b" p e out] 1(4) IH
      by (simp split del: if_split cong: if_cong)
  qed
qed

lemma text_after_left:
  assumes "members_closed u" and "c \<notin> set (k @ member_sep)" and "strstr b (k @ member_sep) = None"
  shows "text_after (u @ c # b) (k @ member_sep) = text_after u (k @ member_sep)"
proof (cases "find_from u 0 (k @ member_sep)")
  case None
  then show ?thesis
    using find_from_left [OF assms(2) _ assms(3), of 0 u] by (simp add: text_after_def member_sep_def)
next
  case (Some i)
  have at: "take (length (k @ member_sep)) (drop i u) = k @ member_sep" by (rule find_from_bounds(3) [OF Some]) simp
  have "take 3 (drop (i + length k) u) = drop (length k) (take (length (k @ member_sep)) (drop i u))"
    by (simp add: drop_take member_sep_def add.commute)
  then have "take 3 (drop (i + length k) u) = member_sep" unfolding at by simp
  then have "DQUOTE \<in> set (drop (i + length k + 3) u)"
    using assms(1) by (simp add: members_closed_def)
  moreover have "i + length (k @ member_sep) = i + length k + 3" by (simp add: member_sep_def)
  ultimately have q: "DQUOTE \<in> set (drop (i + length (k @ member_sep)) u)" by metis
  then have "quote_from (u @ c # b) (i + length (k @ member_sep)) = quote_from u (i + length (k @ member_sep))"
    by (rule quote_from_left)
  moreover obtain j where j: "quote_from u (i + length (k @ member_sep)) = Some j"
    using q by (auto simp: quote_from_def strchr_until)
  moreover have "j \<le> length u" using j by (auto simp: quote_from_def)
  ultimately show ?thesis
    using find_from_left [OF assms(2) _ assms(3), of 0 u] Some
    by (simp add: text_after_def sub_text_left member_sep_def)
qed

section \<open>The rows hold no separator\<close>

text \<open>Texts that can stand in a response: no quote, and not a lone colon.\<close>

fun plain_value :: "svalue \<Rightarrow> bool" where
  "plain_value (V_STRING s) = (DQUOTE \<notin> set s \<and> s \<noteq> '':'')"
| "plain_value _ = True"

definition plain_rows :: "row list \<Rightarrow> bool" where
  "plain_rows rs = list_all (list_all plain_value) rs"

lemma no_quote_no_separator: "DQUOTE \<notin> set s \<Longrightarrow> strstr s member_sep = None"
proof (induction s)
  case (Cons x s)
  then show ?case by (auto simp: member_sep_def)
qed (simp add: member_sep_def)

lemma quoted_no_separator:
  assumes "DQUOTE \<notin> set s" and "s \<noteq> '':''"
  shows "strstr (quoted s) member_sep = None"
proof -
  have "strstr (s @ [DQUOTE]) member_sep = None" if "DQUOTE \<notin> set s" for s
    using that by (induction s) (auto simp: member_sep_def)
  moreover have "take 3 (DQUOTE # s @ [DQUOTE]) \<noteq> member_sep"
    using assms by (cases s; cases "tl s") (auto simp: member_sep_def)
  ultimately show ?thesis using assms(1) by (simp add: quoted_def member_sep_def eval_nat_numeral)
qed

lemma show_int_no_quote: "DQUOTE \<notin> set (show_int i)"
proof -
  have "DQUOTE \<notin> set (show_nat n)" for n
    using show_nat_digits [of DQUOTE n] by (auto simp: is_digit_def)
  then show ?thesis by (simp add: show_int_def)
qed

lemma commas_no_separator:
  "list_all (\<lambda>s. strstr s member_sep = None) ss \<Longrightarrow> strstr (commas ss) member_sep = None"
proof (induction ss rule: commas.induct)
  case (3 s t ss)
  then show ?case using strstr_joined [of "CHR '',''" member_sep s] by (simp add: member_sep_def)
qed (simp_all add: member_sep_def)

lemma array_no_separator:
  assumes "list_all (\<lambda>s. strstr s member_sep = None) ss"
  shows "strstr (CHR ''['' # commas ss @ '']'') member_sep = None"
  using strstr_joined [of "CHR '']''" member_sep "commas ss" "[]"] commas_no_separator [OF assms]
  by (simp add: member_sep_def)

lemma rows_no_separator:
  assumes "plain_rows rs"
  shows "strstr (bare_text (rows_json rs)) member_sep = None"
proof -
  have cell: "strstr (bare_text (value_json v)) member_sep = None" if "plain_value v" for v
    using that by (cases v) (simp_all add: quoted_no_separator no_quote_no_separator show_int_no_quote del: strstr.simps)
  have "strstr (bare_text (JArr (map value_json r))) member_sep = None" if "list_all plain_value r" for r
    using array_no_separator [of "map (bare_text \<circ> value_json) r"] that cell by (simp add: list_all_iff)
  then show ?thesis
    using array_no_separator [of "map (\<lambda>r. bare_text (JArr (map value_json r))) rs"] assms
    by (simp add: rows_json_def plain_rows_def list_all_iff comp_def)
qed

section \<open>Left of the rows\<close>

lemma strstr_suffix:
  assumes "strstr s p = None" and "p \<noteq> []"
  shows "strstr s (k @ p) = None"
proof -
  have "take (length (k @ p)) (drop i s) \<noteq> k @ p" for i
  proof
    assume a: "take (length (k @ p)) (drop i s) = k @ p"
    have "take (length p) (drop (i + length k) s) = drop (length k) (take (length (k @ p)) (drop i s))"
      by (simp add: drop_take add.commute)
    then have "take (length p) (drop (i + length k) s) = p" unfolding a by simp
    with assms show False by (simp add: strstr_None_iff)
  qed
  then show ?thesis using strstr_None_iff [of "k @ p" s] assms(2) by blast
qed

lemma display_response_left:
  assumes "members_closed u" and "c \<noteq> DQUOTE" and "c \<noteq> CHR '':''" and "c \<notin> set ''statuskind''"
    and "strstr b member_sep = None" and "text_after u status_key = Some ''ok''"
  shows "display_response (u @ c # b) = display_members u 0
    (''OK'' @ [LF] @ (case text_after u kind_key of Some kind \<Rightarrow> ''  Statement: '' @ kind @ [LF] | None \<Rightarrow> []))"
proof -
  have c: "c \<notin> set member_sep" using assms(2,3) by (simp add: member_sep_def)
  have "text_after (u @ c # b) (k @ member_sep) = text_after u (k @ member_sep)" if "c \<notin> set k" for k
    by (rule text_after_left [OF assms(1)]) (use that c strstr_suffix [OF assms(5), of k] in \<open>auto simp: member_sep_def\<close>)
  from this [of "DQUOTE # ''status''"] this [of "DQUOTE # ''kind''"]
  have "text_after (u @ c # b) status_key = Some ''ok''" "text_after (u @ c # b) kind_key = text_after u kind_key"
    using assms(2,4,6) by (simp_all add: status_key_def kind_key_def)
  then show ?thesis
    by (simp add: display_response_def display_members_left [OF assms(1) c assms(5)])
qed

text \<open>The answer up to the bracket that opens the rows.\<close>

definition answer_head :: "string \<Rightarrow> column list \<Rightarrow> nat \<Rightarrow> string" where
  "answer_head msg cols n = head_json msg
     @ CHR '','' # quoted ''column_count'' @ CHR '':'' # show_int (wrap32 (int (length cols)))
     @ CHR '','' # quoted ''row_count'' @ CHR '':'' # show_int (wrap32 (int n))
     @ CHR '','' # quoted ''columns'' @ CHR '':'' # ''['' @ commas (map column_fragment cols) @ '']''
     @ CHR '','' # quoted ''rows'' @ '':''"

lemma answer_head_closed: "members_closed (answer_head msg cols n)"
proof -
  have "\<exists>w. answer_head msg cols n = w @ [CHR ''s'', DQUOTE, CHR '':'']"
    unfolding answer_head_def quoted_def
    by (intro exI [of _ "head_json msg
     @ CHR '','' # quoted ''column_count'' @ CHR '':'' # show_int (wrap32 (int (length cols)))
     @ CHR '','' # quoted ''row_count'' @ CHR '':'' # show_int (wrap32 (int n))
     @ CHR '','' # quoted ''columns'' @ CHR '':'' # ''['' @ commas (map column_fragment cols) @ '']''
     @ CHR '','' # DQUOTE # ''row''"]) (simp add: quoted_def)
  then show ?thesis using members_closed_tail [of "CHR ''s''"] by auto
qed

section \<open>The answer to a SELECT on the screen\<close>

text \<open>What the display makes of a column, and of the columns of an answer.\<close>

definition type_text :: "column \<Rightarrow> string" where
  "type_text c = (if col_type c = CT_INT then ''int'' else ''string'')"

definition column_lines :: "string \<Rightarrow> column \<Rightarrow> string" where
  "column_lines key c = ''  '' @ key @ '': '' @ col_name c @ [LF] @ ''  type: '' @ type_text c @ [LF]"

fun shown_columns :: "column list \<Rightarrow> string" where
  "shown_columns [] = []"
| "shown_columns (c # cs) = column_lines '':[name'' c @ concat (map (column_lines ''name'') cs)"

text \<open>A column name that the dialect can write holds no quote.\<close>

definition unquoted :: "column \<Rightarrow> bool" where
  "unquoted c \<longleftrightarrow> DQUOTE \<notin> set (col_name c) \<and> CHR '':'' \<notin> set (col_name c)"

lemma column_fragment_members:
  "column_fragment c @ r = ''name'' @ member_sep @ col_name c @ DQUOTE # [] @ DQUOTE # ''type'' @ member_sep @ type_text c @ DQUOTE # r"
  by (simp add: column_fragment_def member_sep_def quoted_def type_text_def)

lemma fragment_shown:
  assumes "c = DQUOTE \<or> c = CHR '',''" and "DQUOTE \<notin> set k" and "CHR '','' \<notin> set k" and "k \<noteq> [] \<Longrightarrow> hd k \<noteq> CHR ''{''"
    and "strstr (gap @ c # (k @ ''name'') @ [DQUOTE, CHR '':'']) member_sep = None" and "unquoted col"
    and rest: "\<And>pre. members_from pre r (out @ column_lines (k @ ''name'') col) = X"
  shows "members_from pre (gap @ c # k @ column_fragment col @ r) out = X"
proof -
  let ?type = "[] @ DQUOTE # ''type'' @ member_sep @ type_text col @ DQUOTE # r"
  have key: "k @ ''name'' \<noteq> ''status''" "k @ ''name'' \<noteq> ''kind''" by (auto simp: append_eq_Cons_conv)
  have "members_from pre (gap @ c # (k @ ''name'') @ member_sep @ col_name col @ DQUOTE # ?type) out
      = members_from (pre @ gap @ c # (k @ ''name'') @ member_sep @ col_name col @ [DQUOTE]) ?type
          (out @ ''  '' @ (k @ ''name'') @ '': '' @ col_name col @ [LF])"
    using key by (subst member_shown) (use assms(1-6) in \<open>auto simp: unquoted_def hd_append\<close>)
  also have "\<dots> = X"
  proof (subst member_shown)
    show "strstr ([] @ DQUOTE # ''type'' @ [DQUOTE, CHR '':'']) member_sep = None" by (simp add: member_sep_def)
    show "DQUOTE \<notin> set (type_text col)" by (simp add: type_text_def)
  qed (use rest in \<open>simp_all add: column_lines_def\<close>)
  finally show ?thesis by (simp add: column_fragment_members)
qed

lemma more_columns_shown:
  assumes "strstr tail member_sep = None"
  shows "list_all unquoted (col # cols) \<Longrightarrow>
    members_from pre (CHR '','' # commas (map column_fragment (col # cols)) @ tail) out
      = Some (out @ concat (map (column_lines ''name'') (col # cols)))"
proof (induction cols arbitrary: col pre out)
  case Nil
  have "members_from pre ([] @ CHR '','' # [] @ column_fragment col @ tail) out = Some (out @ column_lines ''name'' col)"
    by (rule fragment_shown) (use Nil members_end [OF assms] in \<open>simp_all add: member_sep_def\<close>)
  then show ?case by simp
next
  case (Cons col' cols)
  let ?r = "CHR '','' # commas (map column_fragment (col' # cols)) @ tail"
  have "members_from pre ([] @ CHR '','' # [] @ column_fragment col @ ?r) out
      = Some (out @ concat (map (column_lines ''name'') (col # col' # cols)))"
    by (rule fragment_shown) (use Cons.IH [of col'] Cons.prems in \<open>simp_all add: member_sep_def\<close>)
  then show ?case by simp
qed

lemma columns_shown:
  assumes "strstr tail member_sep = None" and "list_all unquoted cols" and "cols \<noteq> []"
    and "strstr (gap @ DQUOTE # '':[name'' @ [DQUOTE, CHR '':'']) member_sep = None"
  shows "members_from pre (gap @ DQUOTE # '':['' @ commas (map column_fragment cols) @ tail) out = Some (out @ shown_columns cols)"
proof -
  obtain col cs where cols: "cols = col # cs" using assms(3) by (cases cols) auto
  let ?r = "(case cs of [] \<Rightarrow> tail | d # ds \<Rightarrow> CHR '','' # commas (map column_fragment (d # ds)) @ tail)"
  have r: "members_from pre ?r o1 = Some (o1 @ concat (map (column_lines ''name'') cs))" for pre o1
    using more_columns_shown [OF assms(1)] members_end [OF assms(1)] assms(2) cols by (cases cs) auto
  have "members_from pre (gap @ DQUOTE # '':['' @ column_fragment col @ ?r) out = Some (out @ shown_columns cols)"
    by (rule fragment_shown) (use r assms(2,4) cols in \<open>simp_all\<close>)
  moreover have "commas (map column_fragment cols) @ tail = column_fragment col @ ?r"
    using cols by (cases cs) simp_all
  ultimately show ?thesis by simp
qed

text \<open>No member of an answer is named kind.\<close>

lemma kind_key_chars: "c \<notin> set ''kind'' \<Longrightarrow> c \<noteq> DQUOTE \<Longrightarrow> c \<noteq> CHR '':'' \<Longrightarrow> c \<notin> set kind_key"
  by (simp add: kind_key_def member_sep_def)

lemma kind_joined:
  "c \<notin> set ''kind'' \<Longrightarrow> c \<noteq> DQUOTE \<Longrightarrow> c \<noteq> CHR '':'' \<Longrightarrow> strstr a kind_key = None \<Longrightarrow> strstr b kind_key = None \<Longrightarrow>
   strstr (a @ c # b) kind_key = None"
  by (rule strstr_joined) (simp_all add: kind_key_chars, simp add: kind_key_def)

lemma comma_joined:
  "p = member_sep \<or> p = kind_key \<Longrightarrow> strstr a p = None \<Longrightarrow> strstr b p = None \<Longrightarrow> strstr (a @ CHR '','' # b) p = None"
  by (rule strstr_joined) (auto simp: kind_key_def member_sep_def)

lemma kind_fragment:
  assumes "unquoted col"
  shows "strstr (column_fragment col) kind_key = None"
proof -
  have "strstr (DQUOTE # col_name col @ [DQUOTE, DQUOTE]) kind_key = None"
    by (rule strstr_count [where c = "CHR '':''"]) (use assms in \<open>simp add: unquoted_def kind_key_def member_sep_def\<close>)
  then have a: "strstr (DQUOTE # CHR '':'' # DQUOTE # col_name col @ [DQUOTE, DQUOTE]) kind_key = None"
    by (simp add: kind_key_def member_sep_def)
  have b: "strstr (''ype'' @ DQUOTE # CHR '':'' # DQUOTE # type_text col @ [DQUOTE]) kind_key = None"
    by (simp add: type_text_def kind_key_def member_sep_def)
  have "strstr (''nam'' @ CHR ''e'' # (DQUOTE # CHR '':'' # DQUOTE # col_name col @ [DQUOTE, DQUOTE])
      @ CHR ''t'' # ''ype'' @ DQUOTE # CHR '':'' # DQUOTE # type_text col @ [DQUOTE]) kind_key = None"
    by (intro kind_joined a b) (simp_all add: kind_key_def member_sep_def)
  then show ?thesis by (simp add: column_fragment_def quoted_def type_text_def)
qed

lemma kind_commas:
  "list_all (\<lambda>s. strstr s kind_key = None) ss \<Longrightarrow> strstr (commas ss) kind_key = None"
proof (induction ss rule: commas.induct)
  case (3 s t ss)
  then show ?case using kind_joined [of "CHR '',''" s] by simp
qed (simp_all add: kind_key_def member_sep_def)

lemma show_int_quotes [simp]: "count_list (show_int i) DQUOTE = 0"
  using show_int_no_quote by (simp add: count_list_0_iff)

lemma answer_head_no_kind:
  assumes "DQUOTE \<notin> set msg" and "list_all unquoted cols"
  shows "strstr (answer_head msg cols n) kind_key = None"
proof -
  have c: "strstr (commas (map column_fragment cols)) kind_key = None"
    using assms(2) kind_fragment by (intro kind_commas) (simp add: list_all_iff)
  have r: "strstr (commas (map column_fragment cols) @ CHR '']'' # '','' @ quoted ''rows'' @ '':'') kind_key = None"
    by (intro kind_joined c kind_count) (simp_all add: quoted_def)
  have "count_list msg DQUOTE = 0" using assms(1) by (simp add: count_list_0_iff)
  then have m: "strstr (DQUOTE # ''message'' @ DQUOTE # CHR '':'' # DQUOTE # msg @ [DQUOTE]) kind_key = None"
    using kind_joined [of "CHR ''e''" "DQUOTE # ''messag''" "DQUOTE # CHR '':'' # DQUOTE # msg @ [DQUOTE]"]
      kind_count [of "DQUOTE # msg @ [DQUOTE]"] by (simp add: kind_key_def member_sep_def)
  have "strstr (''{'' @ DQUOTE # ''status'' @ DQUOTE # CHR '':'' # DQUOTE # ''ok'' @ [DQUOTE]) kind_key = None"
    by (simp add: kind_key_def member_sep_def)
  moreover have "strstr (DQUOTE # ''column_count'' @ DQUOTE # CHR '':'' # show_int i) kind_key = None"
    "strstr (DQUOTE # ''row_count'' @ DQUOTE # CHR '':'' # show_int i) kind_key = None"
    for i by (intro kind_count; simp)+
  moreover have "strstr ((DQUOTE # ''columns'' @ [DQUOTE, CHR '':''])
      @ CHR ''['' # commas (map column_fragment cols) @ CHR '']'' # '','' @ quoted ''rows'' @ '':'') kind_key = None"
    by (intro kind_joined r kind_count) simp_all
  ultimately have "strstr ((''{'' @ DQUOTE # ''status'' @ DQUOTE # CHR '':'' # DQUOTE # ''ok'' @ [DQUOTE])
      @ CHR '','' # (DQUOTE # ''message'' @ DQUOTE # CHR '':'' # DQUOTE # msg @ [DQUOTE])
      @ CHR '','' # (DQUOTE # ''column_count'' @ DQUOTE # CHR '':'' # show_int (wrap32 (int (length cols))))
      @ CHR '','' # (DQUOTE # ''row_count'' @ DQUOTE # CHR '':'' # show_int (wrap32 (int n)))
      @ CHR '','' # (DQUOTE # ''columns'' @ [DQUOTE, CHR '':''])
      @ CHR ''['' # commas (map column_fragment cols) @ CHR '']'' # '','' @ quoted ''rows'' @ '':'') kind_key = None"
    using m by (intro comma_joined disjI2 refl) (simp_all del: strstr.simps append.simps)
  then show ?thesis by (simp add: answer_head_def head_json_def quoted_def)
qed

lemma answer_head_shown:
  assumes "DQUOTE \<notin> set msg" and "list_all unquoted cols" and "cols \<noteq> []"
  shows "display_members (answer_head msg cols n) 0 out = Some (out @ ''  message: '' @ msg @ [LF] @ shown_columns cols)"
proof -
  let ?gap = "CHR '','' # quoted ''column_count'' @ CHR '':'' # show_int (wrap32 (int (length cols)))
     @ CHR '','' # quoted ''row_count'' @ CHR '':'' # show_int (wrap32 (int n)) @ CHR '','' # DQUOTE # ''columns''"
  let ?tail = "CHR '']'' # CHR '','' # quoted ''rows'' @ '':''"
  let ?r2 = "?gap @ DQUOTE # '':['' @ commas (map column_fragment cols) @ ?tail"
  let ?r1 = "'','' @ DQUOTE # ''message'' @ member_sep @ msg @ DQUOTE # ?r2"
  have number: "strstr (DQUOTE # CHR '':'' # show_int i) member_sep = None" for i
    using no_quote_no_separator [OF show_int_no_quote [of i]] show_int_no_quote [of i]
    by (cases "show_int i") (auto simp: member_sep_def)
  have n: "strstr (quoted ''column_count'' @ CHR '':'' # show_int i) member_sep = None"
    "strstr (quoted ''row_count'' @ CHR '':'' # show_int i) member_sep = None"
    "strstr (DQUOTE # ''columns'' @ DQUOTE # '':[name'' @ [DQUOTE, CHR '':'']) member_sep = None" for i
    using number [of i] by (simp_all add: quoted_def member_sep_def)
  have "strstr ([] @ CHR '','' # (quoted ''column_count'' @ CHR '':'' # show_int (wrap32 (int (length cols))))
      @ CHR '','' # (quoted ''row_count'' @ CHR '':'' # show_int (wrap32 (int n)))
      @ CHR '','' # (DQUOTE # ''columns'' @ DQUOTE # '':[name'' @ [DQUOTE, CHR '':''])) member_sep = None"
    using n by (intro comma_joined disjI1 refl) (simp_all del: strstr.simps(2) append_Cons, simp add: member_sep_def)
  then have gap: "strstr (?gap @ DQUOTE # '':[name'' @ [DQUOTE, CHR '':'']) member_sep = None" by simp
  have tail: "strstr ?tail member_sep = None" by (simp add: quoted_def member_sep_def)
  have cols: "members_from pre ?r2 o1 = Some (o1 @ shown_columns cols)" for pre o1
    by (rule columns_shown [OF tail assms(2,3) gap])
  have msg: "members_from pre ?r1 o1 = Some (o1 @ ''  message: '' @ msg @ [LF] @ shown_columns cols)" for pre o1
    by (subst member_shown) (use assms(1) cols in \<open>simp_all add: member_sep_def\<close>)
  have "members_from [] (''{'' @ DQUOTE # ''status'' @ member_sep @ ''ok'' @ DQUOTE # ?r1) out
      = Some (out @ ''  message: '' @ msg @ [LF] @ shown_columns cols)"
    by (subst member_shown) (use msg in \<open>simp_all add: member_sep_def\<close>)
  then show ?thesis by (simp add: members_from_def answer_head_def head_json_def quoted_def member_sep_def)
qed

lemma answer_shown:
  assumes "res_status res = OK" and "res_table res" and "cols \<noteq> []" and "plain_rows rs"
    and "DQUOTE \<notin> set (res_message res)" and "list_all unquoted cols"
    and "length (answer_head (res_message res) cols (length rs)) < k"
  shows "display_response (take k (answer_text res (cols, rs)))
    = Some (''OK'' @ [LF] @ ''  message: '' @ res_message res @ [LF] @ shown_columns cols)"
proof -
  let ?u = "answer_head (res_message res) cols (length rs)"
  obtain b where b: "bare_text (rows_json rs) = CHR ''['' # b" by (simp add: rows_json_def)
  have "strstr b member_sep = None"
    using rows_no_separator [OF assms(4)] b by (auto split: if_splits)
  then have tail: "strstr (b @ ''}'') member_sep = None"
    using strstr_joined [of "CHR ''}''" member_sep b "[]"] by (simp add: member_sep_def)
  have "answer_text res (cols, rs) = ?u @ CHR ''['' # (b @ ''}'')"
    using assms(1-3) b by (simp add: answer_text_def answer_head_def)
  then have answer: "take k (answer_text res (cols, rs)) = ?u @ CHR ''['' # take (k - Suc (length ?u)) (b @ ''}'')"
    using assms(7) by (simp add: take_Cons')
  have "text_after ?u status_key = Some ''ok''"
    by (simp add: text_after_strstr answer_head_def head_json_def quoted_def status_key_def member_sep_def Let_def)
  then have "display_response (take k (answer_text res (cols, rs))) = display_members ?u 0
      (''OK'' @ [LF] @ (case text_after ?u kind_key of Some kind \<Rightarrow> ''  Statement: '' @ kind @ [LF] | None \<Rightarrow> []))"
    unfolding answer by (intro display_response_left answer_head_closed strstr_take [OF tail]) (simp_all add: member_sep_def)
  then show ?thesis
    using answer_head_no_kind [OF assms(5,6)] answer_head_shown [OF assms(5,6,3)]
    by (simp add: text_after_strstr)
qed

section \<open>Properties\<close>

text \<open>C34. What the prompt shows of the answer to a SELECT, exactly: the message, then a line for the
  name and one for the type of each column (with the brackets of the malformed array before the
  first), and none of the rows. This is for a message and column names without quotes (and names
  without a colon), and for rows whose texts have no quote and are not the single colon, which
  in quotes would look like the separator of a member; it holds for the whole answer and for one
  that the buffer cuts off anywhere behind the bracket that opens the rows.\<close>

theorem select_answer_shown:
  assumes "res_status res = OK" and "res_table res" and "cols \<noteq> []" and "plain_rows rs"
    and "DQUOTE \<notin> set (res_message res)" and "list_all unquoted cols"
    and "length (answer_head (res_message res) cols (length rs)) < k"
  shows "display_response (take k (answer_text res (cols, rs)))
    = Some (''OK'' @ [LF] @ ''  message: '' @ res_message res @ [LF] @ shown_columns cols)"
  by (rule answer_shown [OF assms])

theorem select_answer_shown_witness:
  "display_response (take 8191 (answer_text ((result_ok ''Query OK'')\<lparr>res_table := True\<rparr>)
       ([\<lparr>col_name = ''id'', col_type = CT_INT, col_is_primary = True\<rparr>,
         \<lparr>col_name = ''name'', col_type = CT_STRING, col_is_primary = False\<rparr>], [[V_INT 1, V_STRING ''lost'']])))
   = Some (''OK'' @ [LF] @ ''  message: Query OK'' @ [LF] @ ''  :[name: id'' @ [LF] @ ''  type: int'' @ [LF]
         @ ''  name: name'' @ [LF] @ ''  type: string'' @ [LF])"
proof -
  let ?cols = "[\<lparr>col_name = ''id'', col_type = CT_INT, col_is_primary = True\<rparr>,
     \<lparr>col_name = ''name'', col_type = CT_STRING, col_is_primary = False\<rparr>]"
  have "length (answer_head ''Query OK'' ?cols 1) < 8191" by code_simp
  then show ?thesis
    using select_answer_shown [of "(result_ok ''Query OK'')\<lparr>res_table := True\<rparr>" ?cols "[[V_INT 1, V_STRING ''lost'']]" 8191]
    by (simp add: result_ok_def plain_rows_def unquoted_def column_lines_def type_text_def)
qed

end
