(* ===== verification/End_To_End.thy ===== *)
theory End_To_End
  imports Select_Display
begin

text \<open>
  The client at its prompt and the server behind it, composed (src/cli/client_main.cpp,
  src/network/client.cpp, src/network/server.cpp): a line typed at the prompt is sent over a
  connection of its own, received, parsed, executed, answered, received and displayed. The
  network is one that writes whole lines and loses nothing.
\<close>

section \<open>One connection\<close>

text \<open>A message written whole, with its line feed.\<close>

definition whole_line :: "string \<Rightarrow> string" where
  "whole_line msg = snd (send_line (int (length msg)) 1 msg [])"

lemma whole_line: "whole_line msg = msg @ [LF]"
  by (simp add: whole_line_def send_line_def)

text \<open>
  The server on a connection of a client that sends one line and waits for the answer: the
  state it is left in, waiting for the next client or stopped.
\<close>

definition converse :: "'w os \<Rightarrow> string \<Rightarrow> 'w server \<Rightarrow> 'w server" where
  "converse os bytes s =
     (case recv_line bytes of
        (request, rest) \<Rightarrow>
          if request = [] then s\<lparr>sv_input := rest, sv_output := []\<rparr>
          else (case handle_request os request (sv_exec s) of
                  None \<Rightarrow> s
                | Some (Goodbye msg, ex) \<Rightarrow>
                    \<lparr>sv_phase = Stopped, sv_input = rest, sv_output = whole_line msg, sv_exec = shutdown os ex\<rparr>
                | Some (Reply msg, ex) \<Rightarrow>
                    \<lparr>sv_phase = Listening, sv_input = snd (recv_line rest), sv_output = whole_line msg, sv_exec = ex\<rparr>))"

lemma converse_runs:
  assumes "sv_phase s = Listening" and "recv_line bytes = (request, rest)" and "request \<noteq> []"
    and "handle_request os request (sv_exec s) = Some (Reply msg, ex)" and "fst (recv_line rest) = []"
  shows "rtranclp (server_step os) s (converse os bytes s) \<and> sv_phase (converse os bytes s) = Listening
    \<and> sv_exec (converse os bytes s) = ex \<and> sv_output (converse os bytes s) = msg @ [LF]"
proof -
  let ?s1 = "s\<lparr>sv_phase := Connected, sv_input := bytes, sv_output := []\<rparr>"
  let ?s2 = "\<lparr>sv_phase = Connected, sv_input = rest, sv_output = whole_line msg, sv_exec = ex\<rparr>"
  have "server_step os s ?s1" by (rule server_step.accept [OF assms(1)])
  moreover have "server_step os ?s1 ?s2"
    using server_step.request [of ?s1 request rest os msg ex "int (length msg)" 1 True "whole_line msg"] assms(2-4)
    by (simp add: whole_line_def send_line_def)
  moreover have "server_step os ?s2 (?s2\<lparr>sv_phase := Listening, sv_input := snd (recv_line rest)\<rparr>)"
    by (rule server_step.hang_up) (use assms(5) in \<open>simp_all add: prod_eq_iff\<close>)
  moreover have "converse os bytes s = ?s2\<lparr>sv_phase := Listening, sv_input := snd (recv_line rest)\<rparr>"
    using assms(2-4) by (simp add: converse_def)
  ultimately show ?thesis by (simp add: whole_line)
qed

lemma converse_exits:
  assumes "sv_phase s = Listening" and "recv_line bytes = (request, rest)" and "request \<noteq> []"
    and "handle_request os request (sv_exec s) = Some (Goodbye msg, ex)"
  shows "rtranclp (server_step os) s (converse os bytes s) \<and> sv_phase (converse os bytes s) = Stopped
    \<and> sv_exec (converse os bytes s) = shutdown os ex \<and> sv_output (converse os bytes s) = msg @ [LF]"
proof -
  let ?s1 = "s\<lparr>sv_phase := Connected, sv_input := bytes, sv_output := []\<rparr>"
  have "server_step os s ?s1" by (rule server_step.accept [OF assms(1)])
  moreover have "server_step os ?s1 (converse os bytes s)"
    using server_step.exit [of ?s1 request rest os msg ex "int (length msg)" 1 True "whole_line msg"] assms(2-4)
    by (simp add: converse_def whole_line_def send_line_def)
  ultimately show ?thesis using assms(2-4) by (simp add: converse_def whole_line)
qed

text \<open>What the prompt's \<open>send_sql\<close> returns when this server is at the other end.\<close>

definition ask :: "'w os \<Rightarrow> string \<Rightarrow> 'w server \<Rightarrow> string \<times> 'w server" where
  "ask os sql s =
     (send_sql True (int (length (client_request sql))) 1 (\<lambda>sent. sv_output (converse os sent s)) sql,
      converse os (whole_line (client_request sql)) s)"

text \<open>And what its \<open>send_exit\<close> returns.\<close>

definition ask_exit :: "'w os \<Rightarrow> 'w server \<Rightarrow> string \<times> 'w server" where
  "ask_exit os s =
     (send_exit True (int (length exit_request)) 1 (\<lambda>sent. sv_output (converse os sent s)),
      converse os (whole_line exit_request) s)"

section \<open>Messages\<close>

lemma clean_iff: "clean s \<longleftrightarrow> line_text s \<and> DQUOTE \<notin> set s"
  by (auto simp: clean_def line_text_def list_all_iff)

lemma clean_ident: "ident n \<Longrightarrow> clean n"
proof -
  assume n: "ident n"
  have "\<not> ident_char NUL" "\<not> ident_char LF" "\<not> ident_char CR" "\<not> ident_char DQUOTE"
    by (simp_all add: ident_char_def in_range_def less_eq_char_def is_digit_def)
  then show "clean n" using n by (auto simp: clean_def list_all_iff ident_def word_def)
qed

definition message_short :: "exec_result \<Rightarrow> bool" where
  "message_short res \<longleftrightarrow> short (res_message res) \<and> (res_table res \<longrightarrow> res_status res = OK)"

lemma message_ok: "short m \<Longrightarrow> message_short (result_ok m)"
  by (simp add: message_short_def result_ok_def)

lemma message_error: "short m \<Longrightarrow> message_short (result_error m)"
  by (simp add: message_short_def result_error_def)

lemma message_no_table: "clean n \<Longrightarrow> message_short (no_table n)"
  unfolding no_table_def by (intro message_error short_snprintf) simp_all

lemma message_no_column: "clean c \<Longrightarrow> clean n \<Longrightarrow> message_short (no_column c n)"
  unfolding no_column_def by (intro message_error short_snprintf) simp_all

lemmas message_intros = message_ok message_error message_no_table message_no_column short_snprintf

lemma in_session_message:
  assumes "\<And>D. message_short (fst (f D))"
  shows "message_short (fst (in_session f S))"
proof (cases "ss_db S")
  case None
  have "message_short (result_error (''No database selected. Use '' @ squote ''use <dbname>'' @ '' first.''))"
    by (intro message_error short_constant) (simp_all add: squote_def)
  then show ?thesis using None by (simp add: in_session_def)
next
  case (Some D)
  then show ?thesis using assms [of D] by (simp add: in_session_def case_prod_beta)
qed

lemma on_relation_message:
  assumes "ident n" and "\<And>R. message_short (fst (f R))"
  shows "message_short (fst (on_relation n f D))"
proof (cases "D n")
  case None
  then show ?thesis using assms(1) by (simp add: on_relation_def message_no_table clean_ident)
next
  case (Some R)
  then show ?thesis using assms(2) [of R] by (simp add: on_relation_def case_prod_beta)
qed

lemma unknown_column_clean:
  "pred_option where_ok wh \<Longrightarrow> pred_option ident c \<Longrightarrow> unknown_column R c wh = Some n \<Longrightarrow> clean n"
  by (auto simp: unknown_column_def where_ok_def clean_ident split: option.splits if_splits)

lemma sp_delete_message:
  assumes "ident (del_table_name s)" and "pred_option where_ok (del_where s)"
  shows "message_short (fst (sp_delete s R))"
  using assms unknown_column_clean [OF assms(2), of None]
  by (auto simp: sp_delete_def Let_def clean_show_int clean_ident intro!: message_intros split: option.splits)

lemma sp_update_message:
  assumes "ident (upd_table_name s)" and "ident (upd_set_column s)" and "pred_option where_ok (upd_where s)"
  shows "message_short (fst (sp_update s R))"
  using assms unknown_column_clean [OF assms(3), of "Some (upd_set_column s)"]
  by (auto simp: sp_update_def Let_def clean_show_int clean_ident intro!: message_intros split: option.splits)

lemma sp_insert_message: "message_short (fst (sp_insert s R))"
proof -
  have "message_short (result_ok ''1 row inserted'')" by (intro message_ok short_constant) simp_all
  then show ?thesis
    by (auto simp: sp_insert_def Let_def clean_show_int clean_show_nat intro!: message_intros split: option.splits)
qed

lemma sp_query_message:
  assumes "stmt_ok (SELECT s)"
  shows "message_short (fst (sp_query s S))"
proof (cases "ss_db S")
  case None
  then show ?thesis using in_session_message [of "Pair (no_table [])" S] by (simp add: sp_query_def message_no_table)
next
  case (Some D)
  have names: "clean (sel_table_name s)" "clean (sel_column_name s)" "pred_option where_ok (sel_where s)"
    using assms by (auto simp: clean_ident)
  have unknown: "clean c" if "unknown_column R (if sel_column_name s = ''*'' then None else Some (sel_column_name s)) (sel_where s) = Some c" for R c
    using that unknown_column_clean [OF names(3), of "if sel_column_name s = ''*'' then None else Some (sel_column_name s)" R c] assms
    by (auto split: if_splits)
  have "message_short ((result_ok ''Query OK'')\<lparr>res_table := True\<rparr>)"
    by (simp add: message_short_def result_ok_def short_def)
  then have "message_short (fst (sp_select s R))" for R
    using unknown [of R] names(1) by (auto simp: sp_select_def Let_def intro!: message_no_column split: option.splits)
  then have found: "message_short (fst (case sp_select s R of (res, None) \<Rightarrow> (res, S) | (res, Some a) \<Rightarrow> (res, S\<lparr>ss_answer := a\<rparr>)))" for R
  proof -
    obtain res a where a: "sp_select s R = (res, a)" by fastforce
    with \<open>\<And>R. message_short (fst (sp_select s R))\<close> [of R] show ?thesis by (cases a) simp_all
  qed
  show ?thesis
    using Some names(1) found by (cases "D (sel_table_name s)") (simp_all add: sp_query_def message_no_table)
qed

lemma statement_message:
  assumes "is_error st \<or> stmt_ok st"
  shows "message_short (fst (sp_execute ok st S))"
proof (cases st)
  case (CREATE_TABLE s)
  have "message_short (fst (sp_create_table s D))" for D
    using assms(1) CREATE_TABLE by (auto simp: sp_create_table_def is_error_def Let_def clean_ident intro!: message_intros)
  then show ?thesis using CREATE_TABLE in_session_message by simp
next
  case (DROP_TABLE n)
  have "message_short (fst (sp_drop_table n D))" for D
    using assms(1) DROP_TABLE by (auto simp: sp_drop_table_def is_error_def clean_ident intro!: message_intros)
  then show ?thesis using DROP_TABLE in_session_message by simp
next
  case (SELECT s)
  then show ?thesis using assms sp_query_message by (simp add: is_error_def)
qed (use assms in \<open>auto simp: is_error_def clean_ident intro!: message_intros in_session_message on_relation_message sp_delete_message
      sp_update_message sp_insert_message\<close>)

section \<open>A typed statement\<close>

lemma request_line:
  assumes "line_text sql"
  shows "line_text (client_request sql)" and "length (client_request sql) < max_msg" and "client_request sql \<noteq> []"
proof -
  have "line_text (request_prefix @ sql @ [DQUOTE, CHR ''}''])"
    using assms by (auto simp: line_text_def request_prefix_def quoted_def)
  then show "line_text (client_request sql)"
    by (auto simp: client_request_prefix snprintf_def line_text_def dest: in_set_takeD)
  show "length (client_request sql) < max_msg"
    by (simp add: client_request_prefix snprintf_def max_msg_def)
  show "client_request sql \<noteq> []" by (simp add: client_request_take request_prefix_def)
qed

lemma request_received:
  assumes "line_text sql"
  shows "\<exists>rest. recv_line (client_request sql @ [LF]) = (client_request sql, rest) \<and> fst (recv_line rest) = []"
  using recv_line_text [OF request_line(1,2) [OF assms], of "[]"]
  by (simp add: recv_line_def max_msg_def eval_nat_numeral)

lemma line_text_simps [simp]:
  "line_text []" "line_text (c # s) = (c \<noteq> NUL \<and> c \<noteq> LF \<and> c \<noteq> CR \<and> line_text s)" "line_text (s @ t) = (line_text s \<and> line_text t)"
  by (auto simp: line_text_def)

lemma clean_line: "clean s \<Longrightarrow> line_text s"
  by (simp add: clean_iff)

lemma line_text_commas: "list_all line_text ss \<Longrightarrow> line_text (commas ss)"
  by (induction ss rule: commas.induct) auto

text \<open>A line is received up to the size of the buffer.\<close>

lemma line_received:
  assumes "line_text l"
  shows "fst (recv_line (l @ [LF])) = take (max_msg - 1) l"
proof (cases "length l < max_msg")
  case True
  then show ?thesis using recv_line_text [OF assms True, of "[]"] by simp
next
  case False
  let ?h = "take (max_msg - 1) l"
  have h: "line_text ?h" using assms by (auto simp: line_text_def dest: in_set_takeD)
  have "recv_loop (length ?h) (?h @ drop (max_msg - 1) l @ [LF]) = (?h, drop (max_msg - 1) l @ [LF])"
    by (rule recv_loop_full [OF h])
  moreover have "length ?h = max_msg - 1" using False by simp
  moreover have "?h @ drop (max_msg - 1) l @ [LF] = l @ [LF]" by (simp only: append_assoc [symmetric] append_take_drop_id)
  ultimately have "recv_loop (max_msg - 1) (l @ [LF]) = (?h, drop (max_msg - 1) l @ [LF])" by (simp only:)
  moreover have "c_str ?h = ?h" using h by (intro c_str_id) (simp add: line_text_def)
  ultimately show ?thesis by (simp add: recv_line_def)
qed

text \<open>The answers of a server whose tables hold what requests can bring into them.\<close>

definition answer_served :: "column list \<times> row list \<Rightarrow> bool" where
  "answer_served a \<longleftrightarrow> rows_typed named_column plain_cell (fst a) (snd a)"

lemma session_answer: "session_served S \<Longrightarrow> answer_served (ss_answer S)"
  by (simp add: session_served_def session_typed_def answer_served_def)

lemma ident_chars: "ident n \<Longrightarrow> CHR '':'' \<notin> set n"
proof -
  have "\<not> ident_char (CHR '':'')" by (simp add: ident_char_def in_range_def less_eq_char_def is_digit_def)
  then show "ident n \<Longrightarrow> CHR '':'' \<notin> set n" by (auto simp: list_all_iff ident_def word_def)
qed

lemma named_unquoted: "named_column c \<Longrightarrow> unquoted c"
  using clean_ident [of "col_name c"] ident_chars [of "col_name c"] by (auto simp: named_column_def unquoted_def clean_iff)

lemma answer_served_plain:
  assumes "answer_served (cols, rs)"
  shows "plain_rows rs" and "list_all unquoted cols" and "list_all line_text (map column_fragment cols)"
    and "line_text (bare_text (rows_json rs))"
proof -
  have cells: "plain_cell v" if "r \<in> set rs" "v \<in> set r" for r v
    using assms that by (auto simp: answer_served_def rows_typed_def)
  have plain: "plain_cell v \<Longrightarrow> plain_value v" for v by (cases v) (auto simp: plain_cell_def)
  with cells show "plain_rows rs" by (auto simp: plain_rows_def list_all_iff)
  show "list_all unquoted cols" using assms named_unquoted by (auto simp: answer_served_def rows_typed_def list_all_iff)
  have name: "line_text (col_name c)" if "c \<in> set cols" for c
    using assms that clean_ident [of "col_name c"] clean_line
    by (auto simp: answer_served_def rows_typed_def named_column_def)
  then show "list_all line_text (map column_fragment cols)"
    by (auto simp: list_all_iff column_fragment_def quoted_def)
  have line: "plain_cell v \<Longrightarrow> line_text (bare_text (value_json v))" for v
    using clean_line [OF clean_show_int] by (cases v) (auto simp: plain_cell_def quoted_def)
  have "list_all line_text (map (bare_text \<circ> value_json) r)" if "r \<in> set rs" for r
    using cells [OF that] line by (auto simp: list_all_iff)
  then have "list_all line_text (map (bare_text \<circ> (JArr \<circ> map value_json)) rs)"
    using line_text_commas by (auto simp: list_all_iff comp_def)
  then show "line_text (bare_text (rows_json rs))"
    using line_text_commas [of "map (bare_text \<circ> (JArr \<circ> map value_json)) rs"] by (simp add: rows_json_def comp_def)
qed

lemma answer_line:
  assumes "short (res_message res)" and "answer_served a"
  shows "line_text (answer_text res a)"
proof -
  obtain cols rs where a: "a = (cols, rs)" by fastforce
  note plain = answer_served_plain [OF assms(2) [unfolded a]]
  have m: "line_text (res_message res)" using assms(1) by (simp add: short_def clean_line)
  have n: "line_text (show_int i)" for i by (simp add: clean_line clean_show_int)
  show ?thesis
    using m n plain(4) line_text_commas [OF plain(3)]
    by (auto simp: a answer_text_def serialize_status_json head_json_def quoted_def)
qed

lemma line_typed:
  assumes "line_text sql" and "length sql < sql_room"
  shows "read_line max_input (sql @ LF # rest) = Some (sql, rest)"
proof -
  have "fgets max_input (sql @ LF # rest) = Some (sql @ [LF], rest)"
    using assms fgets_loop_line [of sql "max_input - 1" rest]
    by (auto simp: fgets_def line_text_def max_input_def sql_room_def max_msg_def)
  moreover have "c_str (sql @ [LF]) = sql @ [LF]"
    by (rule c_str_id) (use assms(1) in \<open>auto simp: line_text_def\<close>)
  moreover have "trim_newline (sql @ [LF]) = sql"
    using assms(1) by (cases sql rule: rev_cases) (auto simp: trim_newline_def line_text_def)
  ultimately show ?thesis by (simp add: read_line_def)
qed

text \<open>What the prompt prints for a result: its message, and the columns of a SELECT's answer.\<close>

definition shown :: "exec_result \<times> column list \<times> row list \<Rightarrow> string" where
  "shown p = (case p of (res, cols, _) \<Rightarrow>
     if res_status res = ERROR then ''ERROR: '' @ res_message res @ [LF]
     else ''OK'' @ [LF] @ ''  message: '' @ res_message res @ [LF] @ (if res_table res then shown_columns cols else []))"

text \<open>An answer that is not cut off before its rows.\<close>

definition answer_fits :: "exec_result \<times> column list \<times> row list \<Rightarrow> bool" where
  "answer_fits p = (case p of (res, cols, rs) \<Rightarrow>
     res_table res \<longrightarrow> length (answer_head (res_message res) cols (length rs)) < max_msg - 1)"

lemma answer_displayed:
  assumes "message_short res" and "answer_served a" and "answer_fits (res, a)"
  shows "display_response (fst (recv_line (answer_text res a @ [LF]))) = Some (shown (res, a))"
    and "fst (recv_line (answer_text res a @ [LF])) \<noteq> []"
proof -
  obtain cols rs where a: "a = (cols, rs)" by fastforce
  have short: "short (res_message res)" and msg: "clean (res_message res)" "length (res_message res) < 512"
    using assms(1) by (simp_all add: message_short_def short_def)
  note received = line_received [OF answer_line [OF short assms(2)]]
  note plain = answer_served_plain [OF assms(2) [unfolded a]]
  have quote: "DQUOTE \<notin> set (res_message res)" using msg by (simp add: clean_iff)
  show "display_response (fst (recv_line (answer_text res a @ [LF]))) = Some (shown (res, a))"
  proof (cases "res_table res \<and> cols \<noteq> []")
    case True
    then have "res_status res = OK" using assms(1) by (simp add: message_short_def)
    with True answer_shown [OF _ _ _ plain(1) quote plain(2), of "max_msg - 1"] assms(3) received a
    show ?thesis by (simp add: shown_def answer_fits_def)
  next
    case False
    then have status: "answer_text res a = serialize_status (if res_status res = ERROR then ''error'' else ''ok'') (res_message res)"
      using assms(1) a by (auto simp: answer_text_def message_short_def)
    then have "length (answer_text res a) < max_msg - 1"
      using msg(2) by (simp add: serialize_status_json quoted_def max_msg_def)
    then have "fst (recv_line (answer_text res a @ [LF])) = answer_text res a" using received by simp
    then show ?thesis
      using status False display_error [of "res_message res"] display_ok [OF quote] a quote
      by (auto simp: shown_def takeWhile_neq_all)
  qed
  have "answer_text res a \<noteq> []" by (simp add: answer_text_def serialize_status_json head_json_def)
  then show "fst (recv_line (answer_text res a @ [LF])) \<noteq> []" using received by (simp add: max_msg_def)
qed

text \<open>A text that can be typed at the prompt: one line, no quotes, within the buffers, not a command.\<close>

definition typeable :: "string \<Rightarrow> bool" where
  "typeable sql \<longleftrightarrow> sql \<notin> {[], ''exit'', ''quit'', ''help''} \<and> clean sql \<and> length sql < sql_room"

text \<open>The results of a run, each with the answer that was there after it.\<close>

fun sp_answers :: "bool list \<Rightarrow> sql_statement list \<Rightarrow> session \<Rightarrow> (exec_result \<times> column list \<times> row list) list \<times> session" where
  "sp_answers (ok # oks) (st # sts) S =
     (let (r, S1) = sp_execute ok st S; (rs, S2) = sp_answers oks sts S1 in ((r, ss_answer S1) # rs, S2))"
| "sp_answers _ _ S = ([], S)"

text \<open>The same on the engine.\<close>

fun run_answers :: "'w os \<Rightarrow> sql_statement list \<Rightarrow> 'w executor
    \<Rightarrow> ((exec_result \<times> column list \<times> row list) list \<times> 'w executor) option" where
  "run_answers os [] ex = Some ([], ex)"
| "run_answers os (st # sts) ex = do {
     (r, ex1) \<leftarrow> execute os st ex;
     (rs, ex2) \<leftarrow> run_answers os sts ex1;
     Some ((r, tb_columns (ex_result ex1), tb_rows (ex_result ex1)) # rs, ex2)
   }"

lemma typed_request:
  assumes "typeable sql"
  shows "request_statement (client_request sql) = Some (the (parse_sql (Some sql)))"
proof -
  have "parse_request_sql (client_request sql) = sql"
    using assms by (simp add: typeable_def clean_iff request_sql Let_def takeWhile_neq_all)
  then show ?thesis
    using assms parse_sql_total [of "Some sql"] by (auto simp: request_statement_def typeable_def Let_def)
qed

lemma statement_asked:
  assumes "server_inv s" and "sv_phase s = Listening" and "typeable sql"
  shows "\<exists>ok res t. sp_execute ok (the (parse_sql (Some sql))) (abs_session (sv_exec s)) = (res, abs_session (sv_exec t))
    \<and> execute os (the (parse_sql (Some sql))) (sv_exec s) = Some (res, sv_exec t)
    \<and> rtranclp (server_step os) s t \<and> sv_phase t = Listening \<and> message_short res
    \<and> answer_served (ss_answer (abs_session (sv_exec t)))
    \<and> ask os sql s = (fst (recv_line (answer_text res (ss_answer (abs_session (sv_exec t))) @ [LF])), t)"
proof -
  let ?st = "the (parse_sql (Some sql))" and ?req = "client_request sql"
  let ?ok = "fst (os_effect os ?st (sv_exec s))" and ?t = "converse os (?req @ [LF]) s"
  have line: "line_text sql" using assms(3) by (simp add: typeable_def clean_line)
  obtain reply ex1 where ex1: "handle_request os ?req (sv_exec s) = Some (reply, ex1)" "session_served (abs_session ex1)"
      "\<forall>st. \<not> is_exit_request ?req \<and> request_statement ?req = Some st \<longrightarrow>
         (\<exists>res. execute os st (sv_exec s) = Some (res, ex1) \<and> reply = Reply (answer_text res (ss_answer (abs_session ex1)))
            \<and> sp_execute (fst (os_effect os st (sv_exec s))) st (abs_session (sv_exec s)) = (res, abs_session ex1))"
    using handle_request_refines [of "sv_exec s" os ?req] assms(1) by (auto simp: server_inv_def)
  obtain res where run: "sp_execute ?ok ?st (abs_session (sv_exec s)) = (res, abs_session ex1)"
      "reply = Reply (answer_text res (ss_answer (abs_session ex1)))" "execute os ?st (sv_exec s) = Some (res, ex1)"
    using ex1(3) typed_request [OF assms(3)] client_not_exit by blast
  have "is_error ?st \<or> stmt_ok ?st" using parse_sql_total [of "Some sql"] by auto
  then have message: "message_short res" using statement_message [of ?st ?ok "abs_session (sv_exec s)"] run(1) by simp
  obtain rest where "recv_line (?req @ [LF]) = (?req, rest)" "fst (recv_line rest) = []"
    using request_received [OF line] by blast
  then have t: "rtranclp (server_step os) s ?t" "sv_phase ?t = Listening" "sv_exec ?t = ex1"
      "sv_output ?t = answer_text res (ss_answer (abs_session ex1)) @ [LF]"
    using converse_runs [OF assms(2) _ request_line(3) [OF line] ex1(1) [unfolded run(2)]] by simp_all
  have "ask os sql s = (fst (recv_line (sv_output ?t)), ?t)"
    by (simp add: ask_def send_sql_def whole_line send_line_def)
  then show ?thesis using run(1,3) t message session_answer [OF ex1(2)] by metis
qed

lemma statement_typed:
  assumes "server_inv s" and "sv_phase s = Listening" and "typeable sql"
  shows "\<exists>ok res t. sp_execute ok (the (parse_sql (Some sql))) (abs_session (sv_exec s)) = (res, abs_session (sv_exec t))
    \<and> execute os (the (parse_sql (Some sql))) (sv_exec s) = Some (res, sv_exec t) \<and> rtranclp (server_step os) s t \<and> sv_phase t = Listening
    \<and> (answer_fits (res, ss_answer (abs_session (sv_exec t))) \<longrightarrow>
        (\<forall>rest out. client_loop (ask os) quit (sql @ LF # rest) s out
           = client_loop (ask os) quit rest t (out @ prompt @ shown (res, ss_answer (abs_session (sv_exec t))))))"
proof -
  obtain ok res t where t: "sp_execute ok (the (parse_sql (Some sql))) (abs_session (sv_exec s)) = (res, abs_session (sv_exec t))"
      "execute os (the (parse_sql (Some sql))) (sv_exec s) = Some (res, sv_exec t)" "rtranclp (server_step os) s t" "sv_phase t = Listening" "message_short res"
      "answer_served (ss_answer (abs_session (sv_exec t)))"
      "ask os sql s = (fst (recv_line (answer_text res (ss_answer (abs_session (sv_exec t))) @ [LF])), t)"
    using statement_asked [OF assms] by blast
  have sql: "line_text sql" "length sql < sql_room" "sql \<notin> {[], ''exit'', ''quit'', ''help''}"
    using assms(3) by (auto simp: typeable_def clean_line)
  have "client_loop (ask os) quit (sql @ LF # rest) s out
      = client_loop (ask os) quit rest t (out @ prompt @ shown (res, ss_answer (abs_session (sv_exec t))))"
    if "answer_fits (res, ss_answer (abs_session (sv_exec t)))" for rest out
    using sql(3) line_typed [OF sql(1,2), of rest] answer_displayed [OF t(5,6) that] t(7)
    by (subst client_loop.simps) (auto simp: Let_def)
  with t(1-4) show ?thesis by blast
qed

lemma server_steps_inv: "rtranclp (server_step os) s t \<Longrightarrow> server_inv s \<Longrightarrow> server_inv t"
  by (induction rule: rtranclp_induct) (auto intro: server_step_inv)

end
