(* ===== verification/Typed_Sessions.thy ===== *)
theory Typed_Sessions
  imports End_To_End
begin

text \<open>
  Sessions typed at the client's prompt, line after line, up to the exit: what the server does,
  what the client prints, and what is in the files afterwards. A sample session with a typing
  error and a SELECT shows that the hypotheses hold together.
\<close>

section \<open>Whole sessions\<close>

lemma typed_session:
  assumes "server_reachable os w s" and "sv_phase s = Listening" and "list_all typeable sqls"
  shows "\<exists>oks rs t. sp_answers oks (statements_of sqls) (abs_session (sv_exec s)) = (rs, abs_session (sv_exec t))
    \<and> run_answers os (statements_of sqls) (sv_exec s) = Some (rs, sv_exec t)
    \<and> rtranclp (server_step os) s t \<and> sv_phase t = Listening \<and> length rs = length sqls
    \<and> (list_all answer_fits rs \<longrightarrow>
         client_loop (ask os) quit (concat (map (\<lambda>sql. sql @ [LF]) sqls) @ rest) s out
         = client_loop (ask os) quit rest t (out @ concat (map (\<lambda>p. prompt @ shown p) rs)))"
  using assms(3,2) server_reachable_inv [OF assms(1)]
proof (induction sqls arbitrary: s out)
  case Nil
  then show ?case by (intro exI [of _ "[]"] exI [of _ s]) (simp add: statements_of_def)
next
  case (Cons sql sqls)
  have sql: "typeable sql" "list_all typeable sqls" using Cons.prems(1) by simp_all
  obtain ok res t where t: "sp_execute ok (the (parse_sql (Some sql))) (abs_session (sv_exec s)) = (res, abs_session (sv_exec t))"
      "execute os (the (parse_sql (Some sql))) (sv_exec s) = Some (res, sv_exec t)" "rtranclp (server_step os) s t" "sv_phase t = Listening"
      "\<And>rest out. answer_fits (res, ss_answer (abs_session (sv_exec t))) \<Longrightarrow> client_loop (ask os) quit (sql @ LF # rest) s out
         = client_loop (ask os) quit rest t (out @ prompt @ shown (res, ss_answer (abs_session (sv_exec t))))"
    using statement_typed [OF Cons.prems(3,2) sql(1), of os quit] by blast
  let ?p = "(res, ss_answer (abs_session (sv_exec t)))"
  obtain oks rs u where u: "sp_answers oks (statements_of sqls) (abs_session (sv_exec t)) = (rs, abs_session (sv_exec u))"
      "run_answers os (statements_of sqls) (sv_exec t) = Some (rs, sv_exec u)" "rtranclp (server_step os) t u" "sv_phase u = Listening" "length rs = length sqls"
      "list_all answer_fits rs \<Longrightarrow>
       client_loop (ask os) quit (concat (map (\<lambda>sql. sql @ [LF]) sqls) @ rest) t (out @ prompt @ shown ?p)
       = client_loop (ask os) quit rest u ((out @ prompt @ shown ?p) @ concat (map (\<lambda>p. prompt @ shown p) rs))"
    using Cons.IH [OF sql(2) t(4) server_steps_inv [OF t(3) Cons.prems(3)], of "out @ prompt @ shown ?p"] by blast
  have "sp_answers (ok # oks) (statements_of (sql # sqls)) (abs_session (sv_exec s)) = (?p # rs, abs_session (sv_exec u))"
    using t(1) u(1) by (simp add: statements_of_def)
  moreover have "run_answers os (statements_of (sql # sqls)) (sv_exec s) = Some (?p # rs, sv_exec u)"
    using t(2) u(2) by (simp add: statements_of_def)
  moreover have "rtranclp (server_step os) s u" using t(3) u(3) by (rule rtranclp_trans)
  moreover have "client_loop (ask os) quit (concat (map (\<lambda>sql. sql @ [LF]) (sql # sqls)) @ rest) s out
      = client_loop (ask os) quit rest u (out @ concat (map (\<lambda>p. prompt @ shown p) (?p # rs)))" if "list_all answer_fits (?p # rs)"
    using t(5) u(6) that by simp
  ultimately show ?case using u(4,5) by (intro exI [of _ "ok # oks"] exI [of _ "?p # rs"] exI [of _ u]) simp
qed

lemma server_steps_reachable: "rtranclp (server_step os) s t \<Longrightarrow> server_reachable os w s \<Longrightarrow> server_reachable os w t"
  by (induction rule: rtranclp_induct) (auto intro: server_reachable.step)

section \<open>A session with a typing error and a SELECT\<close>

definition sample_lines :: "string list" where
  "sample_lines = [''use d'', ''create table t (id int primary, n int)'', ''insert into t values (7, 8)'', ''selec n'', ''select n from t'']"

definition sample_statements :: "sql_statement list" where
  "sample_statements = [USE ''d'',
     CREATE_TABLE \<lparr>ct_table_name = ''t'', ct_columns = [\<lparr>cd_name = ''id'', cd_type = ''int'', cd_is_primary = True\<rparr>,
       \<lparr>cd_name = ''n'', cd_type = ''int'', cd_is_primary = False\<rparr>]\<rparr>,
     INSERT \<lparr>ins_table_name = ''t'', ins_values = [''7'', ''8''], ins_is_int = [True, True]\<rparr>,
     INVALID ''Line 1:1: Unexpected token, expected a SQL statement keyword'',
     SELECT \<lparr>sel_column_name = ''n'', sel_table_name = ''t'', sel_where = None\<rparr>]"

lemma sample_lines_parsed: "statements_of sample_lines = sample_statements"
  by code_simp

lemma sample_lines_length: "length sample_lines = 5"
  by (simp add: sample_lines_def)

lemma sample_lines_typeable: "list_all typeable sample_lines"
  by (simp add: sample_lines_def typeable_def sql_room_def request_prefix_length max_msg_def)

definition sample_shown :: "string" where
  "sample_shown = concat (map (\<lambda>s. prompt @ s)
     [''OK'' @ [LF] @ ''  message: Using database '' @ squote ''d'' @ [LF],
      ''OK'' @ [LF] @ ''  message: Table '' @ squote ''t'' @ '' created'' @ [LF],
      ''OK'' @ [LF] @ ''  message: 1 row inserted'' @ [LF],
      ''ERROR: Line 1:1: Unexpected token, expected a SQL statement keyword'' @ [LF],
      ''OK'' @ [LF] @ ''  message: Query OK'' @ [LF] @ ''  :[name: n'' @ [LF] @ ''  type: int'' @ [LF]])"

lemma sp_answers_length: "length (fst (sp_answers oks sts S)) = min (length oks) (length sts)"
  by (induction oks sts S rule: sp_answers.induct) (auto split: prod.split)

lemma sample_answers:
  assumes "sp_answers oks sample_statements S = (rs, T)" and "length rs = 5"
  shows "list_all answer_fits rs \<and> concat (map (\<lambda>p. prompt @ shown p) rs) = sample_shown
    \<and> (\<exists>D R. ss_db T = Some D \<and> D ''t'' = Some R \<and> rel_rows R = [[literal_value True ''7'', literal_value True ''8'']]
        \<and> rel_columns R = [\<lparr>col_name = ''id'', col_type = CT_INT, col_is_primary = True\<rparr>,
          \<lparr>col_name = ''n'', col_type = CT_INT, col_is_primary = False\<rparr>])"
proof -
  have "5 \<le> length oks" using sp_answers_length [of oks sample_statements S] assms by (simp add: sample_statements_def)
  then obtain o1 o2 o3 o4 o5 os where oks: "oks = o1 # o2 # o3 # o4 # o5 # os"
    by (auto simp: Suc_le_length_iff numeral_eq_Suc)
  have cols: "convert_column \<lparr>cd_name = ''id'', cd_type = ''int'', cd_is_primary = True\<rparr>
      = \<lparr>col_name = ''id'', col_type = CT_INT, col_is_primary = True\<rparr>"
    "convert_column \<lparr>cd_name = ''n'', cd_type = ''int'', cd_is_primary = False\<rparr>
      = \<lparr>col_name = ''n'', col_type = CT_INT, col_is_primary = False\<rparr>" by code_simp+
  have fits: "length (answer_head ''Query OK'' [\<lparr>col_name = ''n'', col_type = CT_INT, col_is_primary = False\<rparr>] 1) < max_msg - 1"
    by code_simp
  show ?thesis
    using assms(1) fits
    by (auto simp: oks sample_statements_def in_session_def sp_create_table_def cols on_relation_def sp_insert_def column_pos_def key_pos_def
        sp_query_def sp_select_def unknown_column_def satisfies_def Let_def snprintf_fits squote_def answer_fits_def
        shown_def result_ok_def result_error_def sample_shown_def column_lines_def type_text_def)
qed

text \<open>The state of the server after it, and its table.\<close>

lemma sample_session_reached:
  "\<exists>t D R. server_reachable mem_os mem_empty t \<and> sv_phase t = Listening
     \<and> ss_db (abs_session (sv_exec t)) = Some D \<and> D ''t'' = Some R
     \<and> rel_rows R = [[literal_value True ''7'', literal_value True ''8'']]
     \<and> rel_columns R = [\<lparr>col_name = ''id'', col_type = CT_INT, col_is_primary = True\<rparr>,
          \<lparr>col_name = ''n'', col_type = CT_INT, col_is_primary = False\<rparr>]"
proof -
  let ?s = "server_start mem_os mem_empty"
  have start: "sv_phase ?s = Listening" by (simp add: server_start_def)
  obtain oks rs t where t: "sp_answers oks sample_statements (abs_session (sv_exec ?s)) = (rs, abs_session (sv_exec t))"
      "length rs = 5" "rtranclp (server_step mem_os) ?s t" "sv_phase t = Listening"
    using typed_session [OF server_reachable.start [of mem_os mem_empty] start sample_lines_typeable,
        of "Pair []" "[]" "[]"] sample_lines_parsed sample_lines_length
    by (auto simp del: client_loop.simps)
  have "server_reachable mem_os mem_empty t" by (rule server_steps_reachable [OF t(3) server_reachable.start])
  with t(4) sample_answers [OF t(1,2)] show ?thesis by blast
qed

lemma save_mem: "db_data_dir db \<noteq> [] \<Longrightarrow> fst (save_all mem_os db w)"
proof -
  have "fst (save_tables mem_os ts w)" for ts w
    by (induction ts arbitrary: w) (auto simp: save_to_file_def mem_os_def Let_def split: prod.split)
  then show "db_data_dir db \<noteq> [] \<Longrightarrow> fst (save_all mem_os db w)" by (simp add: save_all_def)
qed

lemma sample_state_reached:
  "\<exists>t db tab. server_reachable mem_os mem_empty t \<and> sv_phase t = Listening \<and> ex_current_db (sv_exec t) = Some db
     \<and> fst (save_all mem_os db (ex_world (sv_exec t))) \<and> tab \<in> set (db_tables db) \<and> persistable tab
     \<and> tb_rows tab = [[V_INT 7, V_INT 8]]"
proof -
  obtain t D R where R: "server_reachable mem_os mem_empty t" "sv_phase t = Listening"
      "ss_db (abs_session (sv_exec t)) = Some D" "D ''t'' = Some R"
      "rel_rows R = [[literal_value True ''7'', literal_value True ''8'']]"
      "rel_columns R = [\<lparr>col_name = ''id'', col_type = CT_INT, col_is_primary = True\<rparr>,
          \<lparr>col_name = ''n'', col_type = CT_INT, col_is_primary = False\<rparr>]"
    using sample_session_reached by blast
  obtain db where db: "ex_current_db (sv_exec t) = Some db" "abs_db db ''t'' = Some R" using R(3,4) by auto
  obtain i where i: "get_table db ''t'' = Some i" using db(2) abs_db_None [of db "''t''"] by fastforce
  let ?tab = "db_tables db ! i"
  have inv: "exec_inv (sv_exec t)" using server_reachable_inv [OF R(1)] by (simp add: server_inv_def)
  have tab: "?tab \<in> set (db_tables db)" using get_table_inv(1) [OF _ i] exec_inv_db [OF inv db(1)] by simp
  have "literal_value True ''7'' = V_INT 7" "literal_value True ''8'' = V_INT 8" by code_simp+
  then have rows: "tb_rows ?tab = [[V_INT 7, V_INT 8]]" and cols: "tb_columns ?tab = rel_columns R"
    using db(2) abs_db_Some [OF i] R(5) by auto
  have "list_all name_persists [''id'', ''n'']"
    "row_persists [\<lparr>col_name = ''id'', col_type = CT_INT, col_is_primary = True\<rparr>,
       \<lparr>col_name = ''n'', col_type = CT_INT, col_is_primary = False\<rparr>] [V_INT 7, V_INT 8]" by code_simp+
  then have "persistable ?tab" by (simp add: persistable_def rows cols R(6))
  moreover have "fst (save_all mem_os db (ex_world (sv_exec t)))"
    using exec_inv_db [OF inv db(1)] by (intro save_mem) (simp add: make_db_path_def)
  ultimately show ?thesis using R(1,2) db(1) tab rows by blast
qed

section \<open>Properties\<close>

text \<open>C7. From the prompt to the screen, for typeable lines: texts without quotes, line ends and
  terminators that fit the client's request and are none of the prompt's own commands
  (statements of every kind that need no text literal, and texts that do not parse). When such
  lines are typed one after the other, the server goes through a connection for each and waits
  for the next one, its engine is in the state that executing the statements gives, and its
  database the one a run of the specification gives. If besides no answer to a SELECT has more
  columns than fit the client's buffer, the client prints, each after a prompt, the
  specification's messages, with the columns of the answers to SELECTs. (What becomes of a line
  with a quote is the subject of Server: it is cut off there.)\<close>

theorem typed_session_is_shown:
  assumes "server_reachable os w s" and "sv_phase s = Listening" and "list_all typeable sqls"
  shows "\<exists>oks rs t. sp_answers oks (statements_of sqls) (abs_session (sv_exec s)) = (rs, abs_session (sv_exec t))
    \<and> run_answers os (statements_of sqls) (sv_exec s) = Some (rs, sv_exec t)
    \<and> rtranclp (server_step os) s t \<and> sv_phase t = Listening \<and> length rs = length sqls
    \<and> (list_all answer_fits rs \<longrightarrow>
         client_loop (ask os) quit (concat (map (\<lambda>sql. sql @ [LF]) sqls) @ rest) s out
         = client_loop (ask os) quit rest t (out @ concat (map (\<lambda>p. prompt @ shown p) rs)))"
  by (rule typed_session [OF assms])

theorem typed_session_is_shown_witness:
  "\<exists>t. client_loop (ask mem_os) (Pair []) (concat (map (\<lambda>sql. sql @ [LF]) sample_lines)) (server_start mem_os mem_empty) []
     = Some (sample_shown @ prompt @ goodbye_text, t)"
proof -
  let ?s = "server_start mem_os mem_empty"
  have start: "sv_phase ?s = Listening" by (simp add: server_start_def)
  obtain oks rs t where t: "sp_answers oks sample_statements (abs_session (sv_exec ?s)) = (rs, abs_session (sv_exec t))"
      "length rs = 5" "list_all answer_fits rs \<Longrightarrow>
       client_loop (ask mem_os) (Pair []) (concat (map (\<lambda>sql. sql @ [LF]) sample_lines)) ?s []
       = client_loop (ask mem_os) (Pair []) [] t (concat (map (\<lambda>p. prompt @ shown p) rs))"
    using typed_session_is_shown [OF server_reachable.start [of mem_os mem_empty] start sample_lines_typeable,
        of "Pair []" "[]" "[]"] sample_lines_parsed sample_lines_length
    by (auto simp del: client_loop.simps)
  have "client_loop (ask mem_os) (Pair []) [] t x = Some (x @ prompt @ goodbye_text, t)" for x
    by (subst client_loop.simps) (simp add: read_line_def fgets_def)
  then show ?thesis using t(3) sample_answers [OF t(1,2)] by auto
qed

text \<open>C19. No text ever reaches a table through the server: in every reachable state, whatever bytes
  clients have sent, every value of every table of the selected database, and of the last
  answer, is a 32-bit integer or the empty text, although the dialect has text columns and
  text literals.\<close>

theorem server_tables_hold_no_texts:
  assumes "server_reachable os w s" and "ss_db (abs_session (sv_exec s)) = Some D" and "D n = Some R"
    and "r \<in> set (rel_rows R)" and "v \<in> set r"
  shows "v = V_STRING [] \<or> (\<exists>i. v = V_INT i \<and> in_int32 i)"
proof -
  have "plain_cell v"
    using server_reachable_inv [OF assms(1)] assms(2-5)
    by (auto simp: server_inv_def session_served_def session_typed_def db_typed_def relation_typed_def rows_typed_def)
  then show ?thesis by (cases v) (auto simp: plain_cell_def cell_ok_def value_in_range_def)
qed

theorem server_tables_hold_no_texts_witness:
  "literal_value True ''7'' = V_STRING [] \<or> (\<exists>i. literal_value True ''7'' = V_INT i \<and> in_int32 i)"
proof -
  obtain t D R where R: "server_reachable mem_os mem_empty t" "ss_db (abs_session (sv_exec t)) = Some D" "D ''t'' = Some R"
      "rel_rows R = [[literal_value True ''7'', literal_value True ''8'']]"
    using sample_session_reached by blast
  show ?thesis
    using server_tables_hold_no_texts [OF R(1-3),
        of "[literal_value True ''7'', literal_value True ''8'']" "literal_value True ''7''"] by (simp add: R(4))
qed

text \<open>C20. Exit: when exit is typed at the prompt, the server saves and stops, the client prints the
  server's goodbye and its own and ends; and on a file system where a write is read back and leaves
  other files alone, if the saving succeeds, every table of the selected database that the text
  format can represent is loaded from its file with its schema and rows.\<close>

theorem typed_exit_is_durable:
  assumes "server_reachable os w s" and "sv_phase s = Listening"
  shows "\<exists>t. client_loop (ask os) (ask_exit os) (''exit'' @ LF # rest) s out
        = Some (out @ prompt @ ''goodbye'' @ [LF] @ goodbye_text, t)
    \<and> rtranclp (server_step os) s t \<and> sv_phase t = Stopped
    \<and> (\<forall>db tab. reads_back os \<and> keeps_others os \<and> ex_current_db (sv_exec s) = Some db
         \<and> fst (save_all os db (ex_world (sv_exec s))) \<and> tab \<in> set (db_tables db) \<and> persistable tab \<longrightarrow>
         (\<exists>u. load_from_file os (table_new_in (tb_name tab) (default_data_root @ ''/'' @ current_db_name (sv_exec s)))
             (ex_world (sv_exec t)) = (True, u) \<and> tb_columns u = tb_columns tab \<and> tb_rows u = tb_rows tab))"
proof -
  let ?bye = "serialize_status ''ok'' ''goodbye''" and ?t = "converse os (exit_request @ [LF]) s"
  note inv = server_reachable_inv [OF assms(1)]
  have "line_text exit_request" "length exit_request < max_msg - 1" "exit_request \<noteq> []"
    by (simp_all add: exit_request_def quoted_def max_msg_def)
  then have received: "recv_line (exit_request @ [LF]) = (exit_request, [])" "exit_request \<noteq> []"
    using recv_line_text [of exit_request "[]"] by (simp_all add: max_msg_def)
  have "handle_request os exit_request (sv_exec s) = Some (Goodbye ?bye, sv_exec s)"
    by (simp add: handle_request_def exit_request_exits)
  note t = converse_exits [OF assms(2) received this]
  have bye: "line_text ?bye" "length ?bye < max_msg" by (simp_all add: serialize_status_json quoted_def max_msg_def)
  have asked: "ask_exit os s = (?bye, ?t)"
    using t recv_line_text [OF bye, of "[]"] by (simp add: ask_exit_def send_exit_def whole_line send_line_def)
  have "text_after ?bye message_key = Some ''goodbye''"
    by (simp add: text_after_strstr serialize_status_json quoted_def message_key_def member_sep_def Let_def)
  moreover have "read_line max_input (''exit'' @ LF # rest) = Some (''exit'', rest)"
    by (rule line_typed) (simp_all add: sql_room_def request_prefix_length max_msg_def)
  ultimately have "client_loop (ask os) (ask_exit os) (''exit'' @ LF # rest) s out
      = Some (out @ prompt @ ''goodbye'' @ [LF] @ goodbye_text, ?t)"
    using asked by (subst client_loop.simps) (simp add: Let_def)
  then show ?thesis
    using t inv shutdown_loads [of "sv_exec s" _ os] by (intro exI [of _ ?t]) (simp add: server_inv_def)
qed

theorem typed_exit_is_durable_witness:
  "\<exists>s t (tab :: table) (u :: table). client_loop (ask mem_os) (ask_exit mem_os) (''exit'' @ [LF]) s []
       = Some (prompt @ ''goodbye'' @ [LF] @ goodbye_text, t) \<and> sv_phase t = Stopped
     \<and> load_from_file mem_os (table_new_in (tb_name tab) (default_data_root @ ''/'' @ current_db_name (sv_exec s)))
         (ex_world (sv_exec t)) = (True, u) \<and> tb_rows u = [[V_INT 7, V_INT 8]]"
proof -
  obtain s db tab where s: "server_reachable mem_os mem_empty s" "sv_phase s = Listening" "ex_current_db (sv_exec s) = Some db"
      "fst (save_all mem_os db (ex_world (sv_exec s)))" "tab \<in> set (db_tables db)" "persistable tab"
      "tb_rows tab = [[V_INT 7, V_INT 8]]"
    using sample_state_reached by blast
  obtain t where t: "client_loop (ask mem_os) (ask_exit mem_os) (''exit'' @ LF # []) s []
        = Some ([] @ prompt @ ''goodbye'' @ [LF] @ goodbye_text, t)" "sv_phase t = Stopped"
      "\<exists>u. load_from_file mem_os (table_new_in (tb_name tab) (default_data_root @ ''/'' @ current_db_name (sv_exec s)))
         (ex_world (sv_exec t)) = (True, u) \<and> tb_columns u = tb_columns tab \<and> tb_rows u = tb_rows tab"
    using typed_exit_is_durable [OF s(1,2), of "[]" "[]"] mem_os_laws(1,2) s(3-6) by blast
  obtain u where u: "load_from_file mem_os (table_new_in (tb_name tab) (default_data_root @ ''/'' @ current_db_name (sv_exec s)))
         (ex_world (sv_exec t)) = (True, u)" "tb_rows u = tb_rows tab"
    using t(3) by blast
  show ?thesis
    by (rule exI [of _ s], rule exI [of _ t], rule exI [of _ tab], rule exI [of _ u])
      (use t(1,2) u s(7) in \<open>simp del: client_loop.simps\<close>)
qed

end
