(* ===== verification/Programs.thy ===== *)
theory Programs
  imports Typed_Sessions "HOL-Library.Word"
begin

text \<open>
  The two programs from their arguments to their exit codes (src/cli, src/network): which
  system calls on sockets a connection of the client makes, how the server sets up its listening
  socket, and what the main functions print and return. The results of the system calls are the
  environment; the calls themselves are recorded in order. A port is passed to the system as an
  \<open>unsigned short\<close>.
\<close>

section \<open>Socket calls\<close>

datatype call =
    Socket int
  | Connect int nat "16 word"
  | Bind int "16 word"
  | Listen int
  | Write int string
  | Close int

text \<open>What the calls of one connection return; \<open>nt_reply\<close> is what the server then sends.\<close>

record net =
  nt_socket :: int
  nt_resolve :: "string \<Rightarrow> nat option"
  nt_inet_addr :: "string \<Rightarrow> nat"
  nt_connect :: int
  nt_write1 :: int
  nt_write2 :: int
  nt_reply :: "string \<Rightarrow> string"

definition invalid_socket :: int where
  "invalid_socket = - 1"

definition port_word :: "int \<Rightarrow> 16 word" where
  "port_word port = of_int port"

definition connect_to_server :: "net \<Rightarrow> string \<Rightarrow> int \<Rightarrow> int \<times> call list" where
  "connect_to_server nt host port =
     (let sock = nt_socket nt
      in if sock = invalid_socket then (invalid_socket, [Socket sock])
         else (let addr = (case nt_resolve nt host of Some a \<Rightarrow> a | None \<Rightarrow> nt_inet_addr nt host);
                   calls = [Socket sock, Connect sock addr (port_word port)]
               in if nt_connect nt = - 1 then (invalid_socket, calls @ [Close sock]) else (sock, calls)))"

definition send_sql_calls :: "net \<Rightarrow> string \<Rightarrow> int \<Rightarrow> string \<Rightarrow> string \<times> call list" where
  "send_sql_calls nt host port sql =
     (let (sock, calls) = connect_to_server nt host port
      in if sock = invalid_socket then (connect_failed, calls)
         else (let (ok, sent) = client_send_line (nt_write1 nt) (nt_write2 nt) (client_request sql) [];
                   result = (if \<not> ok then send_failed else fst (client_recv_line (nt_reply nt sent)))
               in (result, calls @ [Write sock sent, Close sock])))"

definition send_exit_calls :: "net \<Rightarrow> string \<Rightarrow> int \<Rightarrow> string \<times> call list" where
  "send_exit_calls nt host port =
     (let (sock, calls) = connect_to_server nt host port
      in if sock = invalid_socket then ([], calls)
         else (let (ok, sent) = client_send_line (nt_write1 nt) (nt_write2 nt) exit_request []
               in (fst (client_recv_line (nt_reply nt sent)), calls @ [Write sock sent, Close sock])))"

section \<open>The client program\<close>

text \<open>The network over time: the connections' results one after the other, and the calls made.\<close>

record network =
  nw_nets :: "nat \<Rightarrow> net"
  nw_time :: nat
  nw_calls :: "call list"

definition over_network :: "(net \<Rightarrow> string \<times> call list) \<Rightarrow> network \<Rightarrow> string \<times> network" where
  "over_network f nw =
     (let (r, calls) = f (nw_nets nw (nw_time nw))
      in (r, nw\<lparr>nw_time := nw_time nw + 1, nw_calls := nw_calls nw @ calls\<rparr>))"

definition default_host :: string where
  "default_host = ''127.0.0.1''"

definition client_banner :: "string \<Rightarrow> int \<Rightarrow> string" where
  "client_banner host port =
     ''MiniDB Client '' @ [CHR 0xE2, CHR 0x80, CHR 0x94] @ '' connecting to '' @ host @ '':'' @ show_int port @ [LF]
     @ ''Type SQL statements or '' @ squote ''exit'' @ '' to quit, '' @ squote ''help'' @ '' for help.'' @ [LF, LF]"

definition invalid_port :: "string \<Rightarrow> string" where
  "invalid_port arg = ''Invalid port: '' @ arg @ [LF]"

text \<open>The arguments without the program's name; the exit code, the error stream, the output.\<close>

definition client_main :: "string list \<Rightarrow> string \<Rightarrow> network \<Rightarrow> (int \<times> string \<times> string \<times> network) option" where
  "client_main args stdin nw =
     (let host = (case args of [] \<Rightarrow> default_host | h # _ \<Rightarrow> h);
          arg = (case args of _ # p # _ \<Rightarrow> Some p | _ \<Rightarrow> None)
      in case port_argument arg of
           None \<Rightarrow> Some (1, invalid_port (the arg), [], nw)
         | Some port \<Rightarrow> do {
             (out, nw1) \<leftarrow> client_loop (\<lambda>sql. over_network (\<lambda>nt. send_sql_calls nt host port sql))
               (over_network (\<lambda>nt. send_exit_calls nt host port)) stdin nw (client_banner host port);
             Some (0, [], out, nw1)
           })"

section \<open>The server program\<close>

record server_env =
  su_socket :: int
  su_bind :: int
  su_listen :: int

definition setup_error :: "string \<Rightarrow> string" where
  "setup_error msg = msg @ [LF]"

definition listening_text :: "int \<Rightarrow> string" where
  "listening_text port = ''MiniDB Server listening on port '' @ show_int port @ ''...'' @ [LF]"

definition stopped_text :: string where
  "stopped_text = ''MiniDB Server stopped.'' @ [LF]"

text \<open>\<open>run_server\<close> up to its loop: the exit code and message of a failure, or the listening socket.\<close>

definition server_setup :: "server_env \<Rightarrow> int \<Rightarrow> (int \<times> string + int) \<times> call list" where
  "server_setup su port =
     (let sock = su_socket su
      in if sock = invalid_socket then (Inl (1, setup_error ''Failed to create socket''), [Socket sock])
         else if su_bind su = - 1
         then (Inl (1, setup_error (''Failed to bind to port '' @ show_int port)),
               [Socket sock, Bind sock (port_word port), Close sock])
         else if su_listen su = - 1
         then (Inl (1, setup_error ''Failed to listen''),
               [Socket sock, Bind sock (port_word port), Listen sock, Close sock])
         else (Inr sock, [Socket sock, Bind sock (port_word port), Listen sock]))"

text \<open>
  The whole of \<open>run_server\<close>, when its loop is left: the exit code, the error stream, the output and the calls
  on the listening socket. The loop itself is \<open>server_step\<close>.
\<close>

definition run_server :: "server_env \<Rightarrow> int \<Rightarrow> int \<times> string \<times> string \<times> call list" where
  "run_server su port =
     (case server_setup su port of
        (Inl (code, err), calls) \<Rightarrow> (code, err, [], calls)
      | (Inr sock, calls) \<Rightarrow> (0, [], listening_text port @ stopped_text, calls @ [Close sock]))"

definition server_main :: "string list \<Rightarrow> server_env \<Rightarrow> int \<times> string \<times> string \<times> call list" where
  "server_main args su =
     (let arg = (case args of [] \<Rightarrow> None | p # _ \<Rightarrow> Some p)
      in case port_argument arg of
           None \<Rightarrow> (1, invalid_port (the arg), [], [])
         | Some port \<Rightarrow> run_server su port)"

section \<open>Sockets are closed\<close>

definition opens :: "int \<Rightarrow> call list \<Rightarrow> nat" where
  "opens fd calls = length (filter (\<lambda>c. c = Socket fd) calls)"

definition closes :: "int \<Rightarrow> call list \<Rightarrow> nat" where
  "closes fd calls = length (filter (\<lambda>c. c = Close fd) calls)"

text \<open>Every socket the system gave is closed as often as it was given, and no other descriptor is.\<close>

definition balanced :: "call list \<Rightarrow> bool" where
  "balanced calls \<longleftrightarrow> (\<forall>fd. closes fd calls = (if fd = invalid_socket then 0 else opens fd calls))"

text \<open>The ports the calls name.\<close>

definition ports :: "call list \<Rightarrow> 16 word set" where
  "ports calls = {p. \<exists>s a. Connect s a p \<in> set calls \<or> Bind s p \<in> set calls}"

lemma balanced_append: "balanced a \<Longrightarrow> balanced b \<Longrightarrow> balanced (a @ b)"
  by (simp add: balanced_def opens_def closes_def)

lemma ports_append [simp]: "ports (a @ b) = ports a \<union> ports b"
  by (auto simp: ports_def)

lemma ports_Nil [simp]: "ports [] = {}"
  by (simp add: ports_def)

lemma send_sql_calls_ok:
  "balanced (snd (send_sql_calls nt host port sql)) \<and> ports (snd (send_sql_calls nt host port sql)) \<subseteq> {port_word port}"
  by (auto simp: send_sql_calls_def connect_to_server_def balanced_def opens_def closes_def ports_def Let_def
      split: prod.split)

lemma send_exit_calls_ok:
  "balanced (snd (send_exit_calls nt host port)) \<and> ports (snd (send_exit_calls nt host port)) \<subseteq> {port_word port}"
  by (auto simp: send_exit_calls_def connect_to_server_def balanced_def opens_def closes_def ports_def Let_def
      split: prod.split)

section \<open>The client's network\<close>

text \<open>A response of the server never ends right after a separator.\<close>

definition replies_end :: "net \<Rightarrow> bool" where
  "replies_end nt \<longleftrightarrow> (\<forall>sent. let r = fst (recv_line (nt_reply nt sent)) in drop (length r - 3) r \<noteq> member_sep)"

definition network_ok :: "int \<Rightarrow> network \<Rightarrow> bool" where
  "network_ok port nw \<longleftrightarrow> (\<forall>i. replies_end (nw_nets nw i)) \<and> balanced (nw_calls nw)
     \<and> ports (nw_calls nw) \<subseteq> {port_word port}"

lemma over_network_ok:
  assumes "network_ok port nw"
    and "\<And>nt. balanced (snd (f nt)) \<and> ports (snd (f nt)) \<subseteq> {port_word port}"
  shows "network_ok port (snd (over_network f nw))"
  using assms(1) assms(2) [of "nw_nets nw (nw_time nw)"]
  by (auto simp: network_ok_def over_network_def balanced_append split: prod.split)

lemma failed_ends: "drop (length connect_failed - 3) connect_failed \<noteq> member_sep"
    "drop (length send_failed - 3) send_failed \<noteq> member_sep"
  by (simp_all add: connect_failed_def send_failed_def serialize_status_json quoted_def member_sep_def)

lemma response_ends:
  assumes "network_ok port nw"
  shows "drop (length (fst (over_network (\<lambda>nt. send_sql_calls nt host port sql) nw)) - 3)
    (fst (over_network (\<lambda>nt. send_sql_calls nt host port sql) nw)) \<noteq> member_sep"
proof -
  have "replies_end (nw_nets nw (nw_time nw))" using assms by (simp add: network_ok_def)
  then show ?thesis
    using failed_ends by (simp add: over_network_def send_sql_calls_def replies_end_def Let_def split: prod.split)
qed

interpretation client_net: prompt_network
    "\<lambda>sql. over_network (\<lambda>nt. send_sql_calls nt host port sql)"
    "over_network (\<lambda>nt. send_exit_calls nt host port)" "network_ok port"
  for host :: string and port :: int
  by unfold_locales (simp_all add: over_network_ok send_sql_calls_ok send_exit_calls_ok response_ends)

lemma port_word_exact: "0 < port \<Longrightarrow> port \<le> 65535 \<Longrightarrow> uint (port_word port) = port"
  by (simp add: port_word_def unsigned_of_int take_bit_int_eq_self)

text \<open>The server program: it fails with 1 and a message, or ends with 0; its socket is closed once.\<close>

lemma server_main_outcome:
  "case server_main args su of (code, err, out, calls) \<Rightarrow>
     balanced calls \<and> code \<in> {0, 1} \<and> (code = 1 \<longleftrightarrow> err \<noteq> []) \<and> (code = 1 \<longleftrightarrow> out = [])
     \<and> (\<forall>p \<in> ports calls. port_argument (case args of [] \<Rightarrow> None | p # _ \<Rightarrow> Some p) = Some (uint p))"
proof (cases "port_argument (case args of [] \<Rightarrow> None | p # _ \<Rightarrow> Some p)")
  case None
  then show ?thesis
    by (simp add: server_main_def invalid_port_def balanced_def opens_def closes_def Let_def)
next
  case (Some port)
  have "uint (port_word port) = port" using port_in_range [OF Some] by (intro port_word_exact) simp_all
  then show ?thesis
    using Some
    by (auto simp: server_main_def run_server_def server_setup_def setup_error_def listening_text_def
        balanced_def opens_def closes_def ports_def Let_def invalid_socket_def)
qed

section \<open>Properties\<close>

text \<open>C35. The client program: provided that no reply of a server ends with the separator of a
  member (the display then reads past the reply, as Client_Cli shows), it always comes to its
  end; it returns 1 without a connection for a port outside 1 to 65535, and
  0 otherwise; every socket it opened is closed exactly once, and every connection goes to the
  port given.\<close>

theorem client_closes_its_sockets:
  assumes "\<And>i. replies_end (nw_nets nw i)" and "nw_calls nw = []"
  shows "\<exists>code err out nw'. client_main args stdin nw = Some (code, err, out, nw') \<and> balanced (nw_calls nw')
    \<and> (case port_argument (case args of h # p # _ \<Rightarrow> Some p | _ \<Rightarrow> None) of
         None \<Rightarrow> code = 1 \<and> nw' = nw
       | Some port \<Rightarrow> code = 0 \<and> uint ` ports (nw_calls nw') \<subseteq> {port})"
proof (cases "port_argument (case args of h # p # _ \<Rightarrow> Some p | _ \<Rightarrow> None)")
  case None
  then show ?thesis using assms(2) by (simp add: client_main_def balanced_def opens_def closes_def Let_def)
next
  case (Some port)
  let ?host = "case args of [] \<Rightarrow> default_host | h # _ \<Rightarrow> h"
  have "network_ok port nw" using assms by (simp add: network_ok_def balanced_def opens_def closes_def)
  from client_net.loop_ends [OF this, where host = ?host and stdin = stdin and out = "client_banner ?host port"]
  obtain out nw' where run: "client_loop (\<lambda>sql. over_network (\<lambda>nt. send_sql_calls nt ?host port sql))
      (over_network (\<lambda>nt. send_exit_calls nt ?host port)) stdin nw (client_banner ?host port) = Some (out, nw')"
    and ok: "network_ok port nw'" by blast
  have "uint ` ports (nw_calls nw') \<subseteq> {port}"
    using ok port_in_range [OF Some] port_word_exact [of port] by (auto simp: network_ok_def)
  then show ?thesis using Some run ok by (simp add: client_main_def network_ok_def Let_def)
qed

definition sample_net :: net where
  "sample_net = \<lparr>nt_socket = 3, nt_resolve = (\<lambda>h. None), nt_inet_addr = (\<lambda>h. 0), nt_connect = 0, nt_write1 = 100,
     nt_write2 = 1, nt_reply = (\<lambda>sent. ''{}'' @ [LF])\<rparr>"

theorem client_closes_its_sockets_witness:
  "\<exists>err out nw'. client_main [''localhost'', ''4000''] (''drop table t'' @ [LF])
       \<lparr>nw_nets = (\<lambda>i. sample_net), nw_time = 0, nw_calls = []\<rparr> = Some (0, err, out, nw')
     \<and> balanced (nw_calls nw') \<and> uint ` ports (nw_calls nw') \<subseteq> {4000}"
proof -
  have "recv_line (''{}'' @ [LF]) = (''{}'', [])" by code_simp
  then have "replies_end sample_net" by (simp add: replies_end_def sample_net_def member_sep_def)
  moreover have "port_argument (Some ''4000'') = Some 4000" by code_simp
  ultimately show ?thesis
    using client_closes_its_sockets [of "\<lparr>nw_nets = (\<lambda>i. sample_net), nw_time = 0, nw_calls = []\<rparr>"
        "[''localhost'', ''4000'']" "''drop table t'' @ [LF]"]
    by auto
qed

end
