(* ===== verification/Spec2Isabelle.thy ===== *)
theory Spec2Isabelle
  imports Core_Vector String_Memory Handle_Memory Programs
begin

text \<open>
  MiniDB: a small SQL database in C++ without the standard containers, with a lexer and parser,
  a file-backed storage layer, an execution engine and a line-based client and server. This
  library translates the sources under src/src and src/include by hand, definition by
  definition, and proves what makes each part correct, or where it is not.

  \<^bold>\<open>Conventions.\<close> An access that C++ leaves undefined (an index out of range, a null pointer, a
  dead object) is \<open>None\<close>; every theorem that an operation ends in \<open>Some\<close> is a proof that it is
  defined. Loops are structural recursion, counted loops (\<open>for_range\<close>, \<open>for_down\<close>) or \<open>function\<close>
  with a measure, so every operation terminates and there is no fuel. The sizes of the code's
  buffers are kept: 8192 bytes for lines and messages, 512, 256 and 32 for formatted texts
  (\<open>snprintf\<close> cuts them). A C++ \<open>int\<close> is an integer, with the wrap-around of a conversion
  (\<open>wrap32\<close>) or the range a theorem needs written out; a port becomes a 16-bit word. A string is
  the list of its bytes, without the terminator.

  \<^bold>\<open>Sizes.\<close> The containers keep the machine's sizes: \<open>sizeof(T) * capacity\<close> wraps at \<open>2 ^ 64\<close>
  (Core_Vector) and the index's positions are 32-bit \<open>int\<close>s (Index_Model, the operations ending in
  32); their theorems name the bounds. The executor is on the other side of these bounds: it
  uses the index with unbounded positions, and the \<open>int\<close>s that count and number the rows in DELETE
  and UPDATE are unbounded, so its theorems speak of the code for tables of less than \<open>2 ^ 31\<close>
  rows, which the theories above it do not repeat.

  \<^bold>\<open>Theories,\<close> in the order of the calls:
  \<^item> Prelude: checked access to sequences, counting loops and their rules, shifts, 32-bit wrap-around.
  \<^item> C_Library: the C library functions the code calls (strcmp, atoi, strtok, fgets, strstr,
    snprintf and others).
  \<^item> Heap_Blocks: heaps of live blocks, for the theories that follow allocation and release.
  \<^item> Core_Vector, Core_String, String_Memory (core/vector.hpp, core/string.hpp): the containers at
    the level of raw memory. Runs of vector operations are runs on lists and leak nothing;
    strings compare their bytes, own their buffers and release each once. The other theories
    then use lists for both.
  \<^item> Lexer, Lexer_Spec (parser/token, parser/lexer): the lexer, and the inductive lexical grammar
    that it decides.
  \<^item> Ast, Parser, Parser_Props, Sql_Print (parser/ast, parser/parser): statements, the
    recursive-descent parser on a token vector and a position, a printer for statements, and
    the round trip through text. The parser never reads beyond the token vector, every error has
    a message that fits its buffer, and a text without quotes gives no text literals.
  \<^item> C_Api, Handle_Memory (parser/parser_c.cpp, include/minidb/parser.h): the C handle and its
    accessors, then the heap blocks behind it: what is allocated, read and released.
  \<^item> Row_Value (storage/row, storage/column): the tagged union on its raw buffer, its total
    order, rows and columns.
  \<^item> Index_Model (storage/index): the sorted-vector index, a finite map; with 32-bit positions and
    with unbounded ones, which agree below \<open>2 ^ 31\<close> entries.
  \<^item> Table_Model (storage/table): tables, their text format, saving and loading over an
    abstract file system (record \<open>os\<close>; the laws used of it are named predicates, and an
    in-memory file system has them).
  \<^item> Database_Model (storage/database): three parallel vectors of names, tables and indexes.
  \<^item> Executor, Executor_Props (execution/executor): the nine statement handlers and their loops.
  \<^item> Relational_Spec, Relational: a relational specification (a map from names to schema, rows
    and keys), which values and columns its runs can bring into a relation, and the refinement:
    the handlers compute the specification and ask of the file system exactly \<open>os_effect\<close>.
  \<^item> Key_Integrity, Sessions: the primary-key invariant and its limits, integer literals beyond
    32 bits, the types a session keeps, and the life of a database: selected, saved, dropped.
  \<^item> Protocol (network/protocol): building and reading the JSON texts, compared with a JSON
    datatype and its printer.
  \<^item> Server (network/server, network/client): lines, requests and their specification
    (\<open>sp_request\<close>), and the server's loop as a step relation over what clients may send and how
    writes may fail, ending the process (a broken pipe) included; client.cpp's own copies of the
    line functions agree with the server's. A request cut off on its way is executed whole or not
    at all.
  \<^item> Client_Cli, Select_Display (cli): arguments, the interactive loop, the display of
    responses, and the exact text shown for a SELECT's answer.
  \<^item> End_To_End, Typed_Sessions: prompt, transport, server and display composed: what a line
    typed at the prompt does and shows, whatever it holds but quotes, then whole sessions up to
    the exit that saves and stops the server.
  \<^item> Programs (cli, network): the socket calls of a connection and of the server's start, and the
    two main functions with their exit codes.

  \<^bold>\<open>Interfaces.\<close> \<open>sequence_container\<close> (what the code relies on of \<open>core::Vector\<close>), \<open>owned_text\<close> (of
  \<open>core::String\<close>), \<open>key_index\<close> (of the primary-key index) and \<open>prompt_network\<close> (what the prompt
  relies on of the network) are locales, each interpreted on the definitions translated from the
  code in the theory that provides them. Values are a \<open>linorder\<close>, by \<open>Value::compare\<close>.

  \<^bold>\<open>Where the code is not what it means to be.\<close> Some theorems state such behaviour: nothing in a
  response is escaped and the columns of a SELECT answer are not JSON (Protocol); its rows are
  never displayed (Select_Display); a statement with a quote is cut off on its way to the server,
  and a client that leaves before it is answered can end the server unsaved (Server); no text
  can be stored through it (Typed_Sessions); a text key is indexed under 0, an update of keys
  makes duplicates and large literals alias (Key_Integrity); values are not checked against the
  types of their columns, USE forgets saved tables and the next save overwrites them, and
  DROP DATABASE of the selected database fails (Sessions); empty texts are lost in a table's
  file (Table_Model); \<open>a = a.c_str()\<close> and a push of a vector's own element into a full vector
  read released memory (String_Memory, Core_Vector); a reply cut off after a separator is read
  past its end (Client_Cli).

  \<^bold>\<open>Not modelled.\<close> Sockets and file-system calls are parameters (what \<open>read\<close>, \<open>write\<close>, \<open>fopen\<close>,
  \<open>mkdir\<close>, \<open>rmdir\<close>, \<open>remove\<close> did). A broken pipe that ends the process is modelled in the server;
  in the client, which keeps no state, a \<open>write\<close> is taken to return. A file that could be opened
  is taken to be written whole. Allocation failure and the Windows variants of the system calls.
  The moves that \<open>push_back(T&&)\<close> and the return of values make instead of copies are copies here, except
  where the moved-from object is observable. The tests and the build files.
\<close>

end
